(* ===== verification/Porter_Prelude.thy ===== *)
theory Porter_Prelude
  imports "HOL-Library.Word" "HOL-Library.Code_Target_Numeral"
begin

text \<open>
  Shared vocabulary of the development: names for the machine integers of the C
  sources, the copy of a byte block into a flat buffer (the only use the sources
  make of \<^verbatim>\<open>memcpy\<close> on shared memory), and the facts on lists, ring
  positions and wrapping words that the component theories rest on.

  The collections \<open>potr_defs\<close> (definitions a component unfolds together),
  \<open>win_simps\<close>, \<open>mem_simps\<close> and \<open>frame_simps\<close> (which field an operation
  leaves alone) are filled by the components.
\<close>

named_theorems mem_simps \<open>reading a buffer after writing it\<close>
named_theorems ring_simps \<open>positions in a circular buffer\<close>
named_theorems win_simps \<open>sliding window access after update\<close>
named_theorems frame_simps \<open>fields an operation leaves unchanged\<close>
named_theorems potr_defs \<open>definitions unfolded together\<close>

type_synonym u8 = "8 word"
type_synonym u16 = "16 word"
type_synonym u32 = "32 word"
type_synonym u64 = "64 word"
type_synonym bytes = "8 word list"

section \<open>Byte blocks in a flat buffer\<close>

definition mem_write :: "bytes \<Rightarrow> nat \<Rightarrow> bytes \<Rightarrow> bytes" where
  "mem_write b off src = take off b @ src @ drop (off + length src) b"

definition mem_read :: "bytes \<Rightarrow> nat \<Rightarrow> nat \<Rightarrow> bytes" where
  "mem_read b off n = take n (drop off b)"

lemma length_mem_write [simp]:
  "off + length src \<le> length b \<Longrightarrow> length (mem_write b off src) = length b"
  by (simp add: mem_write_def)

lemma length_mem_read [simp]: "off + n \<le> length b \<Longrightarrow> length (mem_read b off n) = n"
  by (simp add: mem_read_def)

lemma mem_read_same [mem_simps]:
  "off + length src \<le> length b \<Longrightarrow> n = length src \<Longrightarrow> mem_read (mem_write b off src) off n = src"
  by (simp add: mem_write_def mem_read_def)

lemma mem_read_below [mem_simps]:
  assumes "off' + n \<le> off" "off \<le> length b"
  shows "mem_read (mem_write b off src) off' n = mem_read b off' n"
proof -
  have "take n (drop off' (take off b @ xs)) = take n (drop off' b)" for xs
    using assms by (simp add: drop_take)
  then show ?thesis unfolding mem_write_def mem_read_def .
qed

lemma mem_read_above [mem_simps]:
  assumes "off + length src \<le> off'" "off \<le> length b"
  shows "mem_read (mem_write b off src) off' n = mem_read b off' n"
  using assms by (simp add: mem_write_def mem_read_def)

lemma mem_read_other_slot:
  assumes "i \<noteq> j" "length src \<le> m" "n \<le> m" "i * m \<le> length b"
  shows "mem_read (mem_write b (i * m) src) (j * m) n = mem_read b (j * m) n"
proof (cases "j < i")
  case True
  then have "j * m + m \<le> i * m" by (metis Suc_leI add.commute mult_Suc mult_le_mono1)
  with assms show ?thesis by (intro mem_read_below) auto
next
  case False
  with assms have "i * m + m \<le> j * m"
    by (metis Suc_leI add.commute linorder_neqE_nat mult_Suc mult_le_mono1)
  with assms show ?thesis by (intro mem_read_above) auto
qed

section \<open>Positions in a circular buffer\<close>

lemma ring_inj [ring_simps]:
  assumes "d < n" "e < n"
  shows "((b + d) mod n = (b + e) mod n) = (d = (e::nat))"
proof -
  have "d = e" if "(b + d) mod n = (b + e) mod n" "d < n" "e < n" "d \<le> e" for d e :: nat
  proof -
    from that have "n dvd (b + e) - (b + d)"
      by (metis mod_eq_dvd_iff_nat add_le_cancel_left)
    then have "n dvd e - d" by simp
    then show "d = e" using that
      by (metis diff_is_0_eq' dvd_imp_le le_antisym less_imp_diff_less not_le zero_less_diff)
  qed
  from this[of d e] this[of e d] assms show ?thesis by (metis nat_le_linear)
qed

lemma ring_shift [ring_simps]: "((b + 1) mod n + d) mod n = (b + Suc d) mod (n::nat)"
  by (simp add: mod_simps)

lemma ring_shift_Suc [ring_simps]: "(Suc b mod n + d) mod n = Suc (b + d) mod (n::nat)"
  by (simp add: mod_simps)

lemma ring_full_turn [ring_simps]: "0 < n \<Longrightarrow> (b + n) mod n = b mod (n::nat)"
  by simp

section \<open>Lists\<close>

lemma map_upt_shift_None:
  assumes "0 < n" "\<And>d. Suc d < n \<Longrightarrow> g d = f (Suc d)" "g (n - 1) = y"
  shows "map g [0..<n] = tl (map f [0..<n]) @ [y]"
proof (rule nth_equalityI)
  show "length (map g [0..<n]) = length (tl (map f [0..<n]) @ [y])" using assms(1) by simp
next
  fix i assume "i < length (map g [0..<n])"
  then have i: "i < n" by simp
  show "map g [0..<n] ! i = (tl (map f [0..<n]) @ [y]) ! i"
  proof (cases "Suc i < n")
    case True
    then have "i < n - Suc 0" by simp
    then show ?thesis using True i assms(2) by (simp add: nth_append nth_tl)
  next
    case False
    with i have "i = n - 1" by simp
    then show ?thesis using assms i by (simp add: nth_append)
  qed
qed

lemma map_upt_update:
  assumes "d < n" "\<And>e. e < n \<Longrightarrow> e \<noteq> d \<Longrightarrow> g e = f e" "g d = y"
  shows "map g [0..<n] = (map f [0..<n])[d := y]"
  by (rule nth_equalityI) (use assms in \<open>auto simp: nth_list_update\<close>)

lemma list_ex_upt: "list_ex P [a..<b] \<longleftrightarrow> (\<exists>i. a \<le> i \<and> i < b \<and> P i)"
  by (auto simp: list_ex_iff)

section \<open>Wrapping words\<close>

lemma unat_ucast_16_32 [simp]: "unat (ucast (x :: u16) :: u32) = unat x"
  by (simp add: unsigned_ucast_eq take_bit_nat_eq_self order.strict_trans[OF unsigned_less])

lemma unat_u16_less: "unat (x :: u16) < 65536"
  using unsigned_less[of x] by simp

lemma unat_u32_less: "unat (x :: u32) < 4294967296"
  using unsigned_less[of x] by simp

lemma unat_of_nat_u32: "n < 4294967296 \<Longrightarrow> unat (of_nat n :: u32) = n"
  by (simp add: unsigned_of_nat take_bit_nat_eq_self)

lemma unat_diff_ahead:
  assumes "n \<le> i" "i < n + 4294967296"
  shows "unat (of_nat i - of_nat n :: u32) = i - n"
proof -
  have "(of_nat i - of_nat n :: u32) = of_nat (i - n)" using assms(1) by (rule of_nat_diff[symmetric])
  then show ?thesis using assms unat_of_nat_u32[of "i - n"] by (simp only:)
qed

lemma unat_diff_behind:
  assumes "i < n" "n \<le> i + 4294967296"
  shows "unat (of_nat i - of_nat n :: u32) = 4294967296 - (n - i)"
proof -
  have "(of_nat (i + 4294967296) :: u32) = of_nat i" by simp
  moreover have "(of_nat (i + 4294967296) - of_nat n :: u32) = of_nat (i + 4294967296 - n)"
    using assms(2) by (rule of_nat_diff[symmetric])
  ultimately have "(of_nat i - of_nat n :: u32) = of_nat (i + 4294967296 - n)" by (simp only:)
  then show ?thesis using assms unat_of_nat_u32[of "i + 4294967296 - n"] by (simp only:)
qed

lemma unat_Suc_diff:
  assumes "unat (n - b :: u32) < 4294967295"
  shows "unat (n + 1 - b) = Suc (unat (n - b))"
proof -
  have "n + 1 - b = (n - b) + 1" by simp
  then show ?thesis using assms by (simp only:) (simp add: unat_word_ariths(1))
qed

lemma word_ex_offset: "\<exists>d. (s :: u32) = b + of_nat d \<and> d = unat (s - b)"
  by (rule exI[of _ "unat (s - b)"]) simp

end
