(* ===== verification/Porter_Types.thy ===== *)
theory Porter_Types
  imports Porter_Prelude
begin

text \<open>
  The public constants, enumerations and wire structure of porter
  (\<^verbatim>\<open>porter_const.h\<close>, \<^verbatim>\<open>porter_result.h\<close>, \<^verbatim>\<open>porter_type.h\<close>, and the session
  header of \<^verbatim>\<open>protocol/packet.h\<close>), and the record \<open>cplat\<close> of what the sources
  take from the separate platform library \<^verbatim>\<open>cplat\<close>.  That library is not part of
  the sources: every definition that calls it takes a value of type \<open>cplat\<close>, and
  what a theorem needs of it is one of the named hypotheses at the end of this theory.
\<close>

unbundle bit_operations_syntax

section \<open>Result codes\<close>

datatype potr_result =
    POTR_OK
  | POTR_ERR_UNKNOWN
  | POTR_ERR_INVALID_ARGUMENT
  | POTR_ERR_UNSUPPORTED
  | POTR_ERR_NOT_FOUND
  | POTR_ERR_OUT_OF_MEMORY
  | POTR_ERR_FULL
  | POTR_ERR_EMPTY
  | POTR_ERR_OUT_OF_WINDOW
  | POTR_ERR_DISCONNECTED
  | POTR_ERR_TIMEOUT
  | POTR_ERR_EOF
  | POTR_ERR_IO
  | POTR_ERR_PROTOCOL
  | POTR_ERR_CANCELED

section \<open>Constants\<close>

abbreviation (input) POTR_SEND_COMPRESS :: u32 where "POTR_SEND_COMPRESS \<equiv> 0x0001"
abbreviation (input) POTR_SEND_BLOCKING :: u32 where "POTR_SEND_BLOCKING \<equiv> 0x0002"

abbreviation (input) POTR_FLAG_DATA :: u16 where "POTR_FLAG_DATA \<equiv> 0x0001"
abbreviation (input) POTR_FLAG_NACK :: u16 where "POTR_FLAG_NACK \<equiv> 0x0002"
abbreviation (input) POTR_FLAG_PING :: u16 where "POTR_FLAG_PING \<equiv> 0x0004"
abbreviation (input) POTR_FLAG_REJECT :: u16 where "POTR_FLAG_REJECT \<equiv> 0x0008"
abbreviation (input) POTR_FLAG_FIN :: u16 where "POTR_FLAG_FIN \<equiv> 0x0010"
abbreviation (input) POTR_FLAG_ENCRYPTED :: u16 where "POTR_FLAG_ENCRYPTED \<equiv> 0x0020"
abbreviation (input) POTR_FLAG_FIN_TARGET_VALID :: u16 where "POTR_FLAG_FIN_TARGET_VALID \<equiv> 0x0040"
abbreviation (input) POTR_FLAG_FIN_ACK :: u16 where "POTR_FLAG_FIN_ACK \<equiv> 0x0080"

abbreviation (input) POTR_FLAG_MORE_FRAG :: u16 where "POTR_FLAG_MORE_FRAG \<equiv> 0x0001"
abbreviation (input) POTR_FLAG_COMPRESSED :: u16 where "POTR_FLAG_COMPRESSED \<equiv> 0x0002"

abbreviation (input) POTR_PROTOCOL_VERSION :: u32 where "POTR_PROTOCOL_VERSION \<equiv> 1"

abbreviation (input) POTR_CRYPTO_NONCE_SIZE :: nat where "POTR_CRYPTO_NONCE_SIZE \<equiv> 12"
abbreviation (input) POTR_CRYPTO_TAG_SIZE :: nat where "POTR_CRYPTO_TAG_SIZE \<equiv> 16"

abbreviation (input) POTR_MAX_PAYLOAD :: nat where "POTR_MAX_PAYLOAD \<equiv> 65507"
abbreviation (input) POTR_MAX_WINDOW_SIZE :: nat where "POTR_MAX_WINDOW_SIZE \<equiv> 256"
abbreviation (input) POTR_PAYLOAD_ELEM_HDR_SIZE :: nat where "POTR_PAYLOAD_ELEM_HDR_SIZE \<equiv> 6"
abbreviation (input) POTR_MAX_PATH :: nat where "POTR_MAX_PATH \<equiv> 4"

abbreviation (input) POTR_PING_STATE_UNDEFINED :: u8 where "POTR_PING_STATE_UNDEFINED \<equiv> 0"
abbreviation (input) POTR_PING_STATE_NORMAL :: u8 where "POTR_PING_STATE_NORMAL \<equiv> 1"
abbreviation (input) POTR_PING_STATE_ABNORMAL :: u8 where "POTR_PING_STATE_ABNORMAL \<equiv> 2"

abbreviation (input) POTR_PACKET_HEADER_SIZE :: nat where "POTR_PACKET_HEADER_SIZE \<equiv> 40"

section \<open>Communication types, roles, peers and events\<close>

datatype potr_type =
    POTR_TYPE_UNICAST_RAW
  | POTR_TYPE_MULTICAST_RAW
  | POTR_TYPE_BROADCAST_RAW
  | POTR_TYPE_UNICAST
  | POTR_TYPE_MULTICAST
  | POTR_TYPE_BROADCAST
  | POTR_TYPE_UNICAST_BIDIR
  | POTR_TYPE_UNICAST_BIDIR_N1
  | POTR_TYPE_TCP
  | POTR_TYPE_TCP_BIDIR

datatype potr_role = POTR_ROLE_SENDER | POTR_ROLE_RECEIVER

type_synonym potr_peer_id = u32

abbreviation (input) POTR_PEER_NA :: potr_peer_id where "POTR_PEER_NA \<equiv> 0"
abbreviation (input) POTR_PEER_ALL :: potr_peer_id where "POTR_PEER_ALL \<equiv> 0xFFFFFFFF"

text \<open>
  The callback's event code with the \<^verbatim>\<open>data\<close> and \<^verbatim>\<open>len\<close> arguments it comes with: the
  message bytes, nothing, or the vector of path states with the index of the path.
\<close>

datatype potr_event =
    POTR_EVENT_DATA bytes
  | POTR_EVENT_CONNECTED
  | POTR_EVENT_DISCONNECTED
  | POTR_EVENT_PATH_CONNECTED "bool list" nat
  | POTR_EVENT_PATH_DISCONNECTED "bool list" nat

section \<open>Packets\<close>

text \<open>
  \<^verbatim>\<open>potr_packet\<close>.  The C structure is used with its integers in network byte order
  (after a \<^verbatim>\<open>build\<close>) and in host byte order (after \<^verbatim>\<open>parse\<close>); the record is the same
  for both.  The payload pointer is the block of bytes it points at.
\<close>

record potr_packet =
  service_id :: u64
  session_tv_sec :: u64
  session_id :: u32
  session_tv_nsec :: u32
  seq_num :: u32
  ack_num :: u32
  flags :: u16
  payload_len :: u16
  protocol_version :: u32
  payload :: bytes

record cplat_timespec =
  tv_sec :: u64
  tv_nsec :: u64

record potr_internal_packet_session_hdr =
  sh_service_id :: u64
  sh_session_tv_sec :: u64
  sh_session_id :: u32
  sh_session_tv_nsec :: u32

definition session_ts_to_hdr :: "cplat_timespec \<Rightarrow> u64 \<times> u32" where
  "session_ts_to_hdr ts = (tv_sec ts, ucast (tv_nsec ts))"

definition session_ts_from_hdr :: "u64 \<Rightarrow> u32 \<Rightarrow> cplat_timespec" where
  "session_ts_from_hdr sec nsec = \<lparr>tv_sec = sec, tv_nsec = scast nsec\<rparr>"

definition timespec_zero :: cplat_timespec where
  "timespec_zero = \<lparr>tv_sec = 0, tv_nsec = 0\<rparr>"

section \<open>The platform library\<close>

text \<open>
  Result codes and failure causes of the platform library that the sources distinguish; the
  causes that all map to an I/O error are one constructor.  An endpoint has its address and port in
  network byte order.  A connect that does not block may still be in progress.
\<close>

datatype cplat_result = CPLAT_OK | CPLAT_ERR_EOF | CPLAT_ERR_INVALID_ARGUMENT | CPLAT_ERR_OTHER

datatype cplat_cause =
    CPLAT_CAUSE_NONE | CPLAT_CAUSE_TIMEOUT | CPLAT_CAUSE_CONNECTION_REFUSED | CPLAT_CAUSE_CONNECTION_RESET
  | CPLAT_CAUSE_CONNECTION_ABORTED | CPLAT_CAUSE_NOT_CONNECTED | CPLAT_CAUSE_SHUTDOWN
  | CPLAT_CAUSE_OUT_OF_MEMORY | CPLAT_CAUSE_INVALID_ARGUMENT | CPLAT_CAUSE_UNSUPPORTED
  | CPLAT_CAUSE_ANY_OTHER

record cplat_ipv4_endpoint =
  ep_address :: u32
  ep_port :: u16

datatype connect_outcome = Connected | In_progress | Connect_failed

text \<open>
  What the sources call of \<^verbatim>\<open>cplat\<close>.  What depends on the moment (clocks, random numbers, the
  outcome of a send) is a function of a counter of the calls made so far, which the state
  carries.  An allocation succeeds or fails by its size; encryption takes the capacity of the
  output buffer, key, nonce, additional data and plaintext and returns ciphertext followed by the tag.  \<open>send_all\<close> is
  None on success and the cause otherwise; \<open>wait_writable\<close> is the answer of a wait for room in a
  send buffer that does not block; \<open>null_cause\<close> is the cause reported for a null error.  The
  socket calls are None on success and the cause otherwise; \<open>wait_connected\<close> is the wait for a connect
  in progress, None on an error.
\<close>

record cplat =
  host_little_endian :: bool
  hton16 :: "u16 \<Rightarrow> u16"
  ntoh16 :: "u16 \<Rightarrow> u16"
  hton32 :: "u32 \<Rightarrow> u32"
  ntoh32 :: "u32 \<Rightarrow> u32"
  calloc_ok :: "nat \<Rightarrow> nat \<Rightarrow> bool"
  clock_monotonic :: "nat \<Rightarrow> cplat_timespec"
  clock_monotonic_ms :: "nat \<Rightarrow> u64"
  clock_realtime :: "nat \<Rightarrow> cplat_timespec"
  random_u32 :: "nat \<Rightarrow> cplat_result \<times> u32"
  null_cause :: cplat_cause
  sendto_ok :: "nat \<Rightarrow> bool"
  send_all :: "nat \<Rightarrow> cplat_cause option"
  wait_writable :: "nat \<Rightarrow> bool"
  lock_create_ok :: "nat \<Rightarrow> bool"
  thread_create_ok :: "nat \<Rightarrow> bool"
  thread_join_ok :: "nat \<Rightarrow> bool"
  ipv4_resolve :: "string \<Rightarrow> cplat_result \<times> u32"
  ipv4_parse :: "string \<Rightarrow> cplat_result \<times> u32"
  sock_open :: "nat \<Rightarrow> cplat_cause option"
  sock_bind :: "nat \<Rightarrow> cplat_ipv4_endpoint \<Rightarrow> cplat_cause option"
  sock_listen :: "nat \<Rightarrow> cplat_cause option"
  sock_join_group :: "nat \<Rightarrow> u32 \<Rightarrow> u32 \<Rightarrow> cplat_cause option"
  sock_set_broadcast :: "nat \<Rightarrow> cplat_cause option"
  sock_connect :: "nat \<Rightarrow> cplat_ipv4_endpoint \<Rightarrow> connect_outcome"
  wait_connected :: "nat \<Rightarrow> u32 \<Rightarrow> bool option"
  pending_error_ok :: "nat \<Rightarrow> bool"
  timespec_cmp :: "cplat_timespec \<Rightarrow> cplat_timespec \<Rightarrow> int"
  timespec_diff_ms :: "cplat_timespec \<Rightarrow> cplat_timespec \<Rightarrow> int"
  timespec_add_ms :: "cplat_timespec \<Rightarrow> u64 \<Rightarrow> cplat_timespec"
  crypto_encrypt :: "nat \<Rightarrow> bytes \<Rightarrow> bytes \<Rightarrow> bytes \<Rightarrow> bytes \<Rightarrow> bytes option"
  crypto_decrypt :: "nat \<Rightarrow> bytes \<Rightarrow> bytes \<Rightarrow> bytes \<Rightarrow> bytes \<Rightarrow> bytes option"
  compress :: "nat \<Rightarrow> bytes \<Rightarrow> bytes option"
  decompress :: "nat \<Rightarrow> bytes \<Rightarrow> bytes option"

section \<open>Mapping platform failures to results\<close>

definition result_from_error :: "cplat_cause \<Rightarrow> potr_result" where
  "result_from_error c =
    (case c of
       CPLAT_CAUSE_NONE \<Rightarrow> POTR_OK
     | CPLAT_CAUSE_TIMEOUT \<Rightarrow> POTR_ERR_TIMEOUT
     | CPLAT_CAUSE_CONNECTION_REFUSED \<Rightarrow> POTR_ERR_DISCONNECTED
     | CPLAT_CAUSE_CONNECTION_RESET \<Rightarrow> POTR_ERR_DISCONNECTED
     | CPLAT_CAUSE_CONNECTION_ABORTED \<Rightarrow> POTR_ERR_DISCONNECTED
     | CPLAT_CAUSE_NOT_CONNECTED \<Rightarrow> POTR_ERR_DISCONNECTED
     | CPLAT_CAUSE_SHUTDOWN \<Rightarrow> POTR_ERR_DISCONNECTED
     | CPLAT_CAUSE_OUT_OF_MEMORY \<Rightarrow> POTR_ERR_OUT_OF_MEMORY
     | CPLAT_CAUSE_INVALID_ARGUMENT \<Rightarrow> POTR_ERR_INVALID_ARGUMENT
     | CPLAT_CAUSE_UNSUPPORTED \<Rightarrow> POTR_ERR_UNSUPPORTED
     | CPLAT_CAUSE_ANY_OTHER \<Rightarrow> POTR_ERR_IO)"

definition result_from_socket_result :: "cplat \<Rightarrow> cplat_result \<Rightarrow> cplat_cause option \<Rightarrow> potr_result" where
  "result_from_socket_result E r detail =
    (if r = CPLAT_OK then POTR_OK
     else if r = CPLAT_ERR_EOF then POTR_ERR_EOF
     else if r = CPLAT_ERR_INVALID_ARGUMENT then POTR_ERR_INVALID_ARGUMENT
     else result_from_error (case detail of Some c \<Rightarrow> c | None \<Rightarrow> null_cause E))"

section \<open>Integers in memory\<close>

text \<open>Big-endian bytes of an integer, and the image of an integer in the host's memory.\<close>

definition be16 :: "u16 \<Rightarrow> bytes" where
  "be16 v = [ucast (drop_bit 8 v), ucast v]"

definition be32 :: "u32 \<Rightarrow> bytes" where
  "be32 v = [ucast (drop_bit 24 v), ucast (drop_bit 16 v), ucast (drop_bit 8 v), ucast v]"

definition be64 :: "u64 \<Rightarrow> bytes" where
  "be64 v = be32 (ucast (drop_bit 32 v)) @ be32 (ucast v)"

definition mem16 :: "cplat \<Rightarrow> u16 \<Rightarrow> bytes" where
  "mem16 E v = (if host_little_endian E then rev (be16 v) else be16 v)"

definition mem32 :: "cplat \<Rightarrow> u32 \<Rightarrow> bytes" where
  "mem32 E v = (if host_little_endian E then rev (be32 v) else be32 v)"

definition mem64 :: "cplat \<Rightarrow> u64 \<Rightarrow> bytes" where
  "mem64 E v = (if host_little_endian E then rev (be64 v) else be64 v)"

definition of_be16 :: "bytes \<Rightarrow> u16" where
  "of_be16 b = push_bit 8 (ucast (b ! 0)) OR ucast (b ! 1)"

definition of_be32 :: "bytes \<Rightarrow> u32" where
  "of_be32 b = push_bit 24 (ucast (b ! 0)) OR push_bit 16 (ucast (b ! 1))
             OR push_bit 8 (ucast (b ! 2)) OR ucast (b ! 3)"

definition of_be64 :: "bytes \<Rightarrow> u64" where
  "of_be64 b = push_bit 32 (ucast (of_be32 (take 4 b))) OR ucast (of_be32 (drop 4 b))"

definition load16 :: "cplat \<Rightarrow> bytes \<Rightarrow> nat \<Rightarrow> u16" where
  "load16 E b off = of_be16 (let x = mem_read b off 2 in if host_little_endian E then rev x else x)"

definition load32 :: "cplat \<Rightarrow> bytes \<Rightarrow> nat \<Rightarrow> u32" where
  "load32 E b off = of_be32 (let x = mem_read b off 4 in if host_little_endian E then rev x else x)"

definition load64 :: "cplat \<Rightarrow> bytes \<Rightarrow> nat \<Rightarrow> u64" where
  "load64 E b off = of_be64 (let x = mem_read b off 8 in if host_little_endian E then rev x else x)"

section \<open>What the sources rely on\<close>

text \<open>
  \<open>byteorder_ok\<close>: the conversions put an integer's bytes into network order in memory
  and back.  \<open>timespec_ok\<close>: the comparison orders by seconds, then nanoseconds, both
  signed.  \<open>crypto_ok\<close>: decryption under the same key, nonce and additional data
  recovers the plaintext, and the ciphertext is longer than it by the tag.
  \<open>compress_ok\<close>: expansion recovers what was compressed when it fits.
\<close>

definition byteorder_ok :: "cplat \<Rightarrow> bool" where
  "byteorder_ok E \<longleftrightarrow>
     (\<forall>v. mem16 E (hton16 E v) = be16 v) \<and> (\<forall>v. mem32 E (hton32 E v) = be32 v) \<and>
     (\<forall>v. ntoh16 E (hton16 E v) = v) \<and> (\<forall>v. ntoh32 E (hton32 E v) = v)"

definition timespec_ok :: "cplat \<Rightarrow> bool" where
  "timespec_ok E \<longleftrightarrow> (\<forall>a b.
     (timespec_cmp E a b < 0) = (sint (tv_sec a) < sint (tv_sec b) \<or>
        tv_sec a = tv_sec b \<and> sint (tv_nsec a) < sint (tv_nsec b)) \<and>
     (timespec_cmp E a b = 0) = (tv_sec a = tv_sec b \<and> tv_nsec a = tv_nsec b))"

definition crypto_ok :: "cplat \<Rightarrow> bool" where
  "crypto_ok E \<longleftrightarrow> (\<forall>cap key nonce aad pt ct. crypto_encrypt E cap key nonce aad pt = Some ct \<longrightarrow>
     length ct = length pt + POTR_CRYPTO_TAG_SIZE \<and>
     (\<forall>cap'. length pt \<le> cap' \<longrightarrow> crypto_decrypt E cap' key nonce aad ct = Some pt))"

definition compress_ok :: "cplat \<Rightarrow> bool" where
  "compress_ok E \<longleftrightarrow> (\<forall>cap cap' pt ct. compress E cap pt = Some ct \<longrightarrow> length pt \<le> cap' \<longrightarrow>
     decompress E cap' ct = Some pt)"

lemma length_be [simp]:
  "length (be16 v) = 2" "length (be32 w) = 4" "length (be64 x) = 8"
  by (simp_all add: be16_def be32_def be64_def)

lemma length_mem [simp]:
  "length (mem16 E v) = 2" "length (mem32 E w) = 4" "length (mem64 E x) = 8"
  by (simp_all add: mem16_def mem32_def mem64_def)

lemma of_be16_be16 [simp]: "of_be16 (be16 v) = v"
  by (rule bit_word_eqI) (auto simp: of_be16_def be16_def bit_simps)

lemma of_be32_be32 [simp]: "of_be32 (be32 v) = v"
proof (rule bit_word_eqI)
  fix n assume "n < LENGTH(32)"
  then have "n < 8 \<or> 8 \<le> n \<and> n < 16 \<or> 16 \<le> n \<and> n < 24 \<or> 24 \<le> n \<and> n < 32" by auto
  then show "bit (of_be32 (be32 v)) n = bit v n"
    by (elim disjE) (auto simp: of_be32_def be32_def bit_simps)
qed

lemma of_be64_be64 [simp]: "of_be64 (be64 v) = v"
  by (rule bit_word_eqI) (auto simp: of_be64_def be64_def bit_simps)

lemma load_mem [mem_simps]:
  "load16 E (a @ mem16 E v @ z) (length a) = v"
  "load32 E (a @ mem32 E w @ z) (length a) = w"
  "load64 E (a @ mem64 E x @ z) (length a) = x"
  by (simp_all add: load16_def load32_def load64_def mem_read_def)
    (simp_all add: mem16_def mem32_def mem64_def)

lemma be16_of_be16: "be16 (of_be16 [a, b]) = [a, b]"
proof -
  have "(ucast (drop_bit 8 (of_be16 [a, b])) :: u8) = a" "(ucast (of_be16 [a, b]) :: u8) = b"
    by (rule bit_word_eqI; auto simp: of_be16_def bit_simps dest: bit_imp_le_length)+
  then show ?thesis by (simp add: be16_def)
qed

lemma be32_of_be32: "be32 (of_be32 [a, b, c, d]) = [a, b, c, d]"
proof -
  have "(ucast (drop_bit 24 (of_be32 [a, b, c, d])) :: u8) = a"
    "(ucast (drop_bit 16 (of_be32 [a, b, c, d])) :: u8) = b"
    "(ucast (drop_bit 8 (of_be32 [a, b, c, d])) :: u8) = c"
    "(ucast (of_be32 [a, b, c, d]) :: u8) = d"
    by (rule bit_word_eqI; auto simp: of_be32_def bit_simps dest: bit_imp_le_length)+
  then show ?thesis by (simp add: be32_def)
qed

section \<open>A concrete platform\<close>

text \<open>
  A little-endian host with byte-swapping conversions, a clock that ticks once per reading,
  an allocator and sockets that never fail, a cipher that appends a constant tag and a compressor that
  copies.  It shows that the hypotheses above can hold together and is what the examples
  evaluate on.
\<close>

definition swap16 :: "u16 \<Rightarrow> u16" where
  "swap16 v = of_be16 (rev (be16 v))"

definition swap32 :: "u32 \<Rightarrow> u32" where
  "swap32 v = of_be32 (rev (be32 v))"

definition demo_tag :: bytes where
  "demo_tag = replicate POTR_CRYPTO_TAG_SIZE 0x5A"

definition demo_cplat :: cplat where
  "demo_cplat = \<lparr>host_little_endian = True, hton16 = swap16, ntoh16 = swap16, hton32 = swap32, ntoh32 = swap32,
     calloc_ok = (\<lambda>_ _. True),
     clock_monotonic = (\<lambda>n. \<lparr>tv_sec = of_nat n + 1, tv_nsec = 0\<rparr>),
     clock_monotonic_ms = (\<lambda>n. of_nat (1000 * n + 1000)),
     clock_realtime = (\<lambda>n. \<lparr>tv_sec = of_nat n + 1, tv_nsec = 0\<rparr>),
     random_u32 = (\<lambda>n. (CPLAT_OK, of_nat n + 1)),
     null_cause = CPLAT_CAUSE_ANY_OTHER,
     sendto_ok = (\<lambda>_. True),
     send_all = (\<lambda>_. None),
     wait_writable = (\<lambda>_. True), lock_create_ok = (\<lambda>_. True),
     thread_create_ok = (\<lambda>_. True), thread_join_ok = (\<lambda>_. True),
     ipv4_resolve = (\<lambda>a. if a = [] then (CPLAT_ERR_INVALID_ARGUMENT, 0) else (CPLAT_OK, of_nat (length a))),
     ipv4_parse = (\<lambda>a. if a = [] then (CPLAT_ERR_INVALID_ARGUMENT, 0) else (CPLAT_OK, of_nat (length a))),
     sock_open = (\<lambda>_. None), sock_bind = (\<lambda>_ _. None), sock_listen = (\<lambda>_. None),
     sock_join_group = (\<lambda>_ _ _. None), sock_set_broadcast = (\<lambda>_. None),
     sock_connect = (\<lambda>_ _. Connected), wait_connected = (\<lambda>_ _. Some True), pending_error_ok = (\<lambda>_. True),
     timespec_cmp = (\<lambda>a b. if sint (tv_sec a) < sint (tv_sec b) then - 1
        else if sint (tv_sec b) < sint (tv_sec a) then 1
        else if sint (tv_nsec a) < sint (tv_nsec b) then - 1
        else if sint (tv_nsec b) < sint (tv_nsec a) then 1 else 0),
     timespec_diff_ms = (\<lambda>a b. (sint (tv_sec a) - sint (tv_sec b)) * 1000
        + (sint (tv_nsec a) - sint (tv_nsec b)) div 1000000),
     timespec_add_ms = (\<lambda>t ms. let n = tv_nsec t + (ms mod 1000) * 1000000
        in \<lparr>tv_sec = tv_sec t + ms div 1000 + n div 1000000000, tv_nsec = n mod 1000000000\<rparr>),
     crypto_encrypt = (\<lambda>cap _ _ _ pt. if cap < length pt + POTR_CRYPTO_TAG_SIZE then None else Some (pt @ demo_tag)),
     crypto_decrypt = (\<lambda>cap _ _ _ ct. if length ct < POTR_CRYPTO_TAG_SIZE \<or> cap < length ct - POTR_CRYPTO_TAG_SIZE
        \<or> drop (length ct - POTR_CRYPTO_TAG_SIZE) ct \<noteq> demo_tag then None
        else Some (take (length ct - POTR_CRYPTO_TAG_SIZE) ct)),
     compress = (\<lambda>cap pt. if length pt \<le> cap then Some pt else None),
     decompress = (\<lambda>cap ct. if length ct \<le> cap then Some ct else None)\<rparr>"

lemma be_swap:
  "be16 (swap16 v) = rev (be16 v)" "be32 (swap32 w) = rev (be32 w)"
  by (simp_all add: swap16_def swap32_def be16_def[of v] be32_def[of w] be16_of_be16 be32_of_be32)

lemma swap_swap: "swap16 (swap16 v) = v" "swap32 (swap32 w) = w"
  by (simp_all add: swap16_def[of "swap16 v"] swap32_def[of "swap32 w"] be_swap)

lemma demo_byteorder [simp]: "byteorder_ok demo_cplat"
  by (simp add: byteorder_ok_def demo_cplat_def mem16_def mem32_def be_swap swap_swap)

lemma demo_timespec [simp]: "timespec_ok demo_cplat"
  by (auto simp: timespec_ok_def demo_cplat_def intro: signed_word_eqI)

lemma demo_crypto [simp]: "crypto_ok demo_cplat"
  by (auto simp: crypto_ok_def demo_cplat_def demo_tag_def split: if_splits)

lemma demo_compress [simp]: "compress_ok demo_cplat"
  by (auto simp: compress_ok_def demo_cplat_def split: if_splits)

end
