(* ===== verification/Packet.thy ===== *)
theory Packet
  imports Porter_Types
begin

text \<open>
  Building and parsing packets (\<^verbatim>\<open>protocol/packet.c\<close>).  A built packet holds its integers in
  network byte order; its wire form is the image of the structure's first 40 bytes in
  memory followed by the payload.  A data packet's payload is a sequence of elements, each
  with a six-byte header, which \<open>packet_unpack_next\<close> walks.
\<close>

unbundle bit_operations_syntax

section \<open>Definitions\<close>

definition hton64 :: "cplat \<Rightarrow> u64 \<Rightarrow> u64" where
  "hton64 E v =
    (let hi = hton32 E (ucast (drop_bit 32 v));
         lo = hton32 E (ucast (v AND 0xFFFFFFFF))
     in push_bit 32 (ucast lo) OR ucast hi)"

definition ntoh64 :: "cplat \<Rightarrow> u64 \<Rightarrow> u64" where
  "ntoh64 E v = hton64 E v"

definition zero_packet :: potr_packet where
  "zero_packet = \<lparr>service_id = 0, session_tv_sec = 0, session_id = 0, session_tv_nsec = 0,
     seq_num = 0, ack_num = 0, flags = 0, payload_len = 0, protocol_version = 0, payload = []\<rparr>"

definition fill_session_hdr ::
  "cplat \<Rightarrow> potr_packet \<Rightarrow> potr_internal_packet_session_hdr \<Rightarrow> potr_packet" where
  "fill_session_hdr E p sh =
    p\<lparr>service_id := hton64 E (sh_service_id sh),
      session_tv_sec := hton64 E (sh_session_tv_sec sh),
      session_id := hton32 E (sh_session_id sh),
      session_tv_nsec := hton32 E (sh_session_tv_nsec sh),
      protocol_version := hton32 E POTR_PROTOCOL_VERSION\<rparr>"

definition packet_build_nack ::
  "cplat \<Rightarrow> potr_internal_packet_session_hdr \<Rightarrow> u32 \<Rightarrow> potr_packet" where
  "packet_build_nack E sh nack_num =
    (fill_session_hdr E zero_packet sh)
      \<lparr>seq_num := 0, ack_num := hton32 E nack_num, flags := hton16 E POTR_FLAG_NACK, payload_len := 0\<rparr>"

definition packet_build_ping ::
  "cplat \<Rightarrow> potr_internal_packet_session_hdr \<Rightarrow> u32 \<Rightarrow> bytes option \<Rightarrow> u16 \<Rightarrow> potr_packet" where
  "packet_build_ping E sh seq health_payload health_payload_len =
    (let p = (fill_session_hdr E zero_packet sh)
               \<lparr>seq_num := hton32 E seq, ack_num := 0, flags := hton16 E POTR_FLAG_PING\<rparr>
     in case health_payload of
          Some b \<Rightarrow> p\<lparr>payload := b, payload_len := hton16 E health_payload_len\<rparr>
        | None \<Rightarrow> p\<lparr>payload := [], payload_len := 0\<rparr>)"

definition packet_build_reject ::
  "cplat \<Rightarrow> potr_internal_packet_session_hdr \<Rightarrow> u32 \<Rightarrow> potr_packet" where
  "packet_build_reject E sh seq =
    (fill_session_hdr E zero_packet sh)
      \<lparr>seq_num := 0, ack_num := hton32 E seq, flags := hton16 E POTR_FLAG_REJECT, payload_len := 0\<rparr>"

definition packet_build_fin :: "cplat \<Rightarrow> potr_internal_packet_session_hdr \<Rightarrow> potr_packet" where
  "packet_build_fin E sh =
    (fill_session_hdr E zero_packet sh)
      \<lparr>seq_num := 0, ack_num := 0, flags := hton16 E POTR_FLAG_FIN, payload_len := 0\<rparr>"

definition packet_build_fin_ack ::
  "cplat \<Rightarrow> potr_internal_packet_session_hdr \<Rightarrow> u32 \<Rightarrow> potr_packet" where
  "packet_build_fin_ack E sh fin_target_seq =
    (fill_session_hdr E zero_packet sh)
      \<lparr>seq_num := 0, ack_num := hton32 E fin_target_seq, flags := hton16 E POTR_FLAG_FIN_ACK, payload_len := 0\<rparr>"

definition packet_build_packed ::
  "cplat \<Rightarrow> potr_internal_packet_session_hdr \<Rightarrow> u32 \<Rightarrow> bytes \<Rightarrow> nat \<Rightarrow> potr_result + potr_packet" where
  "packet_build_packed E sh seq packed_payload n =
    (if n = 0 \<or> n > POTR_MAX_PAYLOAD then Inl POTR_ERR_INVALID_ARGUMENT
     else Inr ((fill_session_hdr E zero_packet sh)
       \<lparr>seq_num := hton32 E seq, ack_num := 0, flags := hton16 E POTR_FLAG_DATA,
        payload_len := hton16 E (of_nat n), payload := packed_payload\<rparr>))"

definition packet_unpack_next ::
  "cplat \<Rightarrow> potr_packet \<Rightarrow> nat \<Rightarrow> potr_result + potr_packet \<times> nat" where
  "packet_unpack_next E container offset =
    (if offset + POTR_PAYLOAD_ELEM_HDR_SIZE > unat (payload_len container) then Inl POTR_ERR_EOF
     else
       (let flags_nbo = load16 E (payload container) offset;
            plen = unat (ntoh32 E (load32 E (payload container) (offset + 2)))
        in if offset + POTR_PAYLOAD_ELEM_HDR_SIZE + plen > unat (payload_len container) \<or> plen > POTR_MAX_PAYLOAD
           then Inl POTR_ERR_PROTOCOL
           else Inr (zero_packet\<lparr>service_id := service_id container, session_id := session_id container,
                       session_tv_sec := session_tv_sec container, session_tv_nsec := session_tv_nsec container,
                       protocol_version := protocol_version container, ack_num := 0,
                       flags := ntoh16 E flags_nbo, payload_len := of_nat plen,
                       payload := mem_read (payload container) (offset + POTR_PAYLOAD_ELEM_HDR_SIZE) plen\<rparr>,
                     offset + (POTR_PAYLOAD_ELEM_HDR_SIZE + plen))))"

definition packet_parse :: "cplat \<Rightarrow> bytes \<Rightarrow> potr_result + potr_packet" where
  "packet_parse E buf =
    (if length buf < POTR_PACKET_HEADER_SIZE then Inl POTR_ERR_PROTOCOL
     else
       (let p = \<lparr>service_id = ntoh64 E (load64 E buf 0),
                 session_tv_sec = ntoh64 E (load64 E buf 8),
                 session_id = ntoh32 E (load32 E buf 16),
                 session_tv_nsec = ntoh32 E (load32 E buf 20),
                 seq_num = ntoh32 E (load32 E buf 24),
                 ack_num = ntoh32 E (load32 E buf 28),
                 flags = ntoh16 E (load16 E buf 32),
                 payload_len = ntoh16 E (load16 E buf 34),
                 protocol_version = ntoh32 E (load32 E buf 36),
                 payload = []\<rparr>
        in if protocol_version p \<noteq> POTR_PROTOCOL_VERSION \<or> unat (payload_len p) > POTR_MAX_PAYLOAD
              \<or> unat (payload_len p) + POTR_PACKET_HEADER_SIZE > length buf
           then Inl POTR_ERR_PROTOCOL
           else Inr (p\<lparr>payload := mem_read buf POTR_PACKET_HEADER_SIZE (unat (payload_len p))\<rparr>)))"

definition packet_wire_size :: "cplat \<Rightarrow> potr_packet \<Rightarrow> nat" where
  "packet_wire_size E p = POTR_PACKET_HEADER_SIZE + unat (ntoh16 E (payload_len p))"

text \<open>
  The first \<^verbatim>\<open>POTR_PACKET_HEADER_SIZE\<close> bytes of the structure in memory, in the order of the
  wire table of \<^verbatim>\<open>porter_type.h\<close>, which senders copy in front of the payload.
\<close>

definition packet_header_bytes :: "cplat \<Rightarrow> potr_packet \<Rightarrow> bytes" where
  "packet_header_bytes E p =
    mem64 E (service_id p) @ mem64 E (session_tv_sec p) @ mem32 E (session_id p) @ mem32 E (session_tv_nsec p)
    @ mem32 E (seq_num p) @ mem32 E (ack_num p) @ mem16 E (flags p) @ mem16 E (payload_len p)
    @ mem32 E (protocol_version p)"

definition packet_wire :: "cplat \<Rightarrow> potr_packet \<Rightarrow> bytes" where
  "packet_wire E p = packet_header_bytes E p @ payload p"

text \<open>The packet in host byte order that the receiver of a wire image should obtain.\<close>

definition packet_to_host :: "cplat \<Rightarrow> potr_packet \<Rightarrow> potr_packet" where
  "packet_to_host E p =
    p\<lparr>service_id := ntoh64 E (service_id p), session_tv_sec := ntoh64 E (session_tv_sec p),
      session_id := ntoh32 E (session_id p), session_tv_nsec := ntoh32 E (session_tv_nsec p),
      seq_num := ntoh32 E (seq_num p), ack_num := ntoh32 E (ack_num p), flags := ntoh16 E (flags p),
      payload_len := ntoh16 E (payload_len p), protocol_version := ntoh32 E (protocol_version p)\<rparr>"

text \<open>All elements of a container, as the receive loops collect them: until the first error.\<close>

function unpack_all :: "cplat \<Rightarrow> potr_packet \<Rightarrow> nat \<Rightarrow> potr_packet list" where
  "unpack_all E container offset =
    (case packet_unpack_next E container offset of
       Inl _ \<Rightarrow> []
     | Inr (e, offset') \<Rightarrow> e # unpack_all E container offset')"
  by pat_completeness auto
termination
  by (relation "measure (\<lambda>(E, c, offset). unat (payload_len c) - offset)")
    (auto simp: packet_unpack_next_def Let_def split: if_splits)

declare unpack_all.simps [simp del]

section \<open>Byte order\<close>

lemma hton_cases:
  assumes "byteorder_ok E"
  shows "hton32 E v = (if host_little_endian E then swap32 v else v)"
    "hton16 E w = (if host_little_endian E then swap16 w else w)"
proof -
  from assms have m: "mem32 E (hton32 E v) = be32 v" "mem16 E (hton16 E w) = be16 w"
    by (simp_all add: byteorder_ok_def)
  have "be32 (hton32 E v) = (if host_little_endian E then rev (be32 v) else be32 v)"
    using m(1) by (simp add: mem32_def rev_swap split: if_splits)
  from arg_cong[OF this, of of_be32] show "hton32 E v = (if host_little_endian E then swap32 v else v)"
    by (auto simp: swap32_def)
  have "be16 (hton16 E w) = (if host_little_endian E then rev (be16 w) else be16 w)"
    using m(2) by (simp add: mem16_def rev_swap split: if_splits)
  from arg_cong[OF this, of of_be16] show "hton16 E w = (if host_little_endian E then swap16 w else w)"
    by (auto simp: swap16_def)
qed

lemma ntoh_hton [simp]:
  assumes "byteorder_ok E"
  shows "ntoh32 E (hton32 E v) = v" "ntoh16 E (hton16 E w) = w"
  using assms by (simp_all add: byteorder_ok_def)

lemma ntoh_zero: "byteorder_ok E \<Longrightarrow> ntoh32 E 0 = 0" "byteorder_ok E \<Longrightarrow> ntoh16 E 0 = 0"
proof -
  have z: "swap32 0 = 0" "swap16 0 = 0" by code_simp+
  show "byteorder_ok E \<Longrightarrow> ntoh32 E 0 = 0" using ntoh_hton(1)[of E 0] hton_cases(1)[of E 0] z by (auto split: if_splits)
  show "byteorder_ok E \<Longrightarrow> ntoh16 E 0 = 0" using ntoh_hton(2)[of E 0] hton_cases(2)[of E 0] z by (auto split: if_splits)
qed

lemma hton32_hton32: "byteorder_ok E \<Longrightarrow> hton32 E (hton32 E v) = v"
  by (simp add: hton_cases swap_swap)

text \<open>The two words of a 64-bit value, and a value from its words.\<close>

definition hi32 :: "u64 \<Rightarrow> u32" where "hi32 v = ucast (drop_bit 32 v)"
definition lo32 :: "u64 \<Rightarrow> u32" where "lo32 v = ucast v"
definition join32 :: "u32 \<Rightarrow> u32 \<Rightarrow> u64" where "join32 hi lo = push_bit 32 (ucast hi) OR ucast lo"

lemma join32_words [simp]: "hi32 (join32 a b) = a" "lo32 (join32 a b) = b" "join32 (hi32 v) (lo32 v) = v"
  unfolding hi32_def lo32_def join32_def
  by (rule bit_word_eqI; auto simp: bit_simps dest: bit_imp_le_length)+

lemma hton64_words: "hton64 E v = join32 (hton32 E (lo32 v)) (hton32 E (hi32 v))"
proof -
  have m: "(0xFFFFFFFF :: u64) = mask 32" by (simp add: mask_eq_exp_minus_1)
  have "(ucast (v AND 0xFFFFFFFF) :: u32) = ucast v"
    unfolding m by (rule bit_word_eqI; auto simp: bit_simps)
  then show ?thesis by (simp add: hton64_def join32_def hi32_def lo32_def Let_def)
qed

lemma be64_words: "be64 v = be32 (hi32 v) @ be32 (lo32 v)"
  by (simp add: be64_def hi32_def lo32_def)

lemma ntoh64_hton64 [simp]: "byteorder_ok E \<Longrightarrow> ntoh64 E (hton64 E v) = v"
  by (simp add: ntoh64_def hton64_words hton32_hton32)

text \<open>
  The 64-bit conversion swaps the two words whatever the host.  That is network order on a
  little-endian host; on a big-endian one the two halves are sent in the wrong order.
\<close>

lemma hton64_wire:
  "byteorder_ok E \<Longrightarrow> mem64 E (hton64 E v) =
    (if host_little_endian E then be64 v else be32 (lo32 v) @ be32 (hi32 v))"
  by (simp add: mem64_def be64_words hton64_words hton_cases be_swap)

section \<open>Parsing the wire image\<close>

lemma length_header [simp]: "length (packet_header_bytes E p) = POTR_PACKET_HEADER_SIZE"
  by (simp add: packet_header_bytes_def)

lemma load_header:
  "load64 E (packet_header_bytes E p @ z) 0 = service_id p"
  "load64 E (packet_header_bytes E p @ z) 8 = session_tv_sec p"
  "load32 E (packet_header_bytes E p @ z) 16 = session_id p"
  "load32 E (packet_header_bytes E p @ z) 20 = session_tv_nsec p"
  "load32 E (packet_header_bytes E p @ z) 24 = seq_num p"
  "load32 E (packet_header_bytes E p @ z) 28 = ack_num p"
  "load16 E (packet_header_bytes E p @ z) 32 = flags p"
  "load16 E (packet_header_bytes E p @ z) 34 = payload_len p"
  "load32 E (packet_header_bytes E p @ z) 36 = protocol_version p"
  unfolding packet_header_bytes_def append_assoc
  using load_mem(3)[of E "[]" "service_id p"]
    load_mem(3)[of E "mem64 E (service_id p)"]
    load_mem(2)[of E "mem64 E (service_id p) @ mem64 E (session_tv_sec p)"]
    load_mem(2)[of E "mem64 E (service_id p) @ mem64 E (session_tv_sec p) @ mem32 E (session_id p)"]
    load_mem(2)[of E "mem64 E (service_id p) @ mem64 E (session_tv_sec p) @ mem32 E (session_id p)
       @ mem32 E (session_tv_nsec p)"]
    load_mem(2)[of E "mem64 E (service_id p) @ mem64 E (session_tv_sec p) @ mem32 E (session_id p)
       @ mem32 E (session_tv_nsec p) @ mem32 E (seq_num p)"]
    load_mem(1)[of E "mem64 E (service_id p) @ mem64 E (session_tv_sec p) @ mem32 E (session_id p)
       @ mem32 E (session_tv_nsec p) @ mem32 E (seq_num p) @ mem32 E (ack_num p)"]
    load_mem(1)[of E "mem64 E (service_id p) @ mem64 E (session_tv_sec p) @ mem32 E (session_id p)
       @ mem32 E (session_tv_nsec p) @ mem32 E (seq_num p) @ mem32 E (ack_num p) @ mem16 E (flags p)"]
    load_mem(2)[of E "mem64 E (service_id p) @ mem64 E (session_tv_sec p) @ mem32 E (session_id p)
       @ mem32 E (session_tv_nsec p) @ mem32 E (seq_num p) @ mem32 E (ack_num p) @ mem16 E (flags p)
       @ mem16 E (payload_len p)"]
  by simp_all

lemma parse_wire:
  assumes "ntoh32 E (protocol_version p) = POTR_PROTOCOL_VERSION"
    "length (payload p) = unat (ntoh16 E (payload_len p))" "length (payload p) \<le> POTR_MAX_PAYLOAD"
  shows "packet_parse E (packet_wire E p @ extra) = Inr (packet_to_host E p)"
  using assms
  by (simp add: packet_parse_def packet_wire_def load_header Let_def packet_to_host_def mem_read_def)

text \<open>The host-order packet a session's peer should see.\<close>

definition host_packet ::
  "potr_internal_packet_session_hdr \<Rightarrow> u32 \<Rightarrow> u32 \<Rightarrow> u16 \<Rightarrow> bytes \<Rightarrow> potr_packet" where
  "host_packet sh seq ack fl pl =
    \<lparr>service_id = sh_service_id sh, session_tv_sec = sh_session_tv_sec sh, session_id = sh_session_id sh,
     session_tv_nsec = sh_session_tv_nsec sh, seq_num = seq, ack_num = ack, flags = fl,
     payload_len = of_nat (length pl), protocol_version = POTR_PROTOCOL_VERSION, payload = pl\<rparr>"

lemma unat_of_nat_u16: "n < 65536 \<Longrightarrow> unat (of_nat n :: u16) = n"
  by (simp add: unsigned_of_nat take_bit_nat_eq_self)

lemma parse_wire_host:
  assumes "byteorder_ok E" "length pl \<le> POTR_MAX_PAYLOAD"
    "p = (fill_session_hdr E zero_packet sh)\<lparr>seq_num := hton32 E seq, ack_num := hton32 E ack,
       flags := hton16 E fl, payload_len := hton16 E (of_nat (length pl)), payload := pl\<rparr>"
  shows "packet_parse E (packet_wire E p @ extra) = Inr (host_packet sh seq ack fl pl)"
proof -
  have "packet_parse E (packet_wire E p @ extra) = Inr (packet_to_host E p)"
    by (rule parse_wire) (use assms in \<open>auto simp: fill_session_hdr_def unat_of_nat_u16\<close>)
  also have "packet_to_host E p = host_packet sh seq ack fl pl"
    using assms(1) by (simp add: assms(3) packet_to_host_def host_packet_def fill_session_hdr_def)
  finally show ?thesis .
qed

lemma hton_zero: "byteorder_ok E \<Longrightarrow> hton32 E 0 = 0" "byteorder_ok E \<Longrightarrow> hton16 E 0 = 0"
  by (metis ntoh_zero(1) ntoh_hton(1) hton32_hton32, metis ntoh_zero(2) ntoh_hton(2) hton_cases(2) swap_swap(1))

lemmas build_defs = packet_build_nack_def packet_build_ping_def packet_build_reject_def
  packet_build_fin_def packet_build_fin_ack_def packet_build_packed_def

section \<open>Walking a container\<close>

definition elem_bytes :: "cplat \<Rightarrow> u16 \<Rightarrow> bytes \<Rightarrow> bytes" where
  "elem_bytes E fl d = mem16 E (hton16 E fl) @ mem32 E (hton32 E (of_nat (length d))) @ d"

text \<open>The element as \<open>packet_unpack_next\<close> presents it.\<close>

definition elem_of :: "potr_packet \<Rightarrow> u16 \<Rightarrow> bytes \<Rightarrow> potr_packet" where
  "elem_of c fl d = zero_packet\<lparr>service_id := service_id c, session_id := session_id c,
     session_tv_sec := session_tv_sec c, session_tv_nsec := session_tv_nsec c,
     protocol_version := protocol_version c, flags := fl, payload_len := of_nat (length d), payload := d\<rparr>"

lemma length_elem_bytes [simp]: "length (elem_bytes E fl d) = POTR_PAYLOAD_ELEM_HDR_SIZE + length d"
  by (simp add: elem_bytes_def)

lemma unpack_next_elem:
  assumes "byteorder_ok E" "payload c = pre @ elem_bytes E fl d @ post" "unat (payload_len c) = length (payload c)"
    "length (payload c) \<le> POTR_MAX_PAYLOAD"
  shows "packet_unpack_next E c (length pre) = Inr (elem_of c fl d, length pre + (POTR_PAYLOAD_ELEM_HDR_SIZE + length d))"
proof -
  have d: "length d \<le> POTR_MAX_PAYLOAD" "length pre + POTR_PAYLOAD_ELEM_HDR_SIZE + length d \<le> unat (payload_len c)"
    using assms(2-4) by simp_all
  have 1: "load16 E (payload c) (length pre) = hton16 E fl"
    using load_mem(1)[of E pre] by (simp add: assms(2) elem_bytes_def)
  have 2: "load32 E (payload c) (length pre + 2) = hton32 E (of_nat (length d))"
    using load_mem(2)[of E "pre @ mem16 E (hton16 E fl)"] by (simp add: assms(2) elem_bytes_def)
  have 3: "mem_read (payload c) (length pre + POTR_PAYLOAD_ELEM_HDR_SIZE) (length d) = d"
    by (simp add: mem_read_def assms(2) elem_bytes_def)
  show ?thesis using assms(1) d 1 2 3
    by (simp add: packet_unpack_next_def unat_of_nat_u32 elem_of_def zero_packet_def Let_def)
qed

lemma unpack_all_elems:
  assumes "byteorder_ok E" "payload c = pre @ concat (map (\<lambda>(fl, d). elem_bytes E fl d) es)"
    "unat (payload_len c) = length (payload c)" "length (payload c) \<le> POTR_MAX_PAYLOAD"
  shows "unpack_all E c (length pre) = map (\<lambda>(fl, d). elem_of c fl d) es"
  using assms(2)
proof (induction es arbitrary: pre)
  case Nil
  then show ?case using assms(3) by (simp add: unpack_all.simps packet_unpack_next_def)
next
  case (Cons e es)
  obtain fl d where e: "e = (fl, d)" by (cases e)
  have "packet_unpack_next E c (length pre) = Inr (elem_of c fl d, length (pre @ elem_bytes E fl d))"
    using unpack_next_elem[OF assms(1) _ assms(3,4), of pre fl d] Cons.prems e by simp
  moreover have "unpack_all E c (length (pre @ elem_bytes E fl d)) = map (\<lambda>(fl, d). elem_of c fl d) es"
    by (rule Cons.IH) (use Cons.prems e in simp)
  ultimately show ?case by (subst unpack_all.simps) (simp add: e)
qed

section \<open>Properties\<close>

text \<open>
  C20: A data packet survives the wire: on any host whose byte-order functions do their job,
  a packed payload of 1 to 65507 bytes is accepted by the builder, and parsing the wire
  image (whatever follows it in the receive buffer) yields the session fields, the sequence
  number, the DATA flag and exactly the payload bytes.  Other lengths are refused.
\<close>

theorem data_packet_roundtrip:
  assumes "byteorder_ok E"
  shows "(case packet_build_packed E sh seq pl (length pl) of
      Inl e \<Rightarrow> e = POTR_ERR_INVALID_ARGUMENT \<and> (pl = [] \<or> length pl > POTR_MAX_PAYLOAD)
    | Inr p \<Rightarrow> packet_parse E (packet_wire E p @ extra) = Inr (host_packet sh seq 0 POTR_FLAG_DATA pl))"
  using assms parse_wire_host[OF assms, where pl = pl and sh = sh and seq = seq and ack = 0 and fl = POTR_FLAG_DATA]
  by (auto simp: packet_build_packed_def hton_zero)

text \<open>
  C21: Each control packet survives the wire with its kind and its number: NACK, REJECT and
  FIN_ACK carry theirs in the acknowledgement field, PING its own in the sequence field
  together with the path states, and FIN carries none.
\<close>

theorem control_packet_roundtrip:
  assumes "byteorder_ok E"
  shows "packet_parse E (packet_wire E (packet_build_nack E sh n)) = Inr (host_packet sh 0 n POTR_FLAG_NACK []) \<and>
    packet_parse E (packet_wire E (packet_build_reject E sh n)) = Inr (host_packet sh 0 n POTR_FLAG_REJECT []) \<and>
    packet_parse E (packet_wire E (packet_build_fin E sh)) = Inr (host_packet sh 0 0 POTR_FLAG_FIN []) \<and>
    packet_parse E (packet_wire E (packet_build_fin_ack E sh n)) = Inr (host_packet sh 0 n POTR_FLAG_FIN_ACK []) \<and>
    packet_parse E (packet_wire E (packet_build_ping E sh n None 0)) = Inr (host_packet sh n 0 POTR_FLAG_PING []) \<and>
    packet_parse E (packet_wire E (packet_build_ping E sh n (Some [a, b, c, d]) 4)) =
      Inr (host_packet sh n 0 POTR_FLAG_PING [a, b, c, d])"
proof -
  note r = parse_wire_host[OF assms, where extra = "[]", simplified]
  have pl: "(fill_session_hdr E zero_packet sh)\<lparr>payload := []\<rparr> = fill_session_hdr E zero_packet sh"
    by (simp add: fill_session_hdr_def zero_packet_def)
  show ?thesis
    using r[where pl = "[]" and sh = sh and seq = 0 and ack = n and fl = POTR_FLAG_NACK] r[where pl = "[]" and sh = sh and seq = 0 and ack = n and fl = POTR_FLAG_REJECT] r[where pl = "[]" and sh = sh and seq = 0 and ack = 0 and fl = POTR_FLAG_FIN]
      r[where pl = "[]" and sh = sh and seq = 0 and ack = n and fl = POTR_FLAG_FIN_ACK] r[where pl = "[]" and sh = sh and seq = n and ack = 0 and fl = POTR_FLAG_PING]
      r[where pl = "[a, b, c, d]" and sh = sh and seq = n and ack = 0 and fl = POTR_FLAG_PING]
    by (simp add: build_defs hton_zero[OF assms] fill_session_hdr_def zero_packet_def Let_def)
qed

text \<open>
  C23: What the parser accepts lies inside the buffer: at least a header, the protocol
  version, and a payload of the announced length, at most 65507, taken from the bytes right
  after the header.  A receive buffer of header plus \<^verbatim>\<open>max_payload\<close> bytes therefore bounds the
  payload by \<^verbatim>\<open>max_payload\<close>, which is what the receive window relies on.
\<close>

theorem parse_in_bounds:
  assumes "packet_parse E buf = Inr p"
  shows "payload p = mem_read buf POTR_PACKET_HEADER_SIZE (unat (payload_len p)) \<and>
    length (payload p) = unat (payload_len p) \<and>
    POTR_PACKET_HEADER_SIZE + length (payload p) \<le> length buf \<and> length (payload p) \<le> POTR_MAX_PAYLOAD \<and>
    protocol_version p = POTR_PROTOCOL_VERSION"
  using assms by (auto simp: packet_parse_def Let_def mem_read_def split: if_splits)

text \<open>
  C22: Packing and unpacking are inverse: walking a container whose payload is the
  concatenation of element images yields exactly those elements, in order, with their flags
  and bytes.
\<close>

theorem container_roundtrip:
  assumes "byteorder_ok E" "payload c = concat (map (\<lambda>(fl, d). elem_bytes E fl d) es)"
    "unat (payload_len c) = length (payload c)" "length (payload c) \<le> POTR_MAX_PAYLOAD"
  shows "map (\<lambda>e. (flags e, payload e)) (unpack_all E c 0) = es"
  using unpack_all_elems[OF assms(1) _ assms(3,4), of "[]" es] assms(2)
  by (simp add: elem_of_def comp_def case_prod_beta zero_packet_def)

definition demo_sh :: potr_internal_packet_session_hdr where
  "demo_sh = \<lparr>sh_service_id = 1001, sh_session_tv_sec = 1700000000, sh_session_id = 77, sh_session_tv_nsec = 5\<rparr>"

theorem data_packet_roundtrip_witness:
  "byteorder_ok demo_cplat \<and>
   (case packet_build_packed demo_cplat demo_sh 9 [1, 2, 3] (length [1, 2, 3 :: u8]) of
      Inl e \<Rightarrow> False
    | Inr p \<Rightarrow> packet_parse demo_cplat (packet_wire demo_cplat p @ [0xFF]) =
        Inr (host_packet demo_sh 9 0 POTR_FLAG_DATA [1, 2, 3]))"
  using data_packet_roundtrip[OF demo_byteorder, where sh = demo_sh and seq = 9 and pl = "[1, 2, 3]" and extra = "[0xFF]"]
  by (simp add: packet_build_packed_def)

theorem control_packet_roundtrip_witness:
  "byteorder_ok demo_cplat \<and> packet_parse demo_cplat (packet_wire demo_cplat (packet_build_nack demo_cplat demo_sh 9)) =
     Inr (host_packet demo_sh 0 9 POTR_FLAG_NACK [])"
  using control_packet_roundtrip[OF demo_byteorder, where sh = demo_sh and n = 9] by simp

definition demo_packet :: potr_packet where
  "demo_packet = (fill_session_hdr demo_cplat zero_packet demo_sh)\<lparr>seq_num := hton32 demo_cplat 9,
     ack_num := hton32 demo_cplat 0, flags := hton16 demo_cplat POTR_FLAG_DATA,
     payload_len := hton16 demo_cplat (of_nat (length [1, 2 :: u8])), payload := [1, 2]\<rparr>"

theorem parse_in_bounds_witness:
  "\<exists>p. packet_parse demo_cplat (packet_wire demo_cplat demo_packet) = Inr p \<and>
     length (payload p) = 2 \<and> POTR_PACKET_HEADER_SIZE + length (payload p) \<le> length (packet_wire demo_cplat demo_packet)"
proof -
  have p: "packet_parse demo_cplat (packet_wire demo_cplat demo_packet) = Inr (host_packet demo_sh 9 0 POTR_FLAG_DATA [1, 2])"
    using parse_wire_host[OF demo_byteorder _ demo_packet_def, of "[]"] by simp
  from parse_in_bounds[OF p] p show ?thesis by (simp add: host_packet_def)
qed

theorem container_roundtrip_witness:
  "(let es = [(1, [7, 8]), (2, []), (0, [9])];
        pl = concat (map (\<lambda>(fl, d). elem_bytes demo_cplat fl d) es);
        c = host_packet demo_sh 5 0 POTR_FLAG_DATA pl
    in map (\<lambda>e. (flags e, payload e)) (unpack_all demo_cplat c 0) = es)"
  unfolding Let_def
  by (rule container_roundtrip[OF demo_byteorder]) (simp_all add: host_packet_def elem_bytes_def)

end
