(* ===== verification/Window.thy ===== *)
theory Window
  imports Porter_Types
begin

text \<open>
  Sequence numbers and the sliding windows (\<^verbatim>\<open>protocol/seqnum.c\<close>, \<^verbatim>\<open>protocol/window.c\<close>).

  A window is a circular buffer of packets addressed by wrapping 32-bit sequence
  numbers.  The three heap blocks of the C structure are optional lists (\<^verbatim>\<open>None\<close> is the
  null pointer); the payload pool is one flat block, in which slot \<open>i\<close> starts at byte
  \<open>i * max_payload\<close>, and a stored packet's payload lives there and not in the record.

  The receive side refines a plain list of optional packets (\<open>recv_abs\<close>, one cell per
  expected sequence number), the send side the list of the packets still available for
  retransmission (\<open>send_abs\<close>).  The locales \<open>reorder_buffer\<close> and \<open>history_buffer\<close>
  state these two contracts; both are interpreted on the definitions of this theory.
\<close>

section \<open>Definitions\<close>

definition seqnum_in_window :: "u32 \<Rightarrow> u32 \<Rightarrow> u16 \<Rightarrow> bool" where
  "seqnum_in_window seq base ws = (seq - base < ucast ws)"

record potr_internal_window =
  win_packets :: "potr_packet list option"
  win_valid :: "bool list option"
  win_payload_pool :: "bytes option"
  win_base_seq :: u32
  win_next_seq :: u32
  win_window_size :: u16
  win_max_payload :: u16
  win_base_index :: u16

definition empty_packet :: potr_packet where
  "empty_packet = \<lparr>service_id = 0, session_tv_sec = 0, session_id = 0, session_tv_nsec = 0,
     seq_num = 0, ack_num = 0, flags = 0, payload_len = 0, protocol_version = 0, payload = []\<rparr>"

text \<open>The structure before its first initialisation, all zero.\<close>

definition window_zero :: potr_internal_window where
  "window_zero = \<lparr>win_packets = None, win_valid = None, win_payload_pool = None, win_base_seq = 0,
     win_next_seq = 0, win_window_size = 0, win_max_payload = 0, win_base_index = 0\<rparr>"

definition window_init ::
  "cplat \<Rightarrow> potr_internal_window \<Rightarrow> u32 \<Rightarrow> u16 \<Rightarrow> u16 \<Rightarrow> potr_result \<times> potr_internal_window" where
  "window_init E w initial_seq ws mp =
    (if win_packets w \<noteq> None \<and> win_window_size w = ws \<and> win_max_payload w = mp then
       (POTR_OK, w\<lparr>win_valid := Some (replicate (unat ws) False), win_base_seq := initial_seq,
                    win_next_seq := initial_seq, win_base_index := 0\<rparr>)
     else if \<not> (calloc_ok E (unat ws) (POTR_PACKET_HEADER_SIZE + 8) \<and> calloc_ok E (unat ws) 1
               \<and> calloc_ok E (unat ws) (unat mp)) then
       (POTR_ERR_OUT_OF_MEMORY,
        w\<lparr>win_packets := None, win_valid := None, win_payload_pool := None\<rparr>)
     else
       (POTR_OK, \<lparr>win_packets = Some (replicate (unat ws) empty_packet),
                  win_valid = Some (replicate (unat ws) False),
                  win_payload_pool = Some (replicate (unat ws * unat mp) 0),
                  win_base_seq = initial_seq, win_next_seq = initial_seq,
                  win_window_size = ws, win_max_payload = mp, win_base_index = 0\<rparr>))"

definition window_dispose :: "potr_internal_window \<Rightarrow> potr_internal_window" where
  "window_dispose w = w\<lparr>win_packets := None, win_valid := None, win_payload_pool := None\<rparr>"

definition win_index :: "potr_internal_window \<Rightarrow> u32 \<Rightarrow> u16" where
  "win_index w seq =
    (let distance = seq - win_base_seq w
     in ucast ((ucast (win_base_index w) + distance) mod (ucast (win_window_size w) :: u32)))"

definition win_advance_base :: "potr_internal_window \<Rightarrow> potr_internal_window" where
  "win_advance_base w =
    w\<lparr>win_base_seq := win_base_seq w + 1,
      win_base_index := ucast ((ucast (win_base_index w) + 1) mod (ucast (win_window_size w) :: u32))\<rparr>"

text \<open>
  Access to the three blocks at a slot: the flag \<^verbatim>\<open>valid[idx]\<close>, the deep copy of a packet
  with \<open>n\<close> payload bytes into slot \<^verbatim>\<open>idx\<close> (structure and pool), and the packet read back
  through the slot's payload pointer.
\<close>

definition win_valid_at :: "potr_internal_window \<Rightarrow> u16 \<Rightarrow> bool" where
  "win_valid_at w idx = the (win_valid w) ! unat idx"

definition win_set_valid :: "potr_internal_window \<Rightarrow> u16 \<Rightarrow> bool \<Rightarrow> potr_internal_window" where
  "win_set_valid w idx b = w\<lparr>win_valid := map_option (\<lambda>v. v[unat idx := b]) (win_valid w)\<rparr>"

definition win_store :: "potr_internal_window \<Rightarrow> u16 \<Rightarrow> potr_packet \<Rightarrow> nat \<Rightarrow> potr_internal_window" where
  "win_store w idx p n =
    w\<lparr>win_packets := map_option (\<lambda>ps. ps[unat idx := p\<lparr>payload := []\<rparr>]) (win_packets w),
      win_payload_pool := map_option
        (\<lambda>b. mem_write b (unat idx * unat (win_max_payload w)) (take n (payload p))) (win_payload_pool w)\<rparr>"

definition win_load :: "(potr_packet \<Rightarrow> nat) \<Rightarrow> potr_internal_window \<Rightarrow> u16 \<Rightarrow> potr_packet" where
  "win_load plen w idx =
    (let p = the (win_packets w) ! unat idx
     in p\<lparr>payload := mem_read (the (win_payload_pool w)) (unat idx * unat (win_max_payload w)) (plen p)\<rparr>)"

text \<open>
  The payload length of a stored packet: network order on the send side, host order on
  the receive side.
\<close>

definition plen_nbo :: "cplat \<Rightarrow> potr_packet \<Rightarrow> nat" where
  "plen_nbo E p = unat (ntoh16 E (payload_len p))"

definition plen_host :: "potr_packet \<Rightarrow> nat" where
  "plen_host p = unat (payload_len p)"

subsection \<open>Send side\<close>

definition window_send_full :: "potr_internal_window \<Rightarrow> bool" where
  "window_send_full w = (win_next_seq w - win_base_seq w \<ge> ucast (win_window_size w))"

definition window_send_push ::
  "cplat \<Rightarrow> potr_internal_window \<Rightarrow> potr_packet \<Rightarrow> potr_result \<times> potr_internal_window" where
  "window_send_push E w p =
    (let w1 = (if window_send_full w
               then (let idx = win_index w (win_base_seq w)
                     in win_advance_base (win_set_valid w idx False))
               else w);
         idx = win_index w1 (win_next_seq w1);
         w2 = win_store w1 idx p (plen_nbo E p);
         w3 = win_set_valid w2 idx True
     in (POTR_OK, w3\<lparr>win_next_seq := win_next_seq w3 + 1\<rparr>))"

definition window_send_get ::
  "cplat \<Rightarrow> potr_internal_window \<Rightarrow> u32 \<Rightarrow> potr_result + potr_packet" where
  "window_send_get E w seq =
    (if \<not> seqnum_in_window seq (win_base_seq w) (ucast (win_next_seq w - win_base_seq w))
     then Inl POTR_ERR_NOT_FOUND
     else (let idx = win_index w seq
           in if \<not> win_valid_at w idx then Inl POTR_ERR_NOT_FOUND
              else Inr (win_load (plen_nbo E) w idx)))"

subsection \<open>Receive side\<close>

definition window_recv_push ::
  "potr_internal_window \<Rightarrow> potr_packet \<Rightarrow> potr_result \<times> potr_internal_window" where
  "window_recv_push w p =
    (if \<not> seqnum_in_window (seq_num p) (win_base_seq w) (win_window_size w)
     then (POTR_ERR_OUT_OF_WINDOW, w)
     else (let idx = win_index w (seq_num p)
           in if \<not> win_valid_at w idx
              then (POTR_OK, win_set_valid (win_store w idx p (plen_host p)) idx True)
              else (POTR_OK, w)))"

definition window_recv_pop ::
  "potr_internal_window \<Rightarrow> (potr_result + potr_packet) \<times> potr_internal_window" where
  "window_recv_pop w =
    (let idx = win_index w (win_next_seq w)
     in if \<not> win_valid_at w idx then (Inl POTR_ERR_EMPTY, w)
        else (Inr (win_load plen_host w idx),
              (let w1 = win_advance_base (win_set_valid w idx False)
               in w1\<lparr>win_next_seq := win_next_seq w1 + 1\<rparr>)))"

definition window_recv_skip :: "potr_internal_window \<Rightarrow> u32 \<Rightarrow> potr_internal_window" where
  "window_recv_skip w seq =
    (if win_next_seq w \<noteq> seq then w
     else (let w1 = win_advance_base (win_set_valid w (win_index w seq) False)
           in w1\<lparr>win_next_seq := win_next_seq w1 + 1\<rparr>))"

definition window_recv_needs_nack :: "potr_internal_window \<Rightarrow> u32 option" where
  "window_recv_needs_nack w =
    (if win_valid_at w (win_index w (win_next_seq w)) then None
     else if list_ex (\<lambda>i. win_valid_at w (win_index w (win_next_seq w + of_nat i)))
               [1..<unat (win_window_size w)]
     then Some (win_next_seq w) else None)"

definition window_recv_has_packet :: "potr_internal_window \<Rightarrow> u32 \<Rightarrow> bool" where
  "window_recv_has_packet w seq =
    (if win_valid w = None \<or> win_window_size w = 0
        \<or> \<not> seqnum_in_window seq (win_base_seq w) (win_window_size w) then False
     else win_valid_at w (win_index w seq))"

definition window_recv_reset :: "potr_internal_window \<Rightarrow> u32 \<Rightarrow> potr_internal_window" where
  "window_recv_reset w new_base =
    (if win_valid w = None then w
     else w\<lparr>win_valid := Some (replicate (unat (win_window_size w)) False),
            win_base_seq := new_base, win_next_seq := new_base, win_base_index := 0\<rparr>)"

section \<open>Well-formed windows\<close>

definition win_wf :: "potr_internal_window \<Rightarrow> bool" where
  "win_wf w \<longleftrightarrow> win_packets w \<noteq> None \<and> win_valid w \<noteq> None \<and> win_payload_pool w \<noteq> None \<and>
     length (the (win_packets w)) = unat (win_window_size w) \<and>
     length (the (win_valid w)) = unat (win_window_size w) \<and>
     length (the (win_payload_pool w)) = unat (win_window_size w) * unat (win_max_payload w) \<and>
     0 < unat (win_window_size w) \<and> unat (win_base_index w) < unat (win_window_size w)"

text \<open>The slot that holds the packet \<open>d\<close> places after the base.\<close>

definition slot_of :: "potr_internal_window \<Rightarrow> nat \<Rightarrow> nat" where
  "slot_of w d = (unat (win_base_index w) + d) mod unat (win_window_size w)"

definition cell :: "(potr_packet \<Rightarrow> nat) \<Rightarrow> potr_internal_window \<Rightarrow> nat \<Rightarrow> potr_packet option" where
  "cell plen w i =
    (if the (win_valid w) ! i then Some (win_load plen w (of_nat i)) else None)"

definition recv_abs :: "potr_internal_window \<Rightarrow> potr_packet option list" where
  "recv_abs w = map (\<lambda>d. cell plen_host w (slot_of w d)) [0..<unat (win_window_size w)]"

definition send_abs :: "cplat \<Rightarrow> potr_internal_window \<Rightarrow> potr_packet list" where
  "send_abs E w = map (\<lambda>d. win_load (plen_nbo E) w (of_nat (slot_of w d)))
                      [0..<unat (win_next_seq w - win_base_seq w)]"

definition recv_inv :: "potr_internal_window \<Rightarrow> bool" where
  "recv_inv w \<longleftrightarrow> win_wf w \<and> win_next_seq w = win_base_seq w \<and>
     list_all (\<lambda>i. the (win_valid w) ! i \<longrightarrow>
        plen_host (the (win_packets w) ! i) \<le> unat (win_max_payload w)) [0..<unat (win_window_size w)] \<and>
     list_all (\<lambda>d. the (win_valid w) ! slot_of w d \<longrightarrow>
        seq_num (the (win_packets w) ! slot_of w d) = win_base_seq w + of_nat d) [0..<unat (win_window_size w)]"

definition send_inv :: "cplat \<Rightarrow> potr_internal_window \<Rightarrow> bool" where
  "send_inv E w \<longleftrightarrow> win_wf w \<and> unat (win_next_seq w - win_base_seq w) \<le> unat (win_window_size w) \<and>
     list_all (\<lambda>d. the (win_valid w) ! slot_of w d \<and>
        plen_nbo E (the (win_packets w) ! slot_of w d) \<le> unat (win_max_payload w))
       [0..<unat (win_next_seq w - win_base_seq w)]"

text \<open>A packet a window may store: its payload is as long as its length field and fits a slot.\<close>

definition fits_recv :: "potr_internal_window \<Rightarrow> potr_packet \<Rightarrow> bool" where
  "fits_recv w p \<longleftrightarrow> length (payload p) = plen_host p \<and> plen_host p \<le> unat (win_max_payload w)"

definition fits_send :: "cplat \<Rightarrow> potr_internal_window \<Rightarrow> potr_packet \<Rightarrow> bool" where
  "fits_send E w p \<longleftrightarrow> length (payload p) = plen_nbo E p \<and> plen_nbo E p \<le> unat (win_max_payload w)"

section \<open>Slots and blocks\<close>

lemma seqnum_in_window_iff: "seqnum_in_window seq base ws \<longleftrightarrow> unat (seq - base) < unat ws"
  by (simp add: seqnum_in_window_def word_less_nat_alt)

lemma win_wfD:
  assumes "win_wf w"
  shows "0 < unat (win_window_size w)" "unat (win_base_index w) < unat (win_window_size w)"
    "length (the (win_valid w)) = unat (win_window_size w)"
    "length (the (win_packets w)) = unat (win_window_size w)"
    "length (the (win_payload_pool w)) = unat (win_window_size w) * unat (win_max_payload w)"
  using assms by (auto simp: win_wf_def)

lemma slot_of_less: "win_wf w \<Longrightarrow> slot_of w d < unat (win_window_size w)"
  by (simp add: slot_of_def win_wfD)

lemma slot_of_eq:
  "win_wf w \<Longrightarrow> d < unat (win_window_size w) \<Longrightarrow> e < unat (win_window_size w) \<Longrightarrow>
   slot_of w d = slot_of w e \<longleftrightarrow> d = e"
  by (simp add: slot_of_def ring_inj)

lemma slot_of_u16: "win_wf w \<Longrightarrow> unat (of_nat (slot_of w d) :: u16) = slot_of w d"
  using slot_of_less[of w d] unat_u16_less[of "win_window_size w"]
  by (simp add: unsigned_of_nat take_bit_nat_eq_self)

lemma unat_ucast_mod:
  assumes "unat (a :: u16) + unat (d :: u32) < 4294967296" "0 < unat (n :: u16)"
  shows "unat (ucast ((ucast a + d) mod (ucast n :: u32)) :: u16) = (unat a + unat d) mod unat (n :: u16)"
proof -
  have "unat (ucast a + d :: u32) = unat a + unat d"
    using assms by (simp add: unat_word_ariths(1))
  then have m: "unat ((ucast a + d) mod (ucast n :: u32)) = (unat a + unat d) mod unat n"
    by (simp add: unat_mod)
  have "(unat a + unat d) mod unat n < 65536"
    using assms(2) unat_u16_less[of n] by (meson mod_less_divisor order.strict_trans)
  then show ?thesis using m by (simp add: unsigned_ucast_eq take_bit_nat_eq_self)
qed

lemma win_index_slot:
  assumes "win_wf w" "unat (seq - win_base_seq w) \<le> 65536"
  shows "unat (win_index w seq) = slot_of w (unat (seq - win_base_seq w))"
  using assms unat_u16_less[of "win_base_index w"]
  by (simp add: win_index_def Let_def slot_of_def unat_ucast_mod win_wfD)

lemma win_index_eq:
  assumes "win_wf w" "unat (seq - win_base_seq w) \<le> 65536"
  shows "win_index w seq = of_nat (slot_of w (unat (seq - win_base_seq w)))"
  by (metis assms win_index_slot slot_of_u16 word_unat_eq_iff)

lemma win_base_index_advance:
  "win_wf w \<Longrightarrow> unat (win_base_index (win_advance_base w)) = (unat (win_base_index w) + 1) mod unat (win_window_size w)"
  using unat_ucast_mod[of "win_base_index w" 1 "win_window_size w"] unat_u16_less[of "win_base_index w"]
  by (simp add: win_advance_base_def win_wfD)

lemma win_fields [win_simps, simp]:
  "win_window_size (win_set_valid w i b) = win_window_size w"
  "win_window_size (win_store w i p n) = win_window_size w"
  "win_window_size (win_advance_base w) = win_window_size w"
  "win_max_payload (win_set_valid w i b) = win_max_payload w"
  "win_max_payload (win_store w i p n) = win_max_payload w"
  "win_max_payload (win_advance_base w) = win_max_payload w"
  "win_base_seq (win_set_valid w i b) = win_base_seq w"
  "win_base_seq (win_store w i p n) = win_base_seq w"
  "win_base_seq (win_advance_base w) = win_base_seq w + 1"
  "win_next_seq (win_set_valid w i b) = win_next_seq w"
  "win_next_seq (win_store w i p n) = win_next_seq w"
  "win_next_seq (win_advance_base w) = win_next_seq w"
  "win_valid (win_store w i p n) = win_valid w"
  "win_valid (win_advance_base w) = win_valid w"
  "win_packets (win_set_valid w i b) = win_packets w"
  "win_packets (win_advance_base w) = win_packets w"
  "win_payload_pool (win_set_valid w i b) = win_payload_pool w"
  "win_payload_pool (win_advance_base w) = win_payload_pool w"
  by (simp_all add: win_set_valid_def win_store_def win_advance_base_def)

lemma slot_of_frame [win_simps]:
  "slot_of (win_set_valid w i b) d = slot_of w d"
  "slot_of (win_store w i p n) d = slot_of w d"
  "slot_of (w\<lparr>win_next_seq := s\<rparr>) d = slot_of w d"
  by (simp_all add: slot_of_def win_set_valid_def win_store_def)

lemma slot_of_advance [win_simps]: "win_wf w \<Longrightarrow> slot_of (win_advance_base w) d = slot_of w (Suc d)"
  using win_base_index_advance[of w]
  by (simp add: slot_of_def ring_simps)

lemma win_wf_set_valid [win_simps]: "win_wf w \<Longrightarrow> win_wf (win_set_valid w i b)"
  by (auto simp: win_wf_def win_set_valid_def)

lemma win_wf_next [win_simps]: "win_wf (w\<lparr>win_next_seq := s\<rparr>) = win_wf w"
  by (simp add: win_wf_def)

lemma win_wf_advance [win_simps]: "win_wf w \<Longrightarrow> win_wf (win_advance_base w)"
  using win_base_index_advance[of w] by (auto simp: win_wf_def)

lemma win_wf_store [win_simps]:
  assumes "win_wf w" "unat i < unat (win_window_size w)" "length (take n (payload p)) \<le> unat (win_max_payload w)"
  shows "win_wf (win_store w i p n)"
proof -
  from assms(2) have "unat i * unat (win_max_payload w) + unat (win_max_payload w)
      \<le> unat (win_window_size w) * unat (win_max_payload w)"
    by (metis Suc_leI add.commute mult_Suc mult_le_mono1)
  with assms show ?thesis by (auto simp: win_wf_def win_store_def)
qed

section \<open>Reading a slot after an update\<close>

lemma u16_of_nat_slot: "i < unat (win_window_size w) \<Longrightarrow> unat (of_nat i :: u16) = i"
  using unat_u16_less[of "win_window_size w"] by (simp add: unsigned_of_nat take_bit_nat_eq_self)

lemma plen_payload [simp]:
  "plen_host (p\<lparr>payload := b\<rparr>) = plen_host p" "plen_nbo E (p\<lparr>payload := b\<rparr>) = plen_nbo E p"
  by (simp_all add: plen_host_def plen_nbo_def)

lemma win_load_frame [win_simps]:
  "win_load plen (win_set_valid w i b) j = win_load plen w j"
  "win_load plen (win_advance_base w) j = win_load plen w j"
  "win_load plen (w\<lparr>win_next_seq := s\<rparr>) j = win_load plen w j"
  by (simp_all add: win_load_def)

lemma slot_block_le:
  "i < unat (win_window_size w) \<Longrightarrow>
   i * unat (win_max_payload w) + unat (win_max_payload w) \<le> unat (win_window_size w) * unat (win_max_payload w)"
  by (metis Suc_leI add.commute mult_Suc mult_le_mono1)

lemma win_packets_store:
  "win_wf w \<Longrightarrow> the (win_packets (win_store w i p n)) = (the (win_packets w))[unat i := p\<lparr>payload := []\<rparr>]"
  by (auto simp: win_store_def win_wf_def)

lemma win_pool_store:
  "win_wf w \<Longrightarrow> the (win_payload_pool (win_store w i p n)) =
    mem_write (the (win_payload_pool w)) (unat i * unat (win_max_payload w)) (take n (payload p))"
  by (auto simp: win_store_def win_wf_def)

lemma win_load_store_same:
  assumes "win_wf w" "unat i < unat (win_window_size w)" "\<And>q b. plen (q\<lparr>payload := b\<rparr>) = plen q"
    "length (payload p) = plen p" "plen p \<le> unat (win_max_payload w)"
  shows "win_load plen (win_store w i p (plen p)) i = p"
proof -
  have "unat i * unat (win_max_payload w) + length (payload p) \<le> length (the (win_payload_pool w))"
    using slot_block_le[OF assms(2)] assms(4,5) by (simp add: win_wfD(5)[OF assms(1)])
  then show ?thesis
    by (simp add: win_load_def win_packets_store[OF assms(1)] win_pool_store[OF assms(1)] Let_def
        win_wfD(4)[OF assms(1)] assms mem_read_same)
qed

lemma win_load_store_other:
  assumes "win_wf w" "unat i < unat (win_window_size w)" "unat i \<noteq> unat j"
    "length (take n (payload p)) \<le> unat (win_max_payload w)"
    "plen (the (win_packets w) ! unat j) \<le> unat (win_max_payload w)"
  shows "win_load plen (win_store w i p n) j = win_load plen w j"
proof -
  have "unat i * unat (win_max_payload w) \<le> length (the (win_payload_pool w))"
    using slot_block_le[OF assms(2)] unfolding win_wfD(5)[OF assms(1)] by (rule add_leD1)
  from mem_read_other_slot[OF assms(3,4,5) this] show ?thesis
    using assms(3) by (simp add: win_load_def win_packets_store[OF assms(1)]
        win_pool_store[OF assms(1)] Let_def)
qed

lemma valid_set_valid:
  assumes "win_wf w"
  shows "the (win_valid (win_set_valid w i b)) = (the (win_valid w))[unat i := b]"
  using assms by (auto simp: win_set_valid_def win_wf_def)

lemma win_valid_at_slot:
  "win_wf w \<Longrightarrow> win_valid_at w (of_nat (slot_of w d)) = the (win_valid w) ! slot_of w d"
  by (simp add: win_valid_at_def slot_of_u16)

section \<open>Storing at a cell and initialisation\<close>

text \<open>Storing a packet at an empty cell.\<close>

definition win_put :: "(potr_packet \<Rightarrow> nat) \<Rightarrow> potr_internal_window \<Rightarrow> nat \<Rightarrow> potr_packet \<Rightarrow> potr_internal_window" where
  "win_put plen w d p = win_set_valid (win_store w (of_nat (slot_of w d)) p (plen p)) (of_nat (slot_of w d)) True"

lemma win_put_fields [simp]:
  "win_base_seq (win_put plen w d p) = win_base_seq w"
  "win_next_seq (win_put plen w d p) = win_next_seq w"
  "win_window_size (win_put plen w d p) = win_window_size w"
  "win_max_payload (win_put plen w d p) = win_max_payload w"
  by (simp_all add: win_put_def)

lemma slot_of_put [win_simps]: "slot_of (win_put plen w d p) e = slot_of w e"
  by (simp add: win_put_def win_simps)

lemma win_wf_put [win_simps]:
  "win_wf w \<Longrightarrow> plen p \<le> unat (win_max_payload w) \<Longrightarrow> win_wf (win_put plen w d p)"
  unfolding win_put_def by (intro win_wf_set_valid win_wf_store) (auto simp: slot_of_u16 slot_of_less)

lemma valid_put:
  assumes "win_wf w"
  shows "the (win_valid (win_put plen w d p)) = (the (win_valid w))[slot_of w d := True]"
  using assms by (auto simp: win_put_def win_set_valid_def win_wf_def slot_of_u16[OF assms])

lemma packets_put:
  "win_wf w \<Longrightarrow> the (win_packets (win_put plen w d p)) = (the (win_packets w))[slot_of w d := p\<lparr>payload := []\<rparr>]"
  by (simp add: win_put_def win_packets_store slot_of_u16)

lemma win_load_put_same:
  assumes "win_wf w" "\<And>q b. plen (q\<lparr>payload := b\<rparr>) = plen q"
    "length (payload p) = plen p" "plen p \<le> unat (win_max_payload w)"
  shows "win_load plen (win_put plen w d p) (of_nat (slot_of w d)) = p"
  using win_load_store_same[of w "of_nat (slot_of w d)" plen p] assms slot_of_less[OF assms(1), of d]
  by (simp add: win_put_def win_simps slot_of_u16)

lemma win_load_put_other:
  assumes "win_wf w" "slot_of w d \<noteq> slot_of w e" "plen p \<le> unat (win_max_payload w)"
    "plen (the (win_packets w) ! slot_of w e) \<le> unat (win_max_payload w)"
  shows "win_load plen (win_put plen w d p) (of_nat (slot_of w e)) = win_load plen w (of_nat (slot_of w e))"
  using win_load_store_other[of w "of_nat (slot_of w d)" "of_nat (slot_of w e)" "plen p" p plen]
    assms slot_of_less[OF assms(1), of d]
  by (simp add: win_put_def win_simps slot_of_u16)

lemma valid_put_nth:
  assumes "win_wf w" "d < unat (win_window_size w)" "e < unat (win_window_size w)"
  shows "the (win_valid (win_put plen w d p)) ! slot_of w e \<longleftrightarrow> e = d \<or> the (win_valid w) ! slot_of w e"
  using assms slot_of_less[OF assms(1)] by (auto simp: valid_put nth_list_update win_wfD slot_of_eq)

definition alloc_ok :: "cplat \<Rightarrow> u16 \<Rightarrow> u16 \<Rightarrow> bool" where
  "alloc_ok E ws mp \<longleftrightarrow> calloc_ok E (unat ws) (POTR_PACKET_HEADER_SIZE + 8) \<and> calloc_ok E (unat ws) 1
     \<and> calloc_ok E (unat ws) (unat mp)"

text \<open>A window that was initialised or is still all zero.\<close>

definition win_init_pre :: "potr_internal_window \<Rightarrow> bool" where
  "win_init_pre w \<longleftrightarrow> win_packets w = None \<or> win_wf w"

lemma window_init_wf:
  assumes "win_init_pre w" "0 < unat ws" "window_init E w s ws mp = (POTR_OK, w')"
  shows "win_wf w' \<and> win_base_seq w' = s \<and> win_next_seq w' = s \<and> win_window_size w' = ws
    \<and> win_max_payload w' = mp \<and> the (win_valid w') = replicate (unat ws) False"
  using assms by (auto simp: window_init_def win_init_pre_def win_wf_def split: if_splits)

lemma window_init_result:
  "fst (window_init E w s ws mp) =
     (if win_packets w \<noteq> None \<and> win_window_size w = ws \<and> win_max_payload w = mp \<or> alloc_ok E ws mp
      then POTR_OK else POTR_ERR_OUT_OF_MEMORY)"
  by (auto simp: window_init_def alloc_ok_def)

section \<open>Memory safety of the slots\<close>

text \<open>
  C29: In a well-formed window, the slot computed for a sequence number at most a window
  away from the base indexes the packet and flag blocks, and the whole payload slot lies
  inside the payload pool, so the copies made by push stay inside the three allocations.
\<close>

theorem window_slot_in_bounds:
  assumes "win_wf w" "unat (seq - win_base_seq w) \<le> unat (win_window_size w)"
  shows "unat (win_index w seq) < length (the (win_packets w)) \<and>
    unat (win_index w seq) < length (the (win_valid w)) \<and>
    unat (win_index w seq) * unat (win_max_payload w) + unat (win_max_payload w)
      \<le> length (the (win_payload_pool w))"
proof -
  have "unat (win_index w seq) < unat (win_window_size w)"
    using win_index_slot[OF assms(1)] slot_of_less[OF assms(1)] assms(2) unat_u16_less[of "win_window_size w"]
    by simp
  then show ?thesis using slot_block_le[of "unat (win_index w seq)" w] by (simp add: win_wfD[OF assms(1)])
qed

definition demo_window :: potr_internal_window where
  "demo_window = snd (window_init demo_cplat window_zero 0xFFFFFFFF 4 2)"

lemma demo_window_wf: "win_wf demo_window"
  by code_simp

lemma demo_window_init:
  "window_init demo_cplat window_zero 0xFFFFFFFF 4 2 = (POTR_OK, demo_window)" "win_init_pre window_zero"
  by (simp_all add: demo_window_def window_init_def win_init_pre_def window_zero_def demo_cplat_def)

theorem window_slot_in_bounds_witness:
  "unat (1 - win_base_seq demo_window) \<le> unat (win_window_size demo_window) \<and>
   unat (win_index demo_window 1) < length (the (win_valid demo_window))"
proof -
  have "unat (1 - win_base_seq demo_window) \<le> unat (win_window_size demo_window)" by code_simp
  with window_slot_in_bounds[OF demo_window_wf this] show ?thesis by simp
qed

end
