(* ===== verification/Send_Queue.thy ===== *)
theory Send_Queue
  imports Porter_Types
begin

text \<open>
  The asynchronous send queue (\<^verbatim>\<open>infra/potr_send_queue.c\<close>): a ring of payload elements between
  the threads that call \<^verbatim>\<open>potr_service_send\<close> and the send thread.

  A queued element points at its slot of the payload pool, and the send thread reads the
  bytes through that pointer after it has popped the element and released the lock.  The
  model therefore keeps the pointer (a byte offset) in the element and the bytes in the
  pool; \<open>sq_read\<close> is the later read.  Each operation is the body of the critical section, with
  the condition variables it signals; an operation that waits returns \<open>Wait\<close> when its
  condition does not hold yet, and is evaluated again after a wake-up.

  The locale \<open>fifo_queue\<close> states the contract; its lemmas are the FIFO order of a run and the
  stability of elements in flight.
\<close>

section \<open>Definitions\<close>

record potr_internal_payload_elem =
  pe_peer_id :: potr_peer_id
  pe_flags :: u16
  pe_payload_len :: u16
  pe_payload :: nat

record potr_internal_send_queue =
  sq_entries :: "potr_internal_payload_elem list option"
  sq_payload_pool :: "bytes option"
  sq_depth :: nat
  sq_head :: nat
  sq_tail :: nat
  sq_count :: nat
  sq_inflight :: nat
  sq_mutex :: bool
  sq_not_empty :: bool
  sq_not_full :: bool
  sq_drained :: bool

datatype condvar = NotEmpty | NotFull | Drained

datatype 'a wait = Wait | Done 'a

definition send_queue_zero :: potr_internal_send_queue where
  "send_queue_zero = \<lparr>sq_entries = None, sq_payload_pool = None, sq_depth = 0, sq_head = 0, sq_tail = 0,
     sq_count = 0, sq_inflight = 0, sq_mutex = False, sq_not_empty = False, sq_not_full = False, sq_drained = False\<rparr>"

definition send_queue_dispose :: "potr_internal_send_queue \<Rightarrow> potr_internal_send_queue" where
  "send_queue_dispose q = q\<lparr>sq_drained := False, sq_not_full := False, sq_not_empty := False, sq_mutex := False,
     sq_entries := None, sq_payload_pool := None\<rparr>"

text \<open>
  Initialisation.  \<open>created\<close> tells which of the four synchronisation objects (lock, then the
  three condition variables, in the order the code creates them) the platform could create.
\<close>

definition send_queue_init ::
  "cplat \<Rightarrow> (nat \<Rightarrow> bool) \<Rightarrow> nat \<Rightarrow> u16 \<Rightarrow> potr_result \<times> potr_internal_send_queue" where
  "send_queue_init E created depth mp =
    (if \<not> (calloc_ok E depth 16 \<and> calloc_ok E depth (unat mp)) then (POTR_ERR_OUT_OF_MEMORY, send_queue_zero)
     else
       (let q = send_queue_zero\<lparr>sq_depth := depth,
              sq_entries := Some (map (\<lambda>i. \<lparr>pe_peer_id = POTR_PEER_NA, pe_flags = 0, pe_payload_len = 0,
                                             pe_payload = i * unat mp\<rparr>) [0..<depth]),
              sq_payload_pool := Some (replicate (depth * unat mp) 0),
              sq_mutex := created 0, sq_not_empty := created 0 \<and> created 1,
              sq_not_full := created 0 \<and> created 1 \<and> created 2,
              sq_drained := created 0 \<and> created 1 \<and> created 2 \<and> created 3\<rparr>
        in if \<not> sq_drained q then (POTR_ERR_UNKNOWN, send_queue_dispose q) else (POTR_OK, q)))"

text \<open>The common body of the two pushes: fill the slot at the tail and advance it.\<close>

definition send_queue_enqueue ::
  "potr_internal_send_queue \<Rightarrow> potr_peer_id \<Rightarrow> u16 \<Rightarrow> bytes \<Rightarrow> potr_internal_send_queue" where
  "send_queue_enqueue q peer fl data =
    (let e = (the (sq_entries q) ! sq_tail q)\<lparr>pe_peer_id := peer, pe_flags := fl, pe_payload_len := of_nat (length data)\<rparr>
     in q\<lparr>sq_entries := map_option (\<lambda>es. es[sq_tail q := e]) (sq_entries q),
          sq_payload_pool := map_option (\<lambda>b. mem_write b (pe_payload e) data) (sq_payload_pool q),
          sq_tail := (sq_tail q + 1) mod sq_depth q,
          sq_count := sq_count q + 1\<rparr>)"

definition send_queue_push ::
  "potr_internal_send_queue \<Rightarrow> potr_peer_id \<Rightarrow> u16 \<Rightarrow> bytes \<Rightarrow> potr_result \<times> condvar list \<times> potr_internal_send_queue" where
  "send_queue_push q peer fl data =
    (if sq_count q + sq_inflight q \<ge> sq_depth q then (POTR_ERR_FULL, [], q)
     else (POTR_OK, [NotEmpty], send_queue_enqueue q peer fl data))"

definition send_queue_push_wait ::
  "potr_internal_send_queue \<Rightarrow> potr_peer_id \<Rightarrow> u16 \<Rightarrow> bytes \<Rightarrow> bool \<Rightarrow>
   potr_result wait \<times> condvar list \<times> potr_internal_send_queue" where
  "send_queue_push_wait q peer fl data running =
    (if sq_count q + sq_inflight q \<ge> sq_depth q
     then (if \<not> running then (Done POTR_ERR_CANCELED, [], q) else (Wait, [], q))
     else (Done POTR_OK, [NotEmpty], send_queue_enqueue q peer fl data))"

definition send_queue_dequeue ::
  "potr_internal_send_queue \<Rightarrow> potr_internal_payload_elem \<times> potr_internal_send_queue" where
  "send_queue_dequeue q =
    (the (sq_entries q) ! sq_head q,
     q\<lparr>sq_head := (sq_head q + 1) mod sq_depth q, sq_count := sq_count q - 1, sq_inflight := sq_inflight q + 1\<rparr>)"

definition send_queue_pop ::
  "potr_internal_send_queue \<Rightarrow> bool \<Rightarrow> (potr_result + potr_internal_payload_elem) wait \<times> potr_internal_send_queue" where
  "send_queue_pop q running =
    (if sq_count q = 0
     then (if \<not> running then (Done (Inl POTR_ERR_CANCELED), q) else (Wait, q))
     else (let (e, q') = send_queue_dequeue q in (Done (Inr e), q')))"

definition send_queue_peek ::
  "potr_internal_send_queue \<Rightarrow> potr_result + potr_internal_payload_elem" where
  "send_queue_peek q =
    (if sq_count q = 0 then Inl POTR_ERR_EMPTY else Inr (the (sq_entries q) ! sq_head q))"

text \<open>
  The timed peek waits at most once; \<open>q'\<close> is the queue when it holds the lock again (the same
  as \<open>q\<close> when the queue was not empty).
\<close>

definition send_queue_peek_timed ::
  "potr_internal_send_queue \<Rightarrow> potr_internal_send_queue \<Rightarrow> potr_result + potr_internal_payload_elem" where
  "send_queue_peek_timed q q' =
    (let r = (if sq_count q = 0 then q' else q)
     in if sq_count r = 0 then Inl POTR_ERR_TIMEOUT else Inr (the (sq_entries r) ! sq_head r))"

definition send_queue_try_pop ::
  "potr_internal_send_queue \<Rightarrow> (potr_result + potr_internal_payload_elem) \<times> potr_internal_send_queue" where
  "send_queue_try_pop q =
    (if sq_count q = 0 then (Inl POTR_ERR_EMPTY, q)
     else (let (e, q') = send_queue_dequeue q in (Inr e, q')))"

definition send_queue_complete :: "potr_internal_send_queue \<Rightarrow> condvar list \<times> potr_internal_send_queue" where
  "send_queue_complete q =
    (let q1 = (if sq_inflight q > 0 then q\<lparr>sq_inflight := sq_inflight q - 1\<rparr> else q)
     in ((if sq_count q1 = 0 \<and> sq_inflight q1 = 0 then [Drained] else []) @ [NotFull], q1))"

definition send_queue_wait_drained :: "potr_internal_send_queue \<Rightarrow> unit wait" where
  "send_queue_wait_drained q = (if sq_count q > 0 \<or> sq_inflight q > 0 then Wait else Done ())"

definition send_queue_shutdown :: "potr_internal_send_queue \<Rightarrow> condvar list" where
  "send_queue_shutdown q = [NotEmpty, NotFull]"

text \<open>The bytes the send thread reads through an element's payload pointer.\<close>

definition sq_read :: "potr_internal_send_queue \<Rightarrow> potr_internal_payload_elem \<Rightarrow> bytes" where
  "sq_read q e = mem_read (the (sq_payload_pool q)) (pe_payload e) (unat (pe_payload_len e))"

section \<open>Invariant and abstraction\<close>

text \<open>
  The ring positions, counted from the oldest element in flight: first the elements in
  flight, then the queued ones, then the free slots.
\<close>

definition sq_slot :: "potr_internal_send_queue \<Rightarrow> nat \<Rightarrow> nat" where
  "sq_slot q i = (sq_head q + (sq_depth q - sq_inflight q) + i) mod sq_depth q"

definition sq_inv :: "nat \<Rightarrow> potr_internal_send_queue \<Rightarrow> bool" where
  "sq_inv mp q \<longleftrightarrow>
     sq_entries q \<noteq> None \<and> sq_payload_pool q \<noteq> None \<and> 0 < sq_depth q \<and> mp < 65536 \<and>
     length (the (sq_entries q)) = sq_depth q \<and> length (the (sq_payload_pool q)) = sq_depth q * mp \<and>
     sq_head q < sq_depth q \<and> sq_tail q = (sq_head q + sq_count q) mod sq_depth q \<and>
     sq_count q + sq_inflight q \<le> sq_depth q \<and>
     (\<forall>i < sq_depth q. pe_payload (the (sq_entries q) ! i) = i * mp \<and>
        unat (pe_payload_len (the (sq_entries q) ! i)) \<le> mp)"

definition sq_item :: "potr_internal_send_queue \<Rightarrow> nat \<Rightarrow> potr_peer_id \<times> u16 \<times> bytes" where
  "sq_item q i = (let e = the (sq_entries q) ! i in (pe_peer_id e, pe_flags e, sq_read q e))"

definition sq_flying :: "potr_internal_send_queue \<Rightarrow> (potr_peer_id \<times> u16 \<times> bytes) list" where
  "sq_flying q = map (\<lambda>i. sq_item q (sq_slot q i)) [0..<sq_inflight q]"

definition sq_waiting :: "potr_internal_send_queue \<Rightarrow> (potr_peer_id \<times> u16 \<times> bytes) list" where
  "sq_waiting q = map (\<lambda>i. sq_item q (sq_slot q (sq_inflight q + i))) [0..<sq_count q]"

lemma sq_invD:
  assumes "sq_inv mp q"
  shows "0 < sq_depth q" "length (the (sq_entries q)) = sq_depth q"
    "length (the (sq_payload_pool q)) = sq_depth q * mp" "sq_head q < sq_depth q"
    "sq_tail q = (sq_head q + sq_count q) mod sq_depth q" "sq_count q + sq_inflight q \<le> sq_depth q" "mp < 65536"
  using assms by (simp_all add: sq_inv_def)

lemma sq_inv_elem:
  "sq_inv mp q \<Longrightarrow> i < sq_depth q \<Longrightarrow> pe_payload (the (sq_entries q) ! i) = i * mp \<and>
     unat (pe_payload_len (the (sq_entries q) ! i)) \<le> mp"
  by (simp add: sq_inv_def)

lemma sq_slot_less: "sq_inv mp q \<Longrightarrow> sq_slot q i < sq_depth q"
  using sq_invD(1) by (simp add: sq_slot_def)

lemma sq_slot_eq: "sq_inv mp q \<Longrightarrow> i < sq_depth q \<Longrightarrow> j < sq_depth q \<Longrightarrow> sq_slot q i = sq_slot q j \<longleftrightarrow> i = j"
  by (simp add: sq_slot_def ring_inj)

lemma sq_slot_head: "sq_inv mp q \<Longrightarrow> sq_slot q (sq_inflight q) = sq_head q"
  using sq_invD(4,6)[of mp q] by (simp add: sq_slot_def add.assoc)

lemma sq_slot_tail: "sq_inv mp q \<Longrightarrow> sq_slot q (sq_inflight q + sq_count q) = sq_tail q"
proof -
  assume i: "sq_inv mp q"
  have "sq_head q + (sq_depth q - sq_inflight q) + (sq_inflight q + sq_count q) = sq_head q + sq_count q + sq_depth q"
    using sq_invD(6)[OF i] by simp
  then show ?thesis unfolding sq_slot_def sq_invD(5)[OF i] by (simp only: mod_add_self2)
qed

section \<open>The operations on the abstract queue\<close>

lemma sq_enqueue_fields [simp]:
  "sq_depth (send_queue_enqueue q pr fl d) = sq_depth q" "sq_head (send_queue_enqueue q pr fl d) = sq_head q"
  "sq_count (send_queue_enqueue q pr fl d) = sq_count q + 1" "sq_inflight (send_queue_enqueue q pr fl d) = sq_inflight q"
  "sq_tail (send_queue_enqueue q pr fl d) = (sq_tail q + 1) mod sq_depth q"
  "sq_slot (send_queue_enqueue q pr fl d) i = sq_slot q i"
  by (simp_all add: send_queue_enqueue_def Let_def sq_slot_def)

lemma sq_enqueue_blocks:
  fixes d :: bytes
  assumes "sq_inv mp q"
    and e_def: "e = (the (sq_entries q) ! sq_tail q)\<lparr>pe_peer_id := pr, pe_flags := fl, pe_payload_len := of_nat (length d)\<rparr>"
  shows "the (sq_entries (send_queue_enqueue q pr fl d)) = (the (sq_entries q))[sq_tail q := e]"
    "the (sq_payload_pool (send_queue_enqueue q pr fl d)) = mem_write (the (sq_payload_pool q)) (sq_tail q * mp) d"
    "sq_entries (send_queue_enqueue q pr fl d) \<noteq> None" "sq_payload_pool (send_queue_enqueue q pr fl d) \<noteq> None"
proof -
  have "sq_tail q < sq_depth q" using sq_invD(1,5)[OF assms(1)] by simp
  then have "pe_payload e = sq_tail q * mp" using sq_inv_elem[OF assms(1)] by (simp add: e_def)
  then show "the (sq_payload_pool (send_queue_enqueue q pr fl d)) = mem_write (the (sq_payload_pool q)) (sq_tail q * mp) d"
    using assms(1) by (auto simp: send_queue_enqueue_def e_def sq_inv_def Let_def)
qed (use assms(1) in \<open>auto simp: send_queue_enqueue_def e_def sq_inv_def Let_def\<close>)

lemma sq_block_le: "sq_inv mp q \<Longrightarrow> i < sq_depth q \<Longrightarrow> i * mp + mp \<le> length (the (sq_payload_pool q))"
  by (simp add: sq_invD(3)) (metis Suc_leI add.commute mult_Suc mult_le_mono1)

lemma sq_enqueue_item:
  assumes "sq_inv mp q" "length d \<le> mp" "i < sq_depth q"
  shows "sq_item (send_queue_enqueue q pr fl d) i = (if i = sq_tail q then (pr, fl, d) else sq_item q i)"
proof -
  have t: "sq_tail q < sq_depth q" using sq_invD(1,5)[OF assms(1)] by simp
  note b = sq_enqueue_blocks[OF assms(1) refl]
  have len: "unat (of_nat (length d) :: u16) = length d"
    using assms(2) sq_invD(7)[OF assms(1)] by (simp add: unsigned_of_nat take_bit_nat_eq_self)
  show ?thesis
  proof (cases "i = sq_tail q")
    case True
    then show ?thesis using t sq_inv_elem[OF assms(1) t] sq_block_le[OF assms(1) t] assms(2) len
      by (simp add: sq_item_def Let_def sq_read_def b sq_invD(2)[OF assms(1)] mem_read_same)
  next
    case False
    have "sq_tail q * mp \<le> length (the (sq_payload_pool q))" using sq_block_le[OF assms(1) t] by simp
    from mem_read_other_slot[OF _ assms(2) conjunct2[OF sq_inv_elem[OF assms(1,3)]] this, of i]
    show ?thesis using False sq_inv_elem[OF assms(1,3)]
      by (simp add: sq_item_def Let_def sq_read_def b)
  qed
qed

lemma sq_enqueue_inv:
  assumes "sq_inv mp q" "length d \<le> mp" "sq_count q + sq_inflight q < sq_depth q"
  shows "sq_inv mp (send_queue_enqueue q pr fl d)"
proof -
  have t: "sq_tail q < sq_depth q" using sq_invD(1,5)[OF assms(1)] by simp
  note b = sq_enqueue_blocks[OF assms(1) refl]
  have len: "unat (of_nat (length d) :: u16) = length d"
    using assms(2) sq_invD(7)[OF assms(1)] by (simp add: unsigned_of_nat take_bit_nat_eq_self)
  have "sq_tail q * mp + length d \<le> sq_depth q * mp"
    using sq_block_le[OF assms(1) t] assms(2) by (simp add: sq_invD(3)[OF assms(1)])
  then show ?thesis
    unfolding sq_inv_def using b(3,4) assms sq_invD[OF assms(1)] sq_inv_elem[OF assms(1)] len
    by (simp add: b nth_list_update mod_simps)
qed

lemma sq_enqueue_abs:
  assumes "sq_inv mp q" "length d \<le> mp" "sq_count q + sq_inflight q < sq_depth q"
  shows "sq_flying (send_queue_enqueue q pr fl d) = sq_flying q \<and>
    sq_waiting (send_queue_enqueue q pr fl d) = sq_waiting q @ [(pr, fl, d)]"
proof -
  have "sq_slot q i \<noteq> sq_tail q" if "i < sq_inflight q + sq_count q" for i
    using sq_slot_eq[OF assms(1), of i "sq_inflight q + sq_count q"] sq_slot_tail[OF assms(1)] that assms(3) by simp
  then have old: "sq_item (send_queue_enqueue q pr fl d) (sq_slot q i) = sq_item q (sq_slot q i)"
    if "i < sq_inflight q + sq_count q" for i
    using that sq_enqueue_item[OF assms(1,2) sq_slot_less[OF assms(1)]] by simp
  have new: "sq_item (send_queue_enqueue q pr fl d) (sq_slot q (sq_inflight q + sq_count q)) = (pr, fl, d)"
    using sq_enqueue_item[OF assms(1,2) sq_slot_less[OF assms(1), of "sq_inflight q + sq_count q"], of pr fl]
      sq_slot_tail[OF assms(1)] by simp
  show ?thesis using old new by (simp add: sq_flying_def sq_waiting_def)
qed

lemma sq_item_frame [simp]:
  "sq_item (q\<lparr>sq_head := h\<rparr>) i = sq_item q i"
  "sq_item (q\<lparr>sq_count := c\<rparr>) i = sq_item q i"
  "sq_item (q\<lparr>sq_inflight := f\<rparr>) i = sq_item q i"
  by (simp_all add: sq_item_def sq_read_def)

lemma sq_dequeue_spec:
  assumes "sq_inv mp q" "0 < sq_count q" "send_queue_dequeue q = (e, q')"
  shows "sq_inv mp q' \<and> sq_flying q' = sq_flying q @ [hd (sq_waiting q)] \<and> sq_waiting q' = tl (sq_waiting q) \<and>
    (pe_peer_id e, pe_flags e, sq_read q e) = hd (sq_waiting q)"
proof -
  let ?d = "sq_depth q" and ?f = "sq_inflight q"
  note D = sq_invD[OF assms(1)]
  have q': "q' = q\<lparr>sq_head := (sq_head q + 1) mod ?d, sq_count := sq_count q - 1, sq_inflight := ?f + 1\<rparr>"
    and e: "e = the (sq_entries q) ! sq_head q"
    using assms(3) by (auto simp: send_queue_dequeue_def)
  have slot: "sq_slot q' i = sq_slot q i" for i
  proof -
    have "sq_slot q' i = (sq_head q + 1 + ((?d - (?f + 1)) + i)) mod ?d"
      by (simp add: q' sq_slot_def mod_simps add.assoc)
    also have "sq_head q + 1 + ((?d - (?f + 1)) + i) = sq_head q + (?d - ?f) + i" using assms(2) D(6) by simp
    finally show ?thesis by (simp add: sq_slot_def)
  qed
  have "((sq_head q + 1) mod ?d + (sq_count q - 1)) mod ?d = (sq_head q + sq_count q) mod ?d"
    unfolding ring_shift using assms(2) by simp
  then have "sq_inv mp q'" using assms(1,2) by (auto simp: q' sq_inv_def)
  moreover have w: "sq_waiting q = sq_item q (sq_head q) # map (\<lambda>i. sq_item q (sq_slot q (?f + Suc i))) [0..<sq_count q - 1]"
    using assms(2) sq_slot_head[OF assms(1)]
    by (cases "sq_count q") (simp_all add: sq_waiting_def upt_conv_Cons map_Suc_upt[symmetric] del: upt_Suc)
  moreover have "sq_flying q' = sq_flying q @ [sq_item q (sq_head q)]"
    using sq_slot_head[OF assms(1)] by (simp add: sq_flying_def slot) (simp add: q')
  moreover have "sq_waiting q' = map (\<lambda>i. sq_item q (sq_slot q (?f + Suc i))) [0..<sq_count q - 1]"
    by (simp add: sq_waiting_def slot) (simp add: q')
  ultimately show ?thesis by (simp add: e sq_item_def Let_def)
qed

lemma sq_complete_spec:
  assumes "sq_inv mp q"
  shows "sq_inv mp (snd (send_queue_complete q)) \<and> sq_waiting (snd (send_queue_complete q)) = sq_waiting q \<and>
    sq_flying (snd (send_queue_complete q)) = tl (sq_flying q)"
proof (cases "sq_inflight q = 0")
  case True
  then show ?thesis using assms by (simp add: send_queue_complete_def Let_def sq_flying_def)
next
  case False
  then obtain f where f: "sq_inflight q = Suc f" by (cases "sq_inflight q") auto
  let ?q = "q\<lparr>sq_inflight := f\<rparr>"
  have q: "snd (send_queue_complete q) = ?q" by (simp add: send_queue_complete_def Let_def f)
  have "sq_depth q - f = Suc (sq_depth q - Suc f)" using f sq_invD(6)[OF assms] by simp
  then have slot: "sq_slot ?q i = sq_slot q (Suc i)" for i by (simp add: sq_slot_def f)
  have "sq_inv mp ?q" using assms f by (auto simp: sq_inv_def)
  moreover have "sq_waiting ?q = sq_waiting q" by (simp add: sq_waiting_def slot f)
  moreover have "sq_flying ?q = tl (sq_flying q)"
    by (simp add: sq_flying_def slot f upt_conv_Cons map_Suc_upt[symmetric] del: upt_Suc)
  ultimately show ?thesis by (simp add: q)
qed

lemma sq_count_waiting: "sq_count q = length (sq_waiting q)" "sq_inflight q = length (sq_flying q)"
  by (simp_all add: sq_waiting_def sq_flying_def)

lemma sq_init_spec:
  assumes "send_queue_init E created depth mp = (POTR_OK, q)" "0 < depth"
  shows "sq_inv (unat mp) q \<and> sq_waiting q = [] \<and> sq_flying q = [] \<and> sq_depth q = depth"
  using assms by (auto simp: send_queue_init_def send_queue_zero_def sq_inv_def sq_waiting_def sq_flying_def
      Let_def unat_u16_less split: if_splits)

section \<open>The contract of the queue\<close>

text \<open>
  An item is queued, then in flight, then done.  \<open>fifo_history\<close> relates a state to the
  items queued so far and the items taken out so far.
\<close>

locale fifo_queue =
  fixes inv :: "'s \<Rightarrow> bool"
    and ok :: "'a \<Rightarrow> bool"
    and room :: "'s \<Rightarrow> bool"
    and flying :: "'s \<Rightarrow> 'a list"
    and waiting :: "'s \<Rightarrow> 'a list"
    and enq :: "'s \<Rightarrow> 'a \<Rightarrow> 's"
    and deq :: "'s \<Rightarrow> 'a \<times> 's"
    and fin :: "'s \<Rightarrow> 's"
  assumes enq_law: "inv s \<Longrightarrow> ok a \<Longrightarrow> room s \<Longrightarrow>
      inv (enq s a) \<and> flying (enq s a) = flying s \<and> waiting (enq s a) = waiting s @ [a]"
    and deq_law: "inv s \<Longrightarrow> waiting s \<noteq> [] \<Longrightarrow> deq s = (a, s') \<Longrightarrow>
      inv s' \<and> a = hd (waiting s) \<and> waiting s' = tl (waiting s) \<and> flying s' = flying s @ [a]"
    and fin_law: "inv s \<Longrightarrow> inv (fin s) \<and> waiting (fin s) = waiting s \<and> flying (fin s) = tl (flying s)"

definition fifo_history :: "('s \<Rightarrow> bool) \<Rightarrow> ('s \<Rightarrow> 'a list) \<Rightarrow> ('s \<Rightarrow> 'a list) \<Rightarrow> 'a list \<Rightarrow> 'a list \<Rightarrow> 's \<Rightarrow> bool" where
  "fifo_history I fly wt ins outs s \<longleftrightarrow>
     I s \<and> ins = outs @ wt s \<and> (\<exists>finished. outs = finished @ fly s)"

context fifo_queue
begin

lemma history_enq:
  "fifo_history inv flying waiting ins outs s \<Longrightarrow> ok a \<Longrightarrow> room s \<Longrightarrow>
   fifo_history inv flying waiting (ins @ [a]) outs (enq s a)"
  using enq_law[of s a] by (auto simp: fifo_history_def)

lemma history_deq:
  assumes "fifo_history inv flying waiting ins outs s" "waiting s \<noteq> []" "deq s = (a, s')"
  shows "fifo_history inv flying waiting ins (outs @ [a]) s'"
  using deq_law[OF _ assms(2,3)] assms(1,2) by (auto simp: fifo_history_def)

lemma history_fin:
  assumes "fifo_history inv flying waiting ins outs s"
  shows "fifo_history inv flying waiting ins outs (fin s)"
proof -
  obtain xs where "outs = xs @ flying s" using assms by (auto simp: fifo_history_def)
  then have "\<exists>ys. outs = ys @ tl (flying s)"
    by (cases "flying s") (auto intro: exI[of _ "xs @ [hd (flying s)]"])
  then show ?thesis using fin_law[of s] assms by (auto simp: fifo_history_def)
qed

end

text \<open>The send queue meets the contract, with items read through the payload pointer.\<close>

definition sq_enq :: "potr_internal_send_queue \<Rightarrow> potr_peer_id \<times> u16 \<times> bytes \<Rightarrow> potr_internal_send_queue" where
  "sq_enq q x = (case x of (pr, fl, d) \<Rightarrow> send_queue_enqueue q pr fl d)"

definition sq_deq :: "potr_internal_send_queue \<Rightarrow> (potr_peer_id \<times> u16 \<times> bytes) \<times> potr_internal_send_queue" where
  "sq_deq q = (case send_queue_dequeue q of (e, q') \<Rightarrow> ((pe_peer_id e, pe_flags e, sq_read q e), q'))"

interpretation fq: fifo_queue "sq_inv mp" "\<lambda>(pr, fl, d). length d \<le> mp"
  "\<lambda>q. sq_count q + sq_inflight q < sq_depth q" sq_flying sq_waiting sq_enq sq_deq "snd \<circ> send_queue_complete" for mp
proof
  fix s a s' assume "sq_inv mp s" "sq_waiting s \<noteq> []" "sq_deq s = (a, s')"
  then show "sq_inv mp s' \<and> a = hd (sq_waiting s) \<and> sq_waiting s' = tl (sq_waiting s) \<and> sq_flying s' = sq_flying s @ [a]"
    using sq_dequeue_spec[of mp s "fst (send_queue_dequeue s)" "snd (send_queue_dequeue s)"]
    by (auto simp: sq_deq_def sq_count_waiting split: prod.splits)
qed (auto simp: sq_enq_def sq_enqueue_inv sq_enqueue_abs sq_complete_spec)

section \<open>Runs of the queue\<close>

text \<open>
  Any interleaving of the critical sections of the threads that use a queue: pushes by
  senders (both kinds), pops and completions by the send thread.  \<open>ins\<close> collects the items
  accepted, \<open>outs\<close> what the send thread took out, read at the moment of the pop.
\<close>

inductive sq_run ::
  "nat \<Rightarrow> potr_internal_send_queue \<Rightarrow> (potr_peer_id \<times> u16 \<times> bytes) list \<Rightarrow>
   (potr_peer_id \<times> u16 \<times> bytes) list \<Rightarrow> potr_internal_send_queue \<Rightarrow> bool"
  for mp q0
where
  sq_start: "sq_run mp q0 [] [] q0"
| sq_push: "sq_run mp q0 ins outs q \<Longrightarrow> length d \<le> mp \<Longrightarrow> send_queue_push q pr fl d = (r, sg, q') \<Longrightarrow>
    sq_run mp q0 (if r = POTR_OK then ins @ [(pr, fl, d)] else ins) outs q'"
| sq_push_wait: "sq_run mp q0 ins outs q \<Longrightarrow> length d \<le> mp \<Longrightarrow>
    send_queue_push_wait q pr fl d running = (r, sg, q') \<Longrightarrow>
    sq_run mp q0 (if r = Done POTR_OK then ins @ [(pr, fl, d)] else ins) outs q'"
| sq_pop: "sq_run mp q0 ins outs q \<Longrightarrow> send_queue_pop q running = (Done (Inr e), q') \<Longrightarrow>
    sq_run mp q0 ins (outs @ [(pe_peer_id e, pe_flags e, sq_read q e)]) q'"
| sq_try_pop: "sq_run mp q0 ins outs q \<Longrightarrow> send_queue_try_pop q = (Inr e, q') \<Longrightarrow>
    sq_run mp q0 ins (outs @ [(pe_peer_id e, pe_flags e, sq_read q e)]) q'"
| sq_complete: "sq_run mp q0 ins outs q \<Longrightarrow> send_queue_complete q = (sg, q') \<Longrightarrow> sq_run mp q0 ins outs q'"

lemma sq_run_history:
  assumes "sq_run mp q0 ins outs q" "sq_inv mp q0" "sq_waiting q0 = []" "sq_flying q0 = []"
  shows "fifo_history (sq_inv mp) sq_flying sq_waiting ins outs q"
  using assms
proof (induction rule: sq_run.induct)
  case sq_start
  then show ?case by (simp add: fifo_history_def)
next
  case (sq_push ins outs q d pr fl r sg q')
  then show ?case using fq.history_enq[of mp ins outs q "(pr, fl, d)"]
    by (auto simp: send_queue_push_def sq_enq_def split: if_splits)
next
  case (sq_push_wait ins outs q d pr fl running r sg q')
  then show ?case using fq.history_enq[of mp ins outs q "(pr, fl, d)"]
    by (auto simp: send_queue_push_wait_def sq_enq_def split: if_splits)
next
  case (sq_pop ins outs q running e q')
  then show ?case using fq.history_deq[of mp ins outs q "(pe_peer_id e, pe_flags e, sq_read q e)" q']
    by (auto simp: send_queue_pop_def sq_deq_def sq_count_waiting split: if_splits prod.splits)
next
  case (sq_try_pop ins outs q e q')
  then show ?case using fq.history_deq[of mp ins outs q "(pe_peer_id e, pe_flags e, sq_read q e)" q']
    by (auto simp: send_queue_try_pop_def sq_deq_def sq_count_waiting split: if_splits prod.splits)
next
  case (sq_complete ins outs q sg q')
  then show ?case using fq.history_fin[of mp ins outs q] by simp
qed

text \<open>One critical section with the condition variables it signals.\<close>

inductive sq_step :: "potr_internal_send_queue \<Rightarrow> condvar list \<Rightarrow> potr_internal_send_queue \<Rightarrow> bool" where
  "send_queue_push q pr fl d = (r, sg, q') \<Longrightarrow> sq_step q sg q'"
| "send_queue_push_wait q pr fl d running = (r', sg, q') \<Longrightarrow> sq_step q sg q'"
| "send_queue_pop q running = (r'', q') \<Longrightarrow> sq_step q [] q'"
| "send_queue_try_pop q = (r3, q') \<Longrightarrow> sq_step q [] q'"
| "send_queue_complete q = (sg, q') \<Longrightarrow> sq_step q sg q'"

inductive_cases sq_stepE: "sq_step q sg q'"

lemmas send_queue_op_defs = send_queue_push_def send_queue_push_wait_def send_queue_pop_def
  send_queue_try_pop_def send_queue_complete_def send_queue_dequeue_def

section \<open>Properties\<close>

text \<open>
  C24: The queue is first-in first-out under every interleaving of senders and send thread,
  and never loses or changes an item: what was accepted is what was taken out followed by
  what still waits; the items in flight, read through their pool pointers at any later
  moment, are still the last ones taken out; and queued plus in-flight items never exceed
  the depth.
\<close>

theorem send_queue_fifo:
  assumes "send_queue_init E created depth mp = (POTR_OK, q0)" "0 < depth" "sq_run (unat mp) q0 ins outs q"
  shows "ins = outs @ sq_waiting q \<and> (\<exists>finished. outs = finished @ sq_flying q) \<and>
    length (sq_waiting q) + length (sq_flying q) \<le> sq_depth q"
  using sq_run_history[OF assms(3)] sq_init_spec[OF assms(1,2)] sq_invD(6)[of "unat mp" q]
  by (auto simp: fifo_history_def sq_count_waiting)

text \<open>
  C25: No wake-up is lost: a critical section after which a blocked \<^verbatim>\<open>push_wait\<close>, \<^verbatim>\<open>pop\<close> or
  \<^verbatim>\<open>wait_drained\<close> could proceed signals the condition variable that thread waits on.
\<close>

theorem send_queue_no_lost_wakeup:
  assumes "sq_step q sg q'"
  shows "(fst (send_queue_push_wait q pr fl d True) = Wait \<and> fst (send_queue_push_wait q' pr fl d True) \<noteq> Wait
        \<longrightarrow> NotFull \<in> set sg) \<and>
    (fst (send_queue_pop q True) = Wait \<and> fst (send_queue_pop q' True) \<noteq> Wait \<longrightarrow> NotEmpty \<in> set sg) \<and>
    (send_queue_wait_drained q = Wait \<and> send_queue_wait_drained q' \<noteq> Wait \<longrightarrow> Drained \<in> set sg)"
  using assms
  by (elim sq_stepE)
    (auto simp: send_queue_op_defs send_queue_wait_drained_def Let_def split: if_splits prod.splits)

definition demo_queue :: potr_internal_send_queue where
  "demo_queue = snd (send_queue_init demo_cplat (\<lambda>_. True) 2 3)"

lemma demo_queue_init: "send_queue_init demo_cplat (\<lambda>_. True) 2 3 = (POTR_OK, demo_queue)"
  by (simp add: demo_queue_def send_queue_init_def demo_cplat_def Let_def)

theorem send_queue_fifo_witness:
  "\<exists>outs q. sq_run (unat (3 :: u16)) demo_queue [(7, 1, [5, 6])] outs q \<and> length outs = 1 \<and>
     [(7, 1, [5, 6])] = outs @ sq_waiting q \<and> sq_flying q = outs"
proof -
  obtain r sg q1 where p: "send_queue_push demo_queue 7 1 [5, 6] = (r, sg, q1)"
    by (cases "send_queue_push demo_queue 7 1 [5, 6]") auto
  have r: "r = POTR_OK" and c: "sq_count q1 = 1" "sq_inflight q1 = 0"
    using p by (auto simp: send_queue_push_def demo_queue_def send_queue_init_def demo_cplat_def
        send_queue_zero_def Let_def split: if_splits)
  then obtain e q2 where t: "send_queue_try_pop q1 = (Inr e, q2)" and c2: "sq_inflight q2 = 1" "sq_count q2 = 0"
    by (auto simp: send_queue_try_pop_def send_queue_dequeue_def Let_def split: prod.splits)
  let ?o = "[(pe_peer_id e, pe_flags e, sq_read q1 e)]"
  have run: "sq_run (unat (3 :: u16)) demo_queue [(7, 1, [5, 6])] ?o q2"
    using sq_try_pop[OF sq_push[OF sq_start _ p, of "unat (3 :: u16)"] t] r by simp
  from send_queue_fifo[OF demo_queue_init _ run]
  obtain fin where f: "[(7, 1, [5, 6])] = ?o @ sq_waiting q2" "?o = fin @ sq_flying q2" by auto
  have "length (sq_flying q2) = 1" using c2 by (simp flip: sq_count_waiting)
  then have "sq_flying q2 = ?o" using f(2) by (cases fin) auto
  then show ?thesis using run f(1) by (intro exI[of _ ?o] exI[of _ q2]) simp
qed

theorem send_queue_no_lost_wakeup_witness:
  "let q = demo_queue\<lparr>sq_count := 1, sq_inflight := 1\<rparr>; (sg, q') = send_queue_complete q
   in fst (send_queue_push_wait q 0 0 [] True) = Wait \<and> fst (send_queue_push_wait q' 0 0 [] True) \<noteq> Wait \<and>
      NotFull \<in> set sg"
proof -
  let ?q = "demo_queue\<lparr>sq_count := 1, sq_inflight := 1\<rparr>"
  obtain sg q' where c: "send_queue_complete ?q = (sg, q')" by (cases "send_queue_complete ?q") auto
  have d: "sq_depth demo_queue = 2"
    using sq_init_spec[OF demo_queue_init] by simp
  have w: "fst (send_queue_push_wait ?q 0 0 [] True) = Wait" "fst (send_queue_push_wait q' 0 0 [] True) \<noteq> Wait"
    using c d by (auto simp: send_queue_push_wait_def send_queue_complete_def Let_def)
  from send_queue_no_lost_wakeup[OF sq_step.intros(5)[OF c], of 0 0 "[]"] w show ?thesis
    unfolding Let_def c prod.case by blast
qed

end
