(* ===== verification/Context.thy ===== *)
theory Context
  imports Packet Window Send_Queue
begin

text \<open>
  The session context (\<^verbatim>\<open>potr_context.h\<close>, \<^verbatim>\<open>porter_type.h\<close>) and the slot through which the
  receive path reads and writes it (\<^verbatim>\<open>thread/thread_recv_slot.c\<close>).

  \<^verbatim>\<open>thread_recv_slot\<close> is a structure of pointers to the fields that the context (1:1 modes) and
  a peer of the table (N:1 mode) have in common.  The model collects those fields in one record,
  \<open>slot_state\<close>, held by the context and by every peer; a slot is a reference (\<open>CtxSlot\<close> or the
  index of a peer) with \<open>get_slot\<close> and \<open>put_slot\<close>, which obey the laws of the locale \<open>slot_lens\<close>.

  Callbacks, datagrams and wake-ups are appended to a trace in the context, and \<open>c_tick\<close> counts the
  calls to the platform, so that clocks and sends may answer differently each time.  A mutex
  protects a critical section that the model runs as one step, so locks have no counterpart in the
  state; a thread handle is present or not.
\<close>

unbundle bit_operations_syntax

section \<open>Service definition and configuration\<close>

record potr_service_def =
  sd_service_id :: u64
  sd_type :: potr_type
  sd_dst_port :: u16
  sd_src_port :: u16
  sd_ttl :: u8
  sd_pack_wait_ms :: u32
  sd_multicast_group :: string
  sd_broadcast_addr :: string
  sd_src_addr :: "string list"
  sd_dst_addr :: "string list"
  sd_encrypt_key :: bytes
  sd_encrypt_enabled :: bool
  sd_max_peers :: u32
  sd_health_interval_ms :: u32
  sd_health_timeout_ms :: u32
  sd_reconnect_interval_ms :: u32
  sd_connect_timeout_ms :: u32

record potr_global_config =
  gc_window_size :: u16
  gc_max_payload :: u16
  gc_reorder_timeout_ms :: u32
  gc_max_message_size :: u32
  gc_send_queue_depth :: u32
  gc_udp_health_interval_ms :: u32
  gc_udp_health_timeout_ms :: u32
  gc_tcp_health_interval_ms :: u32
  gc_tcp_health_timeout_ms :: u32
  gc_tcp_close_timeout_ms :: u32

fun is_tcp_type :: "potr_type \<Rightarrow> bool" where
  "is_tcp_type t = (t = POTR_TYPE_TCP \<or> t = POTR_TYPE_TCP_BIDIR)"

fun is_raw_type :: "potr_type \<Rightarrow> bool" where
  "is_raw_type t = (t = POTR_TYPE_UNICAST_RAW \<or> t = POTR_TYPE_MULTICAST_RAW \<or> t = POTR_TYPE_BROADCAST_RAW)"

fun raw_base_type :: "potr_type \<Rightarrow> potr_type" where
  "raw_base_type POTR_TYPE_UNICAST_RAW = POTR_TYPE_UNICAST"
| "raw_base_type POTR_TYPE_MULTICAST_RAW = POTR_TYPE_MULTICAST"
| "raw_base_type POTR_TYPE_BROADCAST_RAW = POTR_TYPE_BROADCAST"
| "raw_base_type t = t"

definition is_oneway_udp_type :: "potr_type \<Rightarrow> bool" where
  "is_oneway_udp_type t =
    (let base = raw_base_type t
     in base = POTR_TYPE_UNICAST \<or> base = POTR_TYPE_MULTICAST \<or> base = POTR_TYPE_BROADCAST)"

definition type_uses_immediate_health_ping :: "potr_type \<Rightarrow> bool" where
  "type_uses_immediate_health_ping t = (\<not> is_oneway_udp_type t)"

section \<open>Endpoints\<close>

definition endpoint_is_unset :: "cplat_ipv4_endpoint \<Rightarrow> bool" where
  "endpoint_is_unset e = (ep_address e = 0 \<and> ep_port e = 0)"

definition endpoint_clear :: "cplat_ipv4_endpoint \<Rightarrow> cplat_ipv4_endpoint" where
  "endpoint_clear e = e\<lparr>ep_address := 0, ep_port := 0\<rparr>"

section \<open>State\<close>

record potr_internal_nack_dedup_entry =
  nd_ack_num :: u32
  nd_time_ms :: u64

abbreviation (input) POTR_NACK_DEDUP_SLOTS :: nat where "POTR_NACK_DEDUP_SLOTS \<equiv> 8"

text \<open>
  The fields common to context and peer.  \<open>s_frag_buf\<close> is the filled part of the fragment
  buffer, so its length is \<^verbatim>\<open>frag_buf_len\<close>.
\<close>

record slot_state =
  s_session_id :: u32
  s_session_ts :: cplat_timespec
  s_peer_session_id :: u32
  s_peer_session_ts :: cplat_timespec
  s_peer_session_known :: bool
  s_send_window :: potr_internal_window
  s_recv_window :: potr_internal_window
  s_send_has_data :: bool
  s_frag_buf :: bytes
  s_frag_compressed :: bool
  s_health_alive :: bool
  s_path_logical_alive :: "bool list"
  s_path_ping_state :: "u8 list"
  s_remote_path_ping_state :: "u8 list"
  s_last_recv_ts :: cplat_timespec
  s_nack_dedup_buf :: "potr_internal_nack_dedup_entry list"
  s_nack_dedup_next :: nat
  s_reorder_pending :: bool
  s_reorder_nack_num :: u32
  s_reorder_deadline_ts :: cplat_timespec
  s_pending_fin :: bool
  s_fin_target_seq :: u32
  s_dest_addr :: "cplat_ipv4_endpoint list"
  s_path_last_recv_ts :: "cplat_timespec list"

record potr_internal_peer_context =
  p_peer_id :: potr_peer_id
  p_active :: bool
  p_slot :: slot_state
  p_frag_alloc :: bool
  p_n_paths :: int

text \<open>The TCP connection management fields; a connection is present when its descriptor is valid.\<close>

record tcp_state =
  t_active_paths :: int
  t_conn_fd :: "bool list"
  t_close_waiting_ack :: bool
  t_close_ack_received :: bool
  t_close_wait_target_seq :: u32
  t_close_ack_seq :: u32
  t_last_ping_recv_ms :: "u64 list"
  t_accepted_session_ts :: cplat_timespec
  t_accepted_session_id :: u32
  t_accepted_session_known :: bool
  t_first_pkt_buf :: "bytes list"
  t_buf_full_suppress_cnt :: "int list"
  t_listen_sock :: "bool list"
  t_connect_thread :: "bool list"
  t_connect_thread_running :: "bool list"

datatype io =
    Io_callback potr_peer_id potr_event
  | Io_sendto nat cplat_ipv4_endpoint bytes
  | Io_tcp_send nat bytes
  | Io_wake_health nat
  | Io_bind nat cplat_ipv4_endpoint
  | Io_listen nat
  | Io_join nat u32 u32
  | Io_multicast_if nat u32
  | Io_connect nat cplat_ipv4_endpoint

record potr_context =
  c_callback :: bool
  c_service :: potr_service_def
  c_global :: potr_global_config
  c_role :: potr_role
  c_health_interval_ms :: u32
  c_health_timeout_ms :: u32
  c_n_path :: nat
  c_sock :: "bool list"
  c_running :: "bool list"
  c_health_running :: "bool list"
  c_recv_thread :: "bool list"
  c_health_thread :: "bool list"
  c_health_send_immediate :: "bool list"
  c_slot :: slot_state
  c_last_ping_send_ms :: u64
  c_last_valid_data_send_ms :: u64
  c_src_addr_resolved :: "u32 list"
  c_dst_addr_resolved :: "u32 list"
  c_peer_port :: "u16 list"
  c_compress_buf_size :: nat
  c_crypto_buf_size :: nat
  c_send_thread :: bool
  c_send_thread_running :: bool
  c_close_requested :: bool
  c_send_queue :: potr_internal_send_queue
  c_is_multi_peer :: bool
  c_peers :: "potr_internal_peer_context list"
  c_n_peers :: int
  c_next_peer_id :: u32
  c_tcp :: tcp_state
  c_trace :: "io list"
  c_tick :: nat

text \<open>
  A zeroed slot, as the sources obtain by clearing the enclosing structure, and an example
  context: a receiver of type UNICAST_BIDIR with two paths and windows of four packets.
\<close>

definition slot_zero :: slot_state where
  "slot_zero = \<lparr>s_session_id = 0, s_session_ts = timespec_zero, s_peer_session_id = 0,
     s_peer_session_ts = timespec_zero, s_peer_session_known = False, s_send_window = window_zero,
     s_recv_window = window_zero, s_send_has_data = False, s_frag_buf = [], s_frag_compressed = False,
     s_health_alive = False, s_path_logical_alive = replicate POTR_MAX_PATH False,
     s_path_ping_state = replicate POTR_MAX_PATH 0, s_remote_path_ping_state = replicate POTR_MAX_PATH 0,
     s_last_recv_ts = timespec_zero,
     s_nack_dedup_buf = replicate POTR_NACK_DEDUP_SLOTS \<lparr>nd_ack_num = 0, nd_time_ms = 0\<rparr>, s_nack_dedup_next = 0,
     s_reorder_pending = False, s_reorder_nack_num = 0, s_reorder_deadline_ts = timespec_zero,
     s_pending_fin = False, s_fin_target_seq = 0,
     s_dest_addr = replicate POTR_MAX_PATH \<lparr>ep_address = 0, ep_port = 0\<rparr>,
     s_path_last_recv_ts = replicate POTR_MAX_PATH timespec_zero\<rparr>"

definition demo_service :: potr_service_def where
  "demo_service = \<lparr>sd_service_id = 1001, sd_type = POTR_TYPE_UNICAST_BIDIR, sd_dst_port = 4000, sd_src_port = 0,
     sd_ttl = 1, sd_pack_wait_ms = 0, sd_multicast_group = [], sd_broadcast_addr = [],
     sd_src_addr = replicate POTR_MAX_PATH [], sd_dst_addr = replicate POTR_MAX_PATH [],
     sd_encrypt_key = [], sd_encrypt_enabled = False, sd_max_peers = 0, sd_health_interval_ms = 0,
     sd_health_timeout_ms = 0, sd_reconnect_interval_ms = 0, sd_connect_timeout_ms = 0\<rparr>"

definition demo_global :: potr_global_config where
  "demo_global = \<lparr>gc_window_size = 4, gc_max_payload = 2, gc_reorder_timeout_ms = 0, gc_max_message_size = 8,
     gc_send_queue_depth = 4, gc_udp_health_interval_ms = 1000, gc_udp_health_timeout_ms = 3000,
     gc_tcp_health_interval_ms = 1000, gc_tcp_health_timeout_ms = 3000, gc_tcp_close_timeout_ms = 1000\<rparr>"

definition demo_ctx :: potr_context where
  "demo_ctx = \<lparr>c_callback = True, c_service = demo_service, c_global = demo_global, c_role = POTR_ROLE_RECEIVER,
     c_health_interval_ms = 1000, c_health_timeout_ms = 3000, c_n_path = 2,
     c_sock = [True, True, False, False], c_running = [True, False, False, False],
     c_health_running = [True, False, False, False],
     c_recv_thread = [True, False, False, False], c_health_thread = [True, False, False, False],
     c_health_send_immediate = replicate POTR_MAX_PATH False,
     c_slot = slot_zero\<lparr>s_session_id := 9, s_session_ts := \<lparr>tv_sec = 50, tv_nsec = 0\<rparr>,
       s_send_window := demo_window, s_recv_window := demo_window\<rparr>,
     c_last_ping_send_ms = 0, c_last_valid_data_send_ms = 0,
     c_src_addr_resolved = replicate POTR_MAX_PATH 0, c_dst_addr_resolved = replicate POTR_MAX_PATH 0,
     c_peer_port = replicate POTR_MAX_PATH 0, c_compress_buf_size = 16, c_crypto_buf_size = 32,
     c_send_thread = True, c_send_thread_running = True, c_close_requested = False, c_send_queue = send_queue_zero,
     c_is_multi_peer = False, c_peers = [], c_n_peers = 0, c_next_peer_id = 1,
     c_tcp = \<lparr>t_active_paths = 0, t_conn_fd = replicate POTR_MAX_PATH False, t_close_waiting_ack = False,
       t_close_ack_received = False, t_close_wait_target_seq = 0, t_close_ack_seq = 0,
       t_last_ping_recv_ms = replicate POTR_MAX_PATH 0, t_accepted_session_ts = timespec_zero,
       t_accepted_session_id = 0, t_accepted_session_known = False,
       t_first_pkt_buf = replicate POTR_MAX_PATH [], t_buf_full_suppress_cnt = replicate POTR_MAX_PATH 0,
       t_listen_sock = replicate POTR_MAX_PATH False, t_connect_thread = replicate POTR_MAX_PATH False,
       t_connect_thread_running = replicate POTR_MAX_PATH False\<rparr>,
     c_trace = [], c_tick = 0\<rparr>"

section \<open>Slots\<close>

datatype slot_ref = CtxSlot | PeerSlot nat

fun get_slot :: "potr_context \<Rightarrow> slot_ref \<Rightarrow> slot_state" where
  "get_slot c CtxSlot = c_slot c"
| "get_slot c (PeerSlot i) = p_slot (c_peers c ! i)"

fun put_slot :: "potr_context \<Rightarrow> slot_ref \<Rightarrow> slot_state \<Rightarrow> potr_context" where
  "put_slot c CtxSlot st = c\<lparr>c_slot := st\<rparr>"
| "put_slot c (PeerSlot i) st = c\<lparr>c_peers := (c_peers c)[i := (c_peers c ! i)\<lparr>p_slot := st\<rparr>]\<rparr>"

fun slot_ok :: "potr_context \<Rightarrow> slot_ref \<Rightarrow> bool" where
  "slot_ok c CtxSlot = True"
| "slot_ok c (PeerSlot i) = (i < length (c_peers c))"

fun slot_is_peer :: "slot_ref \<Rightarrow> bool" where
  "slot_is_peer CtxSlot = False"
| "slot_is_peer (PeerSlot i) = True"

fun slot_peer_id :: "potr_context \<Rightarrow> slot_ref \<Rightarrow> potr_peer_id" where
  "slot_peer_id c CtxSlot = POTR_PEER_NA"
| "slot_peer_id c (PeerSlot i) = p_peer_id (c_peers c ! i)"

definition upd_slot :: "potr_context \<Rightarrow> slot_ref \<Rightarrow> (slot_state \<Rightarrow> slot_state) \<Rightarrow> potr_context" where
  "upd_slot c r f = put_slot c r (f (get_slot c r))"

section \<open>Effects\<close>

definition emit :: "potr_context \<Rightarrow> io \<Rightarrow> potr_context" where
  "emit c x = c\<lparr>c_trace := c_trace c @ [x]\<rparr>"

definition clock_get_monotonic :: "cplat \<Rightarrow> potr_context \<Rightarrow> cplat_timespec \<times> potr_context" where
  "clock_get_monotonic E c = (clock_monotonic E (c_tick c), c\<lparr>c_tick := Suc (c_tick c)\<rparr>)"

definition clock_get_monotonic_ms :: "cplat \<Rightarrow> potr_context \<Rightarrow> u64 \<times> potr_context" where
  "clock_get_monotonic_ms E c = (clock_monotonic_ms E (c_tick c), c\<lparr>c_tick := Suc (c_tick c)\<rparr>)"

definition socket_sendto ::
  "cplat \<Rightarrow> potr_context \<Rightarrow> nat \<Rightarrow> cplat_ipv4_endpoint \<Rightarrow> bytes \<Rightarrow> bool \<times> potr_context" where
  "socket_sendto E c i ep b =
    (sendto_ok E (c_tick c), (emit c (Io_sendto i ep b))\<lparr>c_tick := Suc (c_tick c)\<rparr>)"

definition socket_send_all :: "cplat \<Rightarrow> potr_context \<Rightarrow> nat \<Rightarrow> bytes \<Rightarrow> potr_result \<times> potr_context" where
  "socket_send_all E c i b =
    ((case send_all E (c_tick c) of None \<Rightarrow> POTR_OK | Some cause \<Rightarrow> result_from_error cause),
     (emit c (Io_tcp_send i b))\<lparr>c_tick := Suc (c_tick c)\<rparr>)"

definition socket_wait_writable :: "cplat \<Rightarrow> potr_context \<Rightarrow> bool \<times> potr_context" where
  "socket_wait_writable E c = (wait_writable E (c_tick c), c\<lparr>c_tick := Suc (c_tick c)\<rparr>)"

section \<open>Laws of slots\<close>

text \<open>
  The contract of a slot: what was put is read back, putting what is there changes nothing,
  and a second put overrides the first.  The receive path relies on it for the context's own
  slot and for the slot of any peer.
\<close>

locale slot_lens =
  fixes ok :: "'c \<Rightarrow> bool"
    and get :: "'c \<Rightarrow> 's"
    and put :: "'c \<Rightarrow> 's \<Rightarrow> 'c"
  assumes get_put: "ok c \<Longrightarrow> get (put c v) = v"
    and put_get: "ok c \<Longrightarrow> put c (get c) = c"
    and put_put: "put (put c u) v = put c v"
    and ok_put: "ok (put c v) = ok c"
begin

lemma update_compose: "ok c \<Longrightarrow> put (put c (f (get c))) (g (get (put c (f (get c))))) = put c (g (f (get c)))"
  by (simp add: get_put put_put)

lemma update_id: "ok c \<Longrightarrow> f (get c) = get c \<Longrightarrow> put c (f (get c)) = c"
  by (simp add: put_get)

end

lemma put_slot_laws:
  "slot_ok c r \<Longrightarrow> get_slot (put_slot c r st) r = st"
  "slot_ok c r \<Longrightarrow> put_slot c r (get_slot c r) = c"
  "put_slot (put_slot c r st) r st' = put_slot c r st'"
  "slot_ok (put_slot c r st) r' = slot_ok c r'"
proof -
  show "slot_ok c r \<Longrightarrow> get_slot (put_slot c r st) r = st" by (cases r) auto
  show "slot_ok c r \<Longrightarrow> put_slot c r (get_slot c r) = c" by (cases r) auto
  show "put_slot (put_slot c r st) r st' = put_slot c r st'"
  proof (cases r)
    case (PeerSlot i)
    then show ?thesis by (cases "i < length (c_peers c)") (auto simp: list_update_beyond)
  qed simp
  show "slot_ok (put_slot c r st) r' = slot_ok c r'" by (cases r; cases r') auto
qed

interpretation sl: slot_lens "\<lambda>c. slot_ok c r" "\<lambda>c. get_slot c r" "\<lambda>c. put_slot c r" for r
  by unfold_locales (simp_all add: put_slot_laws)

lemma get_upd_slot [simp]: "slot_ok c r \<Longrightarrow> get_slot (upd_slot c r f) r = f (get_slot c r)"
  by (simp add: upd_slot_def sl.get_put)

lemma upd_upd_slot: "slot_ok c r \<Longrightarrow> upd_slot (upd_slot c r f) r g = upd_slot c r (g \<circ> f)"
  by (simp add: upd_slot_def sl.update_compose)

lemma slot_ok_upd [simp]: "slot_ok (upd_slot c r f) r' = slot_ok c r'"
  by (simp add: upd_slot_def put_slot_laws)

lemma slot_peer_id_put [simp]: "slot_peer_id (put_slot c r st) r' = slot_peer_id c r'"
proof (cases r)
  case (PeerSlot i)
  then show ?thesis by (cases r'; cases "i < length (c_peers c)") (auto simp: nth_list_update list_update_beyond)
qed (cases r'; simp)

lemma slot_peer_id_upd [simp]: "slot_peer_id (upd_slot c r f) r' = slot_peer_id c r'"
  by (simp add: upd_slot_def)

text \<open>Fields of the context that a slot update leaves alone.\<close>

lemma put_slot_frame [simp, frame_simps]:
  "c_callback (put_slot c r st) = c_callback c" "c_service (put_slot c r st) = c_service c"
  "c_global (put_slot c r st) = c_global c" "c_role (put_slot c r st) = c_role c"
  "c_n_path (put_slot c r st) = c_n_path c" "c_sock (put_slot c r st) = c_sock c"
  "c_trace (put_slot c r st) = c_trace c" "c_tick (put_slot c r st) = c_tick c"
  "c_tcp (put_slot c r st) = c_tcp c" "c_n_peers (put_slot c r st) = c_n_peers c"
  "c_is_multi_peer (put_slot c r st) = c_is_multi_peer c" "length (c_peers (put_slot c r st)) = length (c_peers c)"
  "c_send_queue (put_slot c r st) = c_send_queue c" "c_peer_port (put_slot c r st) = c_peer_port c"
  "c_health_timeout_ms (put_slot c r st) = c_health_timeout_ms c"
  "c_next_peer_id (put_slot c r st) = c_next_peer_id c"
  by (cases r; simp)+

lemma upd_slot_frame [simp, frame_simps]:
  "c_callback (upd_slot c r f) = c_callback c" "c_service (upd_slot c r f) = c_service c"
  "c_global (upd_slot c r f) = c_global c" "c_role (upd_slot c r f) = c_role c"
  "c_n_path (upd_slot c r f) = c_n_path c" "c_sock (upd_slot c r f) = c_sock c"
  "c_trace (upd_slot c r f) = c_trace c" "c_tick (upd_slot c r f) = c_tick c"
  "c_tcp (upd_slot c r f) = c_tcp c" "c_n_peers (upd_slot c r f) = c_n_peers c"
  "c_is_multi_peer (upd_slot c r f) = c_is_multi_peer c" "length (c_peers (upd_slot c r f)) = length (c_peers c)"
  "c_send_queue (upd_slot c r f) = c_send_queue c" "c_peer_port (upd_slot c r f) = c_peer_port c"
  "c_health_timeout_ms (upd_slot c r f) = c_health_timeout_ms c"
  "c_next_peer_id (upd_slot c r f) = c_next_peer_id c"
  by (simp_all add: upd_slot_def)

lemma slot_trace_frame [simp, frame_simps]:
  "get_slot (c\<lparr>c_trace := t\<rparr>) r = get_slot c r" "get_slot (c\<lparr>c_tick := n\<rparr>) r = get_slot c r"
  "slot_ok (c\<lparr>c_trace := t\<rparr>) r = slot_ok c r" "slot_ok (c\<lparr>c_tick := n\<rparr>) r = slot_ok c r"
  "slot_peer_id (c\<lparr>c_trace := t\<rparr>) r = slot_peer_id c r" "slot_peer_id (c\<lparr>c_tick := n\<rparr>) r = slot_peer_id c r"
  by (cases r; simp)+

end
