(* ===== verification/Path_Event.thy ===== *)
theory Path_Event
  imports Context
begin

text \<open>
  Logical path states and connection events (\<^verbatim>\<open>potr_path_event.c\<close>, and the three functions of
  \<^verbatim>\<open>thread/thread_recv_session.c\<close> that call it).

  The application sees the connection only through its callback.  \<open>view_step\<close> is the
  application's side of the contract: an automaton that follows the path and session events and
  rejects a sequence that makes no sense (a path connected twice, DISCONNECTED while a path is
  up, DATA before CONNECTED).  The lemmas show that a synchronisation emits exactly the
  difference between the old and the new states and that the automaton follows it.
\<close>

section \<open>Definitions\<close>

definition path_state_is_normal :: "u8 \<Rightarrow> bool" where
  "path_state_is_normal s = (s = POTR_PING_STATE_NORMAL)"

definition any_path_alive :: "bool list \<Rightarrow> bool" where
  "any_path_alive states = list_ex (\<lambda>k. states ! k) [0..<POTR_MAX_PATH]"

definition callback_emit_locked :: "potr_context \<Rightarrow> potr_peer_id \<Rightarrow> potr_event \<Rightarrow> potr_context" where
  "callback_emit_locked c pid ev = (if c_callback c then emit c (Io_callback pid ev) else c)"

definition callback_emit :: "potr_context \<Rightarrow> potr_peer_id \<Rightarrow> potr_event \<Rightarrow> potr_context" where
  "callback_emit c pid ev = (if \<not> c_callback c then c else callback_emit_locked c pid ev)"

definition zero_path_states :: "bool list" where
  "zero_path_states = replicate POTR_MAX_PATH False"

definition copy_oneway_path_states :: "potr_context \<Rightarrow> bool list" where
  "copy_oneway_path_states c =
    map (\<lambda>k. path_state_is_normal (s_path_ping_state (c_slot c) ! k)) [0..<POTR_MAX_PATH]"

definition copy_bidir_udp_path_states :: "potr_context \<Rightarrow> bool list" where
  "copy_bidir_udp_path_states c =
    map (\<lambda>k. path_state_is_normal (s_path_ping_state (c_slot c) ! k) \<and>
             path_state_is_normal (s_remote_path_ping_state (c_slot c) ! k)) [0..<POTR_MAX_PATH]"

definition copy_bidir_n1_path_states :: "potr_internal_peer_context \<Rightarrow> bool list" where
  "copy_bidir_n1_path_states p =
    map (\<lambda>k. path_state_is_normal (s_path_ping_state (p_slot p) ! k) \<and>
             path_state_is_normal (s_remote_path_ping_state (p_slot p) ! k)) [0..<POTR_MAX_PATH]"

definition copy_tcp_path_states :: "potr_context \<Rightarrow> bool list" where
  "copy_tcp_path_states c =
    map (\<lambda>k. t_conn_fd (c_tcp c) ! k \<and>
             path_state_is_normal (s_path_ping_state (c_slot c) ! k) \<and>
             path_state_is_normal (s_remote_path_ping_state (c_slot c) ! k)) [0..<POTR_MAX_PATH]"

record potr_internal_prepared_path_events =
  ppe_final_states :: "bool list"
  ppe_changed :: "(nat \<times> bool) list"
  ppe_session_event :: "potr_event option"

text \<open>
  The body shared by the service and peer versions: record which paths change (with the kind
  of event), store the new states and their disjunction, and note a change of the latter.
\<close>

definition sync_path_state_body ::
  "slot_state \<Rightarrow> bool list \<Rightarrow> slot_state \<times> potr_internal_prepared_path_events" where
  "sync_path_state_body st next_states =
    (let old_alive = s_health_alive st;
         new_alive = any_path_alive next_states;
         changed = map (\<lambda>k. (k, next_states ! k))
                     (filter (\<lambda>k. s_path_logical_alive st ! k \<noteq> next_states ! k) [0..<POTR_MAX_PATH])
     in (st\<lparr>s_path_logical_alive := next_states, s_health_alive := new_alive\<rparr>,
         \<lparr>ppe_final_states = next_states, ppe_changed = changed,
          ppe_session_event =
            (if old_alive \<noteq> new_alive
             then Some (if new_alive then POTR_EVENT_CONNECTED else POTR_EVENT_DISCONNECTED)
             else None)\<rparr>))"

definition sync_service_path_state_locked ::
  "potr_context \<Rightarrow> bool list \<Rightarrow> potr_context \<times> potr_internal_prepared_path_events" where
  "sync_service_path_state_locked c next_states =
    (let (st, prep) = sync_path_state_body (c_slot c) next_states in (c\<lparr>c_slot := st\<rparr>, prep))"

definition sync_peer_path_state_locked ::
  "potr_internal_peer_context \<Rightarrow> bool list \<Rightarrow> potr_internal_peer_context \<times> potr_internal_prepared_path_events" where
  "sync_peer_path_state_locked p next_states =
    (let (st, prep) = sync_path_state_body (p_slot p) next_states in (p\<lparr>p_slot := st\<rparr>, prep))"

definition emit_path_events ::
  "potr_context \<Rightarrow> potr_peer_id \<Rightarrow> potr_internal_prepared_path_events \<Rightarrow> potr_context" where
  "emit_path_events c pid prep =
    (let c1 = fold (\<lambda>(k, up) c. callback_emit_locked c pid
                      (if up then POTR_EVENT_PATH_CONNECTED (ppe_final_states prep) k
                       else POTR_EVENT_PATH_DISCONNECTED (ppe_final_states prep) k))
                (ppe_changed prep) c
     in case ppe_session_event prep of None \<Rightarrow> c1 | Some ev \<Rightarrow> callback_emit_locked c1 pid ev)"

definition emit_service_path_events_locked ::
  "potr_context \<Rightarrow> potr_internal_prepared_path_events \<Rightarrow> potr_context" where
  "emit_service_path_events_locked c prep = emit_path_events c POTR_PEER_NA prep"

definition emit_peer_path_events_locked ::
  "potr_context \<Rightarrow> potr_internal_peer_context \<Rightarrow> potr_internal_prepared_path_events \<Rightarrow> potr_context" where
  "emit_peer_path_events_locked c p prep = emit_path_events c (p_peer_id p) prep"

subsection \<open>Callers in the receive path\<close>

definition recv_disconnect_service_all_paths :: "potr_context \<Rightarrow> potr_context" where
  "recv_disconnect_service_all_paths c =
    (let (c1, prep) = sync_service_path_state_locked c zero_path_states
     in emit_service_path_events_locked c1 prep)"

definition recv_disconnect_peer_all_paths :: "potr_context \<Rightarrow> nat \<Rightarrow> potr_context" where
  "recv_disconnect_peer_all_paths c i =
    (let (p, prep) = sync_peer_path_state_locked (c_peers c ! i) zero_path_states
     in emit_peer_path_events_locked (c\<lparr>c_peers := (c_peers c)[i := p]\<rparr>) p prep)"

fun recv_sync_path_state :: "potr_context \<Rightarrow> slot_ref \<Rightarrow> potr_context" where
  "recv_sync_path_state c (PeerSlot i) =
    (let next_states = copy_bidir_n1_path_states (c_peers c ! i);
         (p, prep) = sync_peer_path_state_locked (c_peers c ! i) next_states
     in emit_peer_path_events_locked (c\<lparr>c_peers := (c_peers c)[i := p]\<rparr>) p prep)"
| "recv_sync_path_state c CtxSlot =
    (let next_states =
           (if is_tcp_type (sd_type (c_service c)) then copy_tcp_path_states c
            else if sd_type (c_service c) = POTR_TYPE_UNICAST_BIDIR then copy_bidir_udp_path_states c
            else copy_oneway_path_states c);
         (c1, prep) = sync_service_path_state_locked c next_states
     in emit_service_path_events_locked c1 prep)"

section \<open>The application's view\<close>

fun view_step :: "bool list \<times> bool \<Rightarrow> potr_event \<Rightarrow> (bool list \<times> bool) option" where
  "view_step (ps, conn) (POTR_EVENT_PATH_CONNECTED fs k) =
    (if k < POTR_MAX_PATH \<and> \<not> ps ! k \<and> fs ! k then Some (ps[k := True], conn) else None)"
| "view_step (ps, conn) (POTR_EVENT_PATH_DISCONNECTED fs k) =
    (if k < POTR_MAX_PATH \<and> ps ! k \<and> \<not> fs ! k then Some (ps[k := False], conn) else None)"
| "view_step (ps, conn) POTR_EVENT_CONNECTED = (if \<not> conn \<and> any_path_alive ps then Some (ps, True) else None)"
| "view_step (ps, conn) POTR_EVENT_DISCONNECTED = (if conn \<and> \<not> any_path_alive ps then Some (ps, False) else None)"
| "view_step (ps, conn) (POTR_EVENT_DATA d) = (if conn then Some (ps, conn) else None)"

fun view_run :: "bool list \<times> bool \<Rightarrow> potr_event list \<Rightarrow> (bool list \<times> bool) option" where
  "view_run v [] = Some v"
| "view_run v (e # es) = (case view_step v e of None \<Rightarrow> None | Some v' \<Rightarrow> view_run v' es)"

definition view_start :: "bool list \<times> bool" where
  "view_start = (replicate POTR_MAX_PATH False, False)"

fun io_event :: "potr_peer_id \<Rightarrow> io \<Rightarrow> potr_event list" where
  "io_event pid (Io_callback q ev) = (if q = pid then [ev] else [])"
| "io_event pid _ = []"

definition events_of :: "potr_peer_id \<Rightarrow> io list \<Rightarrow> potr_event list" where
  "events_of pid tr = concat (map (io_event pid) tr)"

definition view_of :: "slot_state \<Rightarrow> bool list \<times> bool" where
  "view_of st = (s_path_logical_alive st, s_health_alive st)"

section \<open>Lemmas\<close>

lemma view_run_append:
  "view_run v (xs @ ys) = (case view_run v xs of None \<Rightarrow> None | Some v' \<Rightarrow> view_run v' ys)"
  by (induction xs arbitrary: v) (auto split: option.splits)

lemma events_of_append [simp]: "events_of pid (xs @ ys) = events_of pid xs @ events_of pid ys"
  by (simp add: events_of_def)

lemma events_of_callbacks [simp]:
  "events_of pid (map (Io_callback q) evs) = (if q = pid then evs else [])"
  by (induction evs) (auto simp: events_of_def)

lemma events_of_Nil [simp]: "events_of pid [] = []"
  by (simp add: events_of_def)

lemma events_of_single [simp]: "events_of pid [x] = io_event pid x"
  by (simp add: events_of_def)

text \<open>The events of a prepared change, in the order they are delivered.\<close>

definition prepared_events :: "potr_internal_prepared_path_events \<Rightarrow> potr_event list" where
  "prepared_events prep =
    map (\<lambda>(k, up). if up then POTR_EVENT_PATH_CONNECTED (ppe_final_states prep) k
                   else POTR_EVENT_PATH_DISCONNECTED (ppe_final_states prep) k) (ppe_changed prep)
    @ (case ppe_session_event prep of None \<Rightarrow> [] | Some ev \<Rightarrow> [ev])"

lemma emit_fold:
  "fold (\<lambda>(k, up) c. callback_emit_locked c pid (f k up)) xs c =
    (if c_callback c then c\<lparr>c_trace := c_trace c @ map (Io_callback pid) (map (\<lambda>(k, up). f k up) xs)\<rparr> else c)"
  by (induction xs arbitrary: c) (auto simp: callback_emit_locked_def emit_def)

lemma emit_path_events_eq:
  "emit_path_events c pid prep =
    (if c_callback c then c\<lparr>c_trace := c_trace c @ map (Io_callback pid) (prepared_events prep)\<rparr> else c)"
  using emit_fold[of pid "\<lambda>k up. if up then POTR_EVENT_PATH_CONNECTED (ppe_final_states prep) k
                   else POTR_EVENT_PATH_DISCONNECTED (ppe_final_states prep) k" "ppe_changed prep" c]
  by (simp add: emit_path_events_def prepared_events_def Let_def callback_emit_locked_def emit_def split: option.split)

lemma fold_list_update:
  "distinct ks \<Longrightarrow> length (fold (\<lambda>k ps. ps[k := f k]) ks ps) = length ps"
  "distinct ks \<Longrightarrow> j < length ps \<Longrightarrow> fold (\<lambda>k ps. ps[k := f k]) ks ps ! j = (if j \<in> set ks then f j else ps ! j)"
  by (induction ks arbitrary: ps) (auto simp: nth_list_update)

lemma view_run_paths:
  assumes "distinct ks" "\<forall>k\<in>set ks. k < POTR_MAX_PATH \<and> ps ! k \<noteq> nx ! k" "length ps = POTR_MAX_PATH"
  shows "view_run (ps, conn) (map (\<lambda>k. if nx ! k then POTR_EVENT_PATH_CONNECTED nx k else POTR_EVENT_PATH_DISCONNECTED nx k) ks)
    = Some (fold (\<lambda>k ps. ps[k := nx ! k]) ks ps, conn)"
  using assms
proof (induction ks arbitrary: ps)
  case (Cons k ks)
  have "view_run (ps[k := nx ! k], conn) (map (\<lambda>k. if nx ! k then POTR_EVENT_PATH_CONNECTED nx k else POTR_EVENT_PATH_DISCONNECTED nx k) ks)
    = Some (fold (\<lambda>k ps. ps[k := nx ! k]) ks (ps[k := nx ! k]), conn)"
    by (rule Cons.IH) (use Cons.prems in \<open>auto simp: nth_list_update\<close>)
  then show ?case using Cons.prems by (cases "nx ! k") auto
qed simp

lemma view_run_diff:
  assumes "length ps = n" "length nx = n" "n = POTR_MAX_PATH"
  shows "view_run (ps, conn) (map (\<lambda>k. if nx ! k then POTR_EVENT_PATH_CONNECTED nx k else POTR_EVENT_PATH_DISCONNECTED nx k)
      (filter (\<lambda>k. ps ! k \<noteq> nx ! k) [0..<n])) = Some (nx, conn)"
proof -
  let ?ks = "filter (\<lambda>k. ps ! k \<noteq> nx ! k) [0..<n]"
  have d: "distinct ?ks" by (intro distinct_filter distinct_upt)
  have m: "\<forall>k\<in>set ?ks. k < POTR_MAX_PATH \<and> ps ! k \<noteq> nx ! k" unfolding assms(3)[symmetric] by simp
  have l: "length ps = POTR_MAX_PATH" using assms(1,3) by (rule trans)
  have f: "fold (\<lambda>k ps. ps[k := nx ! k]) ?ks ps = nx"
  proof (rule nth_equalityI)
    show "length (fold (\<lambda>k ps. ps[k := nx ! k]) ?ks ps) = length nx"
      unfolding fold_list_update(1)[OF d] assms(1,2) ..
    fix j assume "j < length (fold (\<lambda>k ps. ps[k := nx ! k]) ?ks ps)"
    then have j: "j < length ps" unfolding fold_list_update(1)[OF d] .
    then show "fold (\<lambda>k ps. ps[k := nx ! k]) ?ks ps ! j = nx ! j"
      unfolding fold_list_update(2)[OF d j] using assms(1) by (cases "ps ! j = nx ! j") simp_all
  qed
  show ?thesis using view_run_paths[OF d m l, of conn] unfolding f .
qed

lemma sync_body_eq:
  "sync_path_state_body st nx = (st', prep) \<Longrightarrow> s_path_logical_alive st' = nx"
  "sync_path_state_body st nx = (st', prep) \<Longrightarrow> s_health_alive st' = any_path_alive nx"
  "sync_path_state_body st nx = (st', prep) \<Longrightarrow> prepared_events prep =
      map (\<lambda>k. if nx ! k then POTR_EVENT_PATH_CONNECTED nx k else POTR_EVENT_PATH_DISCONNECTED nx k)
        (filter (\<lambda>k. s_path_logical_alive st ! k \<noteq> nx ! k) [0..<POTR_MAX_PATH])
      @ (if s_health_alive st \<noteq> any_path_alive nx
         then [if any_path_alive nx then POTR_EVENT_CONNECTED else POTR_EVENT_DISCONNECTED] else [])"
  by (auto simp: sync_path_state_body_def Let_def prepared_events_def comp_def)

lemma view_run_sync:
  assumes "sync_path_state_body st nx = (st', prep)" "length (s_path_logical_alive st) = POTR_MAX_PATH"
    "length nx = POTR_MAX_PATH"
  shows "view_run (s_path_logical_alive st, s_health_alive st) (prepared_events prep) =
    Some (s_path_logical_alive st', s_health_alive st')"
  unfolding sync_body_eq[OF assms(1)] view_run_append view_run_diff[OF assms(2,3) refl] by simp

lemma length_path_states [simp]:
  "length zero_path_states = POTR_MAX_PATH" "length (copy_oneway_path_states c) = POTR_MAX_PATH"
  "length (copy_bidir_udp_path_states c) = POTR_MAX_PATH" "length (copy_bidir_n1_path_states p) = POTR_MAX_PATH"
  "length (copy_tcp_path_states c) = POTR_MAX_PATH"
  by (simp_all add: zero_path_states_def copy_oneway_path_states_def copy_bidir_udp_path_states_def
      copy_bidir_n1_path_states_def copy_tcp_path_states_def)

text \<open>The next states of a slot, and the two callers as one update of the slot.\<close>

fun next_path_states :: "potr_context \<Rightarrow> slot_ref \<Rightarrow> bool list" where
  "next_path_states c (PeerSlot i) = copy_bidir_n1_path_states (c_peers c ! i)"
| "next_path_states c CtxSlot =
    (if is_tcp_type (sd_type (c_service c)) then copy_tcp_path_states c
     else if sd_type (c_service c) = POTR_TYPE_UNICAST_BIDIR then copy_bidir_udp_path_states c
     else copy_oneway_path_states c)"

fun recv_disconnect_all_paths :: "potr_context \<Rightarrow> slot_ref \<Rightarrow> potr_context" where
  "recv_disconnect_all_paths c CtxSlot = recv_disconnect_service_all_paths c"
| "recv_disconnect_all_paths c (PeerSlot i) = recv_disconnect_peer_all_paths c i"

lemma recv_sync_eq:
  "sync_path_state_body (get_slot c r) (next_path_states c r) = (st, prep) \<Longrightarrow>
   recv_sync_path_state c r = emit_path_events (put_slot c r st) (slot_peer_id c r) prep"
  by (cases r) (auto simp: sync_peer_path_state_locked_def sync_service_path_state_locked_def Let_def
      emit_peer_path_events_locked_def emit_service_path_events_locked_def split: prod.splits)

lemma recv_disconnect_eq:
  "sync_path_state_body (get_slot c r) zero_path_states = (st, prep) \<Longrightarrow>
   recv_disconnect_all_paths c r = emit_path_events (put_slot c r st) (slot_peer_id c r) prep"
  by (cases r) (auto simp: recv_disconnect_service_all_paths_def recv_disconnect_peer_all_paths_def
      sync_peer_path_state_locked_def sync_service_path_state_locked_def Let_def
      emit_peer_path_events_locked_def emit_service_path_events_locked_def split: prod.splits)

lemma length_next_path_states [simp]: "length (next_path_states c r) = POTR_MAX_PATH"
  by (cases r) auto

text \<open>What one synchronisation does to the context.\<close>

lemma emit_sync:
  assumes "sync_path_state_body (get_slot c r) nx = (st, prep)" "slot_ok c r" "length nx = POTR_MAX_PATH"
    "length (s_path_logical_alive (get_slot c r)) = POTR_MAX_PATH"
  defines "c' \<equiv> emit_path_events (put_slot c r st) (slot_peer_id c r) prep"
  shows "get_slot c' r = (get_slot c r)\<lparr>s_path_logical_alive := nx, s_health_alive := any_path_alive nx\<rparr>"
    and "c' = (put_slot c r st)\<lparr>c_trace := c_trace c @ (if c_callback c
           then map (Io_callback (slot_peer_id c r)) (prepared_events prep) else [])\<rparr>"
    and "view_run (view_of (get_slot c r)) (prepared_events prep) = Some (view_of (get_slot c' r))"
proof -
  have st: "st = (get_slot c r)\<lparr>s_path_logical_alive := nx, s_health_alive := any_path_alive nx\<rparr>"
    using assms(1) by (simp add: sync_path_state_body_def Let_def)
  show c': "c' = (put_slot c r st)\<lparr>c_trace := c_trace c @ (if c_callback c
           then map (Io_callback (slot_peer_id c r)) (prepared_events prep) else [])\<rparr>"
    by (cases "c_callback c") (simp_all add: c'_def emit_path_events_eq)
  show g: "get_slot c' r = (get_slot c r)\<lparr>s_path_logical_alive := nx, s_health_alive := any_path_alive nx\<rparr>"
    unfolding c' slot_trace_frame using assms(2) by (simp only: put_slot_laws st)
  have g': "get_slot c' r = st" unfolding g st ..
  show "view_run (view_of (get_slot c r)) (prepared_events prep) = Some (view_of (get_slot c' r))"
    unfolding view_of_def g' by (rule view_run_sync[OF assms(1,4,3)])
qed

definition path_diff_events :: "bool list \<Rightarrow> bool list \<Rightarrow> potr_event list" where
  "path_diff_events old new =
    map (\<lambda>k. if new ! k then POTR_EVENT_PATH_CONNECTED new k else POTR_EVENT_PATH_DISCONNECTED new k)
      (filter (\<lambda>k. old ! k \<noteq> new ! k) [0..<POTR_MAX_PATH])"

definition session_diff_events :: "bool \<Rightarrow> bool \<Rightarrow> potr_event list" where
  "session_diff_events old new =
    (if old = new then [] else [if new then POTR_EVENT_CONNECTED else POTR_EVENT_DISCONNECTED])"

lemma prepared_events_diff:
  "sync_path_state_body st nx = (st', prep) \<Longrightarrow> prepared_events prep =
     path_diff_events (s_path_logical_alive st) nx @ session_diff_events (s_health_alive st) (any_path_alive nx)"
  unfolding sync_body_eq path_diff_events_def session_diff_events_def by simp

text \<open>
  C18: Synchronising the path states delivers one event for each path whose state changes, in
  path order and carrying the complete new state vector, and then CONNECTED or DISCONNECTED
  exactly when the disjunction of the path states changes; an application that follows
  the events from its current view of the connection accepts them and ends with the new
  states.  The new state of a path is computed from the ping states (and, for TCP, the
  presence of the connection) as each service type prescribes.
\<close>

theorem path_sync_events:
  assumes "slot_ok c r" "c_callback c" "length (s_path_logical_alive (get_slot c r)) = POTR_MAX_PATH"
  defines "new \<equiv> next_path_states c r" and "c' \<equiv> recv_sync_path_state c r"
    and "evs \<equiv> path_diff_events (s_path_logical_alive (get_slot c r)) (next_path_states c r)
           @ session_diff_events (s_health_alive (get_slot c r)) (any_path_alive (next_path_states c r))"
  shows "c_trace c' = c_trace c @ map (Io_callback (slot_peer_id c r)) evs \<and>
     view_of (get_slot c' r) = (new, any_path_alive new) \<and>
     view_run (view_of (get_slot c r)) evs = Some (view_of (get_slot c' r))"
proof -
  obtain st prep where b: "sync_path_state_body (get_slot c r) new = (st, prep)" by fastforce
  have c': "c' = emit_path_events (put_slot c r st) (slot_peer_id c r) prep"
    unfolding c'_def by (rule recv_sync_eq) (use b in \<open>simp add: new_def\<close>)
  have e: "prepared_events prep = evs" unfolding prepared_events_diff[OF b] evs_def new_def ..
  note * = emit_sync[OF b assms(1) _ assms(3), folded c']
  have l: "length new = POTR_MAX_PATH" by (simp add: new_def)
  show ?thesis using *(1)[OF l] *(2)[OF l] *(3)[OF l] assms(2) by (simp add: e view_of_def)
qed

definition demo_ctx_up :: potr_context where
  "demo_ctx_up = upd_slot demo_ctx CtxSlot
    (\<lambda>st. st\<lparr>s_path_ping_state := [1, 1, 0, 0], s_remote_path_ping_state := [1, 2, 0, 0]\<rparr>)"

theorem path_sync_events_witness:
  "c_trace (recv_sync_path_state demo_ctx_up CtxSlot) =
     map (Io_callback POTR_PEER_NA) [POTR_EVENT_PATH_CONNECTED [True, False, False, False] 0, POTR_EVENT_CONNECTED] \<and>
   view_of (get_slot (recv_sync_path_state demo_ctx_up CtxSlot) CtxSlot) = ([True, False, False, False], True)"
proof -
  have s: "get_slot demo_ctx_up CtxSlot = slot_zero\<lparr>s_session_id := 9, s_session_ts := \<lparr>tv_sec = 50, tv_nsec = 0\<rparr>,
       s_send_window := demo_window, s_recv_window := demo_window,
       s_path_ping_state := [1, 1, 0, 0], s_remote_path_ping_state := [1, 2, 0, 0]\<rparr>"
    by (simp add: demo_ctx_up_def demo_ctx_def upd_slot_def)
  have n: "next_path_states demo_ctx_up CtxSlot = [True, False, False, False]"
    using s by (simp add: copy_bidir_udp_path_states_def path_state_is_normal_def demo_ctx_up_def demo_ctx_def
        demo_service_def upd_slot_def numeral_eq_Suc)
  have d: "path_diff_events (replicate POTR_MAX_PATH False) [True, False, False, False] =
      [POTR_EVENT_PATH_CONNECTED [True, False, False, False] 0]"
    "session_diff_events False (any_path_alive [True, False, False, False]) = [POTR_EVENT_CONNECTED]"
    "any_path_alive [True, False, False, False]" by code_simp+
  have f: "c_trace demo_ctx_up = []" "c_callback demo_ctx_up" by (simp_all add: demo_ctx_up_def demo_ctx_def)
  have "length (s_path_logical_alive (get_slot demo_ctx_up CtxSlot)) = POTR_MAX_PATH"
    unfolding s by (simp add: slot_zero_def)
  from path_sync_events[OF _ f(2) this] show ?thesis
    unfolding n s f using d by (simp add: slot_zero_def numeral_eq_Suc)
qed

end
