(* ===== verification/Recv_Buffer.thy ===== *)
theory Recv_Buffer
  imports Window
begin

text \<open>
  The receive window refines a list of cells, one per expected sequence number, and meets
  the contract of a reorder buffer: whatever the order and multiplicity of arrivals, the
  packets come out in sequence order, each once.
\<close>

section \<open>The receive window refines a list of cells\<close>

lemma length_recv_abs [simp]: "length (recv_abs w) = unat (win_window_size w)"
  by (simp add: recv_abs_def)

lemma recv_abs_nth:
  "d < unat (win_window_size w) \<Longrightarrow> recv_abs w ! d = cell plen_host w (slot_of w d)"
  by (simp add: recv_abs_def)

lemma recv_inv_wf: "recv_inv w \<Longrightarrow> win_wf w"
  by (simp add: recv_inv_def)

lemma recv_inv_next: "recv_inv w \<Longrightarrow> win_next_seq w = win_base_seq w"
  by (simp add: recv_inv_def)

lemma recv_inv_plen:
  "recv_inv w \<Longrightarrow> i < unat (win_window_size w) \<Longrightarrow> the (win_valid w) ! i \<Longrightarrow>
   plen_host (the (win_packets w) ! i) \<le> unat (win_max_payload w)"
  by (auto simp: recv_inv_def list_all_iff)

lemma recv_inv_seq:
  "recv_inv w \<Longrightarrow> d < unat (win_window_size w) \<Longrightarrow> the (win_valid w) ! slot_of w d \<Longrightarrow>
   seq_num (the (win_packets w) ! slot_of w d) = win_base_seq w + of_nat d"
  by (auto simp: recv_inv_def list_all_iff)

lemma recv_invI:
  assumes "win_wf w" "win_next_seq w = win_base_seq w"
    "\<And>d. d < unat (win_window_size w) \<Longrightarrow> the (win_valid w) ! slot_of w d \<Longrightarrow>
      plen_host (the (win_packets w) ! slot_of w d) \<le> unat (win_max_payload w) \<and>
      seq_num (the (win_packets w) ! slot_of w d) = win_base_seq w + of_nat d"
  shows "recv_inv w"
proof -
  have "\<exists>d<unat (win_window_size w). i = slot_of w d" if "i < unat (win_window_size w)" for i
  proof -
    let ?n = "unat (win_window_size w)" and ?b = "unat (win_base_index w)"
    have b: "?b < ?n" using win_wfD[OF assms(1)] by simp
    show ?thesis
    proof (cases "?b \<le> i")
      case True
      then show ?thesis using that by (intro exI[of _ "i - ?b"]) (simp add: slot_of_def)
    next
      case False
      then have "(?b + (?n + i - ?b)) mod ?n = i" using that b by simp
      then show ?thesis using False that b by (intro exI[of _ "?n + i - ?b"]) (auto simp: slot_of_def)
    qed
  qed
  then have "plen_host (the (win_packets w) ! i) \<le> unat (win_max_payload w)"
    if "i < unat (win_window_size w)" "the (win_valid w) ! i" for i
    using assms(3) that by metis
  then show ?thesis using assms by (simp add: recv_inv_def list_all_iff)
qed

lemma cell_Some:
  "win_wf w \<Longrightarrow> cell plen w (slot_of w d) = Some p \<longleftrightarrow>
   the (win_valid w) ! slot_of w d \<and> p = win_load plen w (of_nat (slot_of w d))"
  by (auto simp: cell_def)

lemma win_load_hdr:
  "win_wf w \<Longrightarrow> seq_num (win_load plen w (of_nat (slot_of w d))) = seq_num (the (win_packets w) ! slot_of w d)"
  "win_wf w \<Longrightarrow> plen_host (win_load plen w (of_nat (slot_of w d))) = plen_host (the (win_packets w) ! slot_of w d)"
  by (simp_all add: win_load_def Let_def slot_of_u16)

lemma cell_seq:
  assumes "recv_inv w" "d < unat (win_window_size w)" "cell plen_host w (slot_of w d) = Some p"
  shows "seq_num p = win_base_seq w + of_nat d \<and> plen_host p \<le> unat (win_max_payload w)"
proof -
  note wf = recv_inv_wf[OF assms(1)]
  from assms(3) wf have v: "the (win_valid w) ! slot_of w d" and p: "p = win_load plen_host w (of_nat (slot_of w d))"
    by (simp_all add: cell_Some)
  show ?thesis unfolding p win_load_hdr[OF wf]
    using recv_inv_seq[OF assms(1,2) v] recv_inv_plen[OF assms(1) slot_of_less[OF wf] v] by blast
qed

text \<open>Dropping the base cell and moving the base, common to pop and skip.\<close>

definition win_drop_base :: "potr_internal_window \<Rightarrow> potr_internal_window" where
  "win_drop_base w =
    (let w1 = win_advance_base (win_set_valid w (of_nat (slot_of w 0)) False)
     in w1\<lparr>win_next_seq := win_next_seq w1 + 1\<rparr>)"

lemma win_drop_base_fields [simp]:
  "win_base_seq (win_drop_base w) = win_base_seq w + 1"
  "win_next_seq (win_drop_base w) = win_next_seq w + 1"
  "win_window_size (win_drop_base w) = win_window_size w"
  "win_max_payload (win_drop_base w) = win_max_payload w"
  "win_packets (win_drop_base w) = win_packets w"
  by (simp_all add: win_drop_base_def Let_def)

lemma win_wf_drop_base [win_simps]: "win_wf w \<Longrightarrow> win_wf (win_drop_base w)"
  by (simp add: win_drop_base_def Let_def win_simps)

lemma slot_of_drop_base [win_simps]: "win_wf w \<Longrightarrow> slot_of (win_drop_base w) d = slot_of w (Suc d)"
  by (simp add: win_drop_base_def Let_def win_simps)

lemma valid_drop_base:
  "win_wf w \<Longrightarrow> the (win_valid (win_drop_base w)) = (the (win_valid w))[slot_of w 0 := False]"
  by (simp add: win_drop_base_def Let_def valid_set_valid slot_of_u16)

lemma slot_of_last: "win_wf w \<Longrightarrow> slot_of w (unat (win_window_size w)) = slot_of w 0"
  by (simp add: slot_of_def)

lemma valid_drop_base_nth:
  assumes "win_wf w" "d < unat (win_window_size w)"
  shows "the (win_valid (win_drop_base w)) ! slot_of (win_drop_base w) d \<longleftrightarrow>
         Suc d < unat (win_window_size w) \<and> the (win_valid w) ! slot_of w (Suc d)"
proof (cases "Suc d < unat (win_window_size w)")
  case True
  then have "slot_of w (Suc d) \<noteq> slot_of w 0" using assms by (simp add: slot_of_eq)
  then show ?thesis using True assms by (simp add: valid_drop_base win_simps)
next
  case False
  then have "slot_of w (Suc d) = slot_of w 0"
    using assms slot_of_last[of w] by (metis Suc_lessI)
  then show ?thesis using False assms slot_of_less[of w 0]
    by (simp add: valid_drop_base win_simps win_wfD)
qed

lemma recv_abs_drop_base:
  assumes "win_wf w"
  shows "recv_abs (win_drop_base w) = tl (recv_abs w) @ [None]"
proof -
  have "cell plen_host (win_drop_base w) (slot_of (win_drop_base w) d) =
        (if Suc d < unat (win_window_size w) then cell plen_host w (slot_of w (Suc d)) else None)"
    if "d < unat (win_window_size w)" for d
    using valid_drop_base_nth[OF assms that]
    by (simp add: cell_def win_simps assms) (simp add: win_drop_base_def Let_def win_simps)
  note c = this
  show ?thesis unfolding recv_abs_def win_drop_base_fields
    by (rule map_upt_shift_None) (use win_wfD(1)[OF assms] in \<open>simp_all add: c\<close>)
qed

lemma recv_inv_drop_base:
  assumes "recv_inv w"
  shows "recv_inv (win_drop_base w)"
proof (rule recv_invI)
  note wf = recv_inv_wf[OF assms]
  show "win_wf (win_drop_base w)" using wf by (rule win_wf_drop_base)
  show "win_next_seq (win_drop_base w) = win_base_seq (win_drop_base w)"
    using recv_inv_next[OF assms] by simp
  fix d assume d: "d < unat (win_window_size (win_drop_base w))"
    and v: "the (win_valid (win_drop_base w)) ! slot_of (win_drop_base w) d"
  with wf have "Suc d < unat (win_window_size w)" "the (win_valid w) ! slot_of w (Suc d)"
    by (simp_all add: valid_drop_base_nth)
  then show "plen_host (the (win_packets (win_drop_base w)) ! slot_of (win_drop_base w) d) \<le>
        unat (win_max_payload (win_drop_base w)) \<and>
      seq_num (the (win_packets (win_drop_base w)) ! slot_of (win_drop_base w) d) =
        win_base_seq (win_drop_base w) + of_nat d"
    using recv_inv_seq[OF assms, of "Suc d"] recv_inv_plen[OF assms slot_of_less[OF wf, of "Suc d"]] wf
    by (simp add: win_simps)
qed

lemma recv_abs_put:
  assumes "recv_inv w" "d < unat (win_window_size w)" "fits_recv w p"
  shows "recv_abs (win_put plen_host w d p) = (recv_abs w)[d := Some p]"
proof -
  note wf = recv_inv_wf[OF assms(1)]
  have other: "cell plen_host (win_put plen_host w d p) (slot_of w e) = cell plen_host w (slot_of w e)"
    if "e < unat (win_window_size w)" "e \<noteq> d" for e
  proof (cases "the (win_valid w) ! slot_of w e")
    case True
    have "slot_of w d \<noteq> slot_of w e" using slot_of_eq[OF wf assms(2) that(1)] that(2) by simp
    then show ?thesis
      using True that valid_put_nth[OF wf assms(2) that(1)] assms(3)
        win_load_put_other[OF wf, of d e plen_host p] recv_inv_plen[OF assms(1) slot_of_less[OF wf] True]
      by (simp add: cell_def fits_recv_def)
  next
    case False
    then show ?thesis using that valid_put_nth[OF wf assms(2) that(1)] by (simp add: cell_def)
  qed
  have same: "cell plen_host (win_put plen_host w d p) (slot_of w d) = Some p"
    using valid_put_nth[OF wf assms(2,2)] win_load_put_same[OF wf, of plen_host p d] assms(3)
    by (simp add: cell_def fits_recv_def)
  show ?thesis
    unfolding recv_abs_def slot_of_put win_put_fields
    by (rule map_upt_update) (use assms(2) other same in auto)
qed

lemma recv_inv_put:
  assumes "recv_inv w" "d < unat (win_window_size w)" "fits_recv w p" "seq_num p = win_base_seq w + of_nat d"
  shows "recv_inv (win_put plen_host w d p)"
proof (rule recv_invI)
  note wf = recv_inv_wf[OF assms(1)]
  show "win_wf (win_put plen_host w d p)" using wf assms(3) by (simp add: win_simps fits_recv_def)
  show "win_next_seq (win_put plen_host w d p) = win_base_seq (win_put plen_host w d p)"
    using recv_inv_next[OF assms(1)] by simp
  fix e assume e: "e < unat (win_window_size (win_put plen_host w d p))"
    and v: "the (win_valid (win_put plen_host w d p)) ! slot_of (win_put plen_host w d p) e"
  then have e': "e < unat (win_window_size w)" by simp
  show "plen_host (the (win_packets (win_put plen_host w d p)) ! slot_of (win_put plen_host w d p) e) \<le>
        unat (win_max_payload (win_put plen_host w d p)) \<and>
      seq_num (the (win_packets (win_put plen_host w d p)) ! slot_of (win_put plen_host w d p) e) =
        win_base_seq (win_put plen_host w d p) + of_nat e"
  proof (cases "e = d")
    case True
    then show ?thesis using assms(3,4) slot_of_less[OF wf]
      by (simp add: packets_put[OF wf] win_wfD[OF wf] fits_recv_def slot_of_put)
  next
    case False
    then have "slot_of w d \<noteq> slot_of w e" using slot_of_eq[OF wf assms(2) e'] by simp
    moreover have "the (win_valid w) ! slot_of w e"
      using v False valid_put_nth[OF wf assms(2) e'] by (simp add: slot_of_put)
    ultimately show ?thesis
      using recv_inv_seq[OF assms(1) e'] recv_inv_plen[OF assms(1) slot_of_less[OF wf]]
      by (simp add: packets_put[OF wf] slot_of_put)
  qed
qed

subsection \<open>The operations on cells\<close>

lemma recv_push_spec:
  assumes "recv_inv w" "fits_recv w p"
  defines "d \<equiv> unat (seq_num p - win_base_seq w)"
  shows "window_recv_push w p =
    (if d < unat (win_window_size w)
     then (POTR_OK, if recv_abs w ! d = None then win_put plen_host w d p else w)
     else (POTR_ERR_OUT_OF_WINDOW, w))"
proof (cases "d < unat (win_window_size w)")
  case True
  note wf = recv_inv_wf[OF assms(1)]
  have "win_index w (seq_num p) = of_nat (slot_of w d)"
    using win_index_eq[OF wf, of "seq_num p"] True unat_u16_less[of "win_window_size w"] by (simp add: d_def)
  moreover have "seqnum_in_window (seq_num p) (win_base_seq w) (win_window_size w)"
    using True by (simp add: seqnum_in_window_iff d_def)
  moreover have "recv_abs w ! d = None \<longleftrightarrow> \<not> the (win_valid w) ! slot_of w d"
    using True by (simp add: recv_abs_nth cell_def)
  ultimately show ?thesis
    using True by (simp add: window_recv_push_def win_valid_at_slot[OF wf] win_put_def Let_def)
next
  case False
  then show ?thesis by (simp add: window_recv_push_def seqnum_in_window_iff d_def)
qed

lemma recv_index_next: "recv_inv w \<Longrightarrow> win_index w (win_next_seq w) = of_nat (slot_of w 0)"
  by (simp add: recv_inv_next win_index_eq recv_inv_wf)

lemma recv_abs_hd: "recv_inv w \<Longrightarrow> hd (recv_abs w) = cell plen_host w (slot_of w 0)"
  using win_wfD(1)[OF recv_inv_wf, of w] recv_abs_nth[of 0 w] by (simp add: hd_conv_nth flip: length_greater_0_conv)

lemma recv_pop_spec:
  assumes "recv_inv w"
  shows "window_recv_pop w =
    (case hd (recv_abs w) of None \<Rightarrow> (Inl POTR_ERR_EMPTY, w) | Some p \<Rightarrow> (Inr p, win_drop_base w))"
  using assms recv_inv_wf[OF assms]
  by (simp add: window_recv_pop_def recv_index_next recv_abs_hd cell_def win_valid_at_slot win_drop_base_def Let_def)

lemma recv_skip_spec:
  assumes "recv_inv w"
  shows "window_recv_skip w seq = (if seq = win_base_seq w then win_drop_base w else w)"
  using assms recv_index_next[OF assms] by (auto simp: window_recv_skip_def win_drop_base_def recv_inv_next)

lemma recv_has_packet_spec:
  assumes "recv_inv w"
  shows "window_recv_has_packet w seq \<longleftrightarrow>
    unat (seq - win_base_seq w) < unat (win_window_size w) \<and> recv_abs w ! unat (seq - win_base_seq w) \<noteq> None"
proof -
  note wf = recv_inv_wf[OF assms]
  have "win_valid w \<noteq> None" "win_window_size w \<noteq> 0" using wf by (auto simp: win_wf_def)
  then show ?thesis
    using win_index_eq[OF wf, of seq] unat_u16_less[of "win_window_size w"]
    by (auto simp: window_recv_has_packet_def seqnum_in_window_iff recv_abs_nth cell_def win_valid_at_slot[OF wf])
qed

lemma recv_needs_nack_spec:
  assumes "recv_inv w"
  shows "window_recv_needs_nack w =
    (if hd (recv_abs w) = None \<and> (\<exists>d. 0 < d \<and> d < unat (win_window_size w) \<and> recv_abs w ! d \<noteq> None)
     then Some (win_base_seq w) else None)"
proof -
  note wf = recv_inv_wf[OF assms]
  have "win_valid_at w (win_index w (win_next_seq w + of_nat d)) \<longleftrightarrow> recv_abs w ! d \<noteq> None"
    if "d < unat (win_window_size w)" for d
  proof -
    have "unat (win_next_seq w + of_nat d - win_base_seq w) = d"
      using that unat_u16_less[of "win_window_size w"] by (simp add: recv_inv_next[OF assms] unat_of_nat_u32)
    then show ?thesis
      using win_index_eq[OF wf, of "win_next_seq w + of_nat d"] that unat_u16_less[of "win_window_size w"]
      by (simp add: win_valid_at_slot[OF wf] recv_abs_nth cell_def)
  qed
  then show ?thesis
    using recv_index_next[OF assms]
    by (auto simp: window_recv_needs_nack_def list_ex_upt recv_abs_hd[OF assms] cell_def win_valid_at_slot[OF wf]
        recv_inv_next[OF assms] Suc_le_eq)
qed

lemma fits_recv_drop [simp]: "fits_recv (win_drop_base w) p = fits_recv w p"
  by (simp add: fits_recv_def)

lemma fits_recv_put [simp]: "fits_recv (win_put plen w d q) p = fits_recv w p"
  by (simp add: fits_recv_def)

lemma recv_push_inv: "recv_inv w \<Longrightarrow> fits_recv w p \<Longrightarrow> recv_inv (snd (window_recv_push w p))"
  by (auto simp: recv_push_spec intro!: recv_inv_put)

lemma recv_pop_inv: "recv_inv w \<Longrightarrow> recv_inv (snd (window_recv_pop w))"
  by (simp add: recv_pop_spec recv_inv_drop_base split: option.split)

lemma recv_skip_inv: "recv_inv w \<Longrightarrow> recv_inv (window_recv_skip w seq)"
  by (simp add: recv_skip_spec recv_inv_drop_base)

subsection \<open>Initialisation\<close>

lemma recv_inv_cleared:
  assumes "win_wf w" "win_next_seq w = win_base_seq w" "the (win_valid w) = replicate (unat (win_window_size w)) False"
  shows "recv_inv w \<and> recv_abs w = replicate (unat (win_window_size w)) None"
proof
  show "recv_inv w" by (rule recv_invI) (use assms slot_of_less[OF assms(1)] in auto)
  show "recv_abs w = replicate (unat (win_window_size w)) None"
    by (rule nth_equalityI) (use assms(3) slot_of_less[OF assms(1)] in \<open>auto simp: recv_abs_nth cell_def\<close>)
qed

lemma window_init_recv:
  assumes "win_init_pre w" "0 < unat ws" "window_init E w s ws mp = (POTR_OK, w')"
  shows "recv_inv w' \<and> recv_abs w' = replicate (unat ws) None \<and> win_base_seq w' = s"
  using window_init_wf[OF assms] recv_inv_cleared[of w'] by simp

lemma window_reinit:
  assumes "win_wf w" "win_window_size w = ws" "win_max_payload w = mp"
  shows "\<exists>w'. window_init E w s ws mp = (POTR_OK, w')"
  using assms by (auto simp: window_init_def win_wf_def)

lemma recv_reset_spec:
  assumes "win_wf w"
  shows "recv_inv (window_recv_reset w s) \<and> win_base_seq (window_recv_reset w s) = s \<and>
    recv_abs (window_recv_reset w s) = replicate (unat (win_window_size w)) None"
  using assms recv_inv_cleared[of "window_recv_reset w s"]
  by (auto simp: window_recv_reset_def win_wf_def)

section \<open>The contract of a reorder buffer\<close>

text \<open>
  What the receive path relies on: the state abstracts to the next expected sequence
  number and one cell per sequence number of the window; a push fills an empty cell of
  the window, a pop hands out and removes the first cell.
\<close>

locale reorder_buffer =
  fixes inv :: "'s \<Rightarrow> bool"
    and fits :: "'s \<Rightarrow> potr_packet \<Rightarrow> bool"
    and base :: "'s \<Rightarrow> u32"
    and cells :: "'s \<Rightarrow> potr_packet option list"
    and push :: "'s \<Rightarrow> potr_packet \<Rightarrow> potr_result \<times> 's"
    and pop :: "'s \<Rightarrow> (potr_result + potr_packet) \<times> 's"
  assumes nonempty: "inv s \<Longrightarrow> cells s \<noteq> [] \<and> length (cells s) < 65536"
    and push_in: "inv s \<Longrightarrow> fits s p \<Longrightarrow> unat (seq_num p - base s) < length (cells s) \<Longrightarrow>
        push s p = (r, s') \<Longrightarrow> inv s' \<and> base s' = base s \<and> r = POTR_OK \<and> fits s' = fits s \<and>
        cells s' = (let d = unat (seq_num p - base s)
                    in if cells s ! d = None then (cells s)[d := Some p] else cells s)"
    and push_out: "inv s \<Longrightarrow> fits s p \<Longrightarrow> \<not> unat (seq_num p - base s) < length (cells s) \<Longrightarrow>
        push s p = (POTR_ERR_OUT_OF_WINDOW, s)"
    and pop_empty: "inv s \<Longrightarrow> hd (cells s) = None \<Longrightarrow> pop s = (Inl POTR_ERR_EMPTY, s)"
    and pop_first: "inv s \<Longrightarrow> hd (cells s) = Some p \<Longrightarrow> pop s = (q, s') \<Longrightarrow>
        q = Inr p \<and> inv s' \<and> base s' = base s + 1 \<and> fits s' = fits s \<and> cells s' = tl (cells s) @ [None]"

text \<open>
  A run of arrivals and deliveries against a stream \<open>m\<close> of packets, where packet \<open>i\<close>
  carries sequence number \<open>b + i\<close>.  An arrival is any packet of the stream, in any order
  and any number of times, as long as it is not so old or so far ahead that its 32-bit
  sequence number denotes a different packet of the current window.
\<close>

inductive rx_run ::
  "('s \<Rightarrow> potr_packet \<Rightarrow> potr_result \<times> 's) \<Rightarrow> ('s \<Rightarrow> (potr_result + potr_packet) \<times> 's) \<Rightarrow>
   (nat \<Rightarrow> potr_packet) \<Rightarrow> nat \<Rightarrow> 's \<Rightarrow> potr_packet list \<Rightarrow> 's \<Rightarrow> bool"
  for push pop m n s
where
  rx_start: "rx_run push pop m n s [] s"
| rx_arrive: "rx_run push pop m n s out s1 \<Longrightarrow> length out + n \<le> i + 4294967296 \<Longrightarrow>
    i < length out + 4294967296 \<Longrightarrow> push s1 (m i) = (r, s2) \<Longrightarrow> rx_run push pop m n s out s2"
| rx_deliver: "rx_run push pop m n s out s1 \<Longrightarrow> pop s1 = (Inr p, s2) \<Longrightarrow>
    rx_run push pop m n s (out @ [p]) s2"

context reorder_buffer
begin

lemma rx_run_stream:
  assumes "rx_run push pop m (length (cells s)) s out s'"
    and "inv s" "set (cells s) \<subseteq> {None}" "\<forall>i. fits s (m i) \<and> seq_num (m i) = base s + of_nat i"
  shows "inv s' \<and> fits s' = fits s \<and> length (cells s') = length (cells s) \<and>
    base s' = base s + of_nat (length out) \<and> out = map m [0..<length out] \<and>
    (\<forall>d<length (cells s). cells s' ! d \<noteq> None \<longrightarrow> cells s' ! d = Some (m (length out + d)))"
  using assms
proof (induction rule: rx_run.induct)
  case rx_start
  then have "cells s ! d = None" if "d < length (cells s)" for d
    using that nth_mem[OF that] by blast
  then show ?case using rx_start by simp
next
  case (rx_arrive out s1 i r s2)
  then have IH: "inv s1" "fits s1 = fits s" "length (cells s1) = length (cells s)"
    "base s1 = base s + of_nat (length out)" "out = map m [0..<length out]"
    "\<forall>d<length (cells s). cells s1 ! d \<noteq> None \<longrightarrow> cells s1 ! d = Some (m (length out + d))"
    by auto
  have m: "fits s1 (m i)" "seq_num (m i) = base s + of_nat i" using rx_arrive.prems IH by auto
  show ?case
  proof (cases "unat (seq_num (m i) - base s1) < length (cells s1)")
    case False
    with push_out[OF IH(1) m(1)] rx_arrive.hyps IH show ?thesis by simp
  next
    case True
    have small: "length (cells s) < 65536" using nonempty[OF IH(1)] IH(3) by simp
    have off: "unat (seq_num (m i) - base s1) = i - length out \<and> length out \<le> i"
    proof -
      have w: "seq_num (m i) - base s1 = of_nat i - of_nat (length out)" using m(2) IH(4) by simp
      have "length out \<le> i"
      proof (rule ccontr)
        assume old: "\<not> length out \<le> i"
        then have "unat (seq_num (m i) - base s1) = 4294967296 - (length out - i)"
          using w rx_arrive.hyps(2) by (simp only:) (rule unat_diff_behind, linarith+)
        then show False using old True IH(3) rx_arrive.hyps(2) by linarith
      qed
      then show ?thesis using w rx_arrive.hyps(3) unat_diff_ahead[of "length out" i] by (simp only:)
    qed
    have "inv s2 \<and> base s2 = base s1 \<and> fits s2 = fits s1 \<and>
        cells s2 = (let d = unat (seq_num (m i) - base s1)
                    in if cells s1 ! d = None then (cells s1)[d := Some (m i)] else cells s1)"
      using push_in[OF IH(1) m(1) True rx_arrive.hyps(4)] by simp
    then have s2: "inv s2" "base s2 = base s1" "fits s2 = fits s1"
      "cells s2 = (if cells s1 ! (i - length out) = None then (cells s1)[i - length out := Some (m i)] else cells s1)"
      using off by (simp_all add: Let_def)
    have "cells s2 ! d \<noteq> None \<longrightarrow> cells s2 ! d = Some (m (length out + d))" if "d < length (cells s)" for d
      using IH(3,6) off that by (cases "d = i - length out") (auto simp: s2(4))
    then show ?thesis using IH s2 by simp
  qed
next
  case (rx_deliver out s1 p s2)
  then have IH: "inv s1" "fits s1 = fits s" "length (cells s1) = length (cells s)"
    "base s1 = base s + of_nat (length out)" "out = map m [0..<length out]"
    "\<forall>d<length (cells s). cells s1 ! d \<noteq> None \<longrightarrow> cells s1 ! d = Some (m (length out + d))"
    by auto
  have ne: "cells s1 \<noteq> []" using nonempty[OF IH(1)] by simp
  have hd: "hd (cells s1) = Some p"
  proof (cases "hd (cells s1)")
    case None
    with pop_empty[OF IH(1)] rx_deliver.hyps(2) show ?thesis by simp
  next
    case (Some q)
    with pop_first[OF IH(1) Some rx_deliver.hyps(2)] show ?thesis by simp
  qed
  then have p: "p = m (length out)"
    using IH(3) spec[OF IH(6), of 0] ne by (simp add: hd_conv_nth flip: length_greater_0_conv)
  have s2: "inv s2" "base s2 = base s1 + 1" "fits s2 = fits s1" "cells s2 = tl (cells s1) @ [None]"
    using pop_first[OF IH(1) hd rx_deliver.hyps(2)] by auto
  have "cells s2 ! d \<noteq> None \<longrightarrow> cells s2 ! d = Some (m (Suc (length out + d)))" if "d < length (cells s)" for d
    using that IH(3) spec[OF IH(6), of "Suc d"] s2(4) ne by (auto simp: nth_append nth_tl)
  moreover have "out @ [p] = map m [0..<length (out @ [p])]" using IH(5) p by simp
  moreover have "length (cells s2) = length (cells s)"
    using IH(3) s2(4) ne by (simp flip: length_greater_0_conv)
  ultimately show ?case using IH s2 by simp
qed

end

text \<open>The receive window meets the contract.\<close>

lemma recv_abs_ne: "recv_inv w \<Longrightarrow> recv_abs w \<noteq> []"
  using win_wfD(1)[OF recv_inv_wf, of w] by (simp flip: length_greater_0_conv)

interpretation rb: reorder_buffer recv_inv fits_recv win_base_seq recv_abs window_recv_push window_recv_pop
proof
  fix s assume "recv_inv s"
  then show "recv_abs s \<noteq> [] \<and> length (recv_abs s) < 65536" by (simp add: recv_abs_ne unat_u16_less)
next
  fix s p r s'
  assume *: "recv_inv s" "fits_recv s p" "unat (seq_num p - win_base_seq s) < length (recv_abs s)"
    "window_recv_push s p = (r, s')"
  then have "recv_inv s'" using recv_push_inv[of s p] by simp
  with * show "recv_inv s' \<and> win_base_seq s' = win_base_seq s \<and> r = POTR_OK \<and> fits_recv s' = fits_recv s \<and>
      recv_abs s' = (let d = unat (seq_num p - win_base_seq s)
        in if recv_abs s ! d = None then (recv_abs s)[d := Some p] else recv_abs s)"
    by (auto simp: recv_push_spec recv_abs_put Let_def fun_eq_iff split: if_splits)
next
  fix s p q s'
  assume *: "recv_inv s" "hd (recv_abs s) = Some p" "window_recv_pop s = (q, s')"
  then show "q = Inr p \<and> recv_inv s' \<and> win_base_seq s' = win_base_seq s + 1 \<and> fits_recv s' = fits_recv s \<and>
      recv_abs s' = tl (recv_abs s) @ [None]"
    by (auto simp: recv_pop_spec recv_inv_drop_base recv_abs_drop_base recv_inv_wf fun_eq_iff)
qed (auto simp: recv_push_spec recv_pop_spec)

section \<open>Properties\<close>

text \<open>An executable run, for examples.\<close>

datatype rx_op = Arrive nat | Deliver

fun rx_exec ::
  "('s \<Rightarrow> potr_packet \<Rightarrow> potr_result \<times> 's) \<Rightarrow> ('s \<Rightarrow> (potr_result + potr_packet) \<times> 's) \<Rightarrow>
   (nat \<Rightarrow> potr_packet) \<Rightarrow> nat \<Rightarrow> rx_op list \<Rightarrow> potr_packet list \<times> 's \<Rightarrow> (potr_packet list \<times> 's) option"
where
  "rx_exec push pop m n [] st = Some st"
| "rx_exec push pop m n (Arrive i # ops) (out, s) =
    (if length out + n \<le> i + 4294967296 \<and> i < length out + 4294967296
     then rx_exec push pop m n ops (out, snd (push s (m i))) else None)"
| "rx_exec push pop m n (Deliver # ops) (out, s) =
    (case pop s of (Inr p, s') \<Rightarrow> rx_exec push pop m n ops (out @ [p], s') | (Inl _, _) \<Rightarrow> None)"

lemma rx_exec_run:
  assumes "rx_exec push pop m n ops (out, s1) = Some (out', s')" "rx_run push pop m n s out s1"
  shows "rx_run push pop m n s out' s'"
  using assms
proof (induction push pop m n ops "(out, s1)" arbitrary: out s1 rule: rx_exec.induct)
  case (2 push pop m n i ops out s)
  then show ?case by (cases "push s (m i)") (auto intro: rx_arrive split: if_splits)
next
  case (3 push pop m n ops out s)
  then show ?case by (cases "pop s") (auto intro: rx_deliver split: sum.splits)
qed auto

text \<open>
  C3: In-order, exactly-once delivery.  Start from a window initialised at sequence number
  \<open>b\<close> and let packets of a stream (packet \<open>i\<close> numbered \<open>b + i\<close>, wrapping at 32 bits) arrive in
  any order, with losses and duplicates, interleaved with pops.  What the pops have handed
  out is at every moment a prefix of the stream, each packet once and unaltered, and the
  window expects the number after it.
\<close>

theorem recv_in_order_exactly_once:
  assumes "win_init_pre w0" "0 < unat ws" "window_init E w0 b ws mp = (POTR_OK, w)"
    and "\<forall>i. seq_num (m i) = b + of_nat i \<and> length (payload (m i)) = plen_host (m i) \<and> plen_host (m i) \<le> unat mp"
    and "rx_run window_recv_push window_recv_pop m (unat ws) w out w'"
  shows "out = map m [0..<length out] \<and> win_next_seq w' = b + of_nat (length out)"
proof -
  note i = window_init_wf[OF assms(1-3)] window_init_recv[OF assms(1-3)]
  have "rx_run window_recv_push window_recv_pop m (length (recv_abs w)) w out w'" using i assms(5) by simp
  from rb.rx_run_stream[OF this] show ?thesis
    using i assms(4) by (auto simp: fits_recv_def recv_inv_next set_replicate_conv_if)
qed

definition demo_stream :: "nat \<Rightarrow> potr_packet" where
  "demo_stream i = empty_packet\<lparr>seq_num := 0xFFFFFFFF + of_nat i, payload_len := 1, payload := [of_nat i]\<rparr>"

theorem recv_in_order_exactly_once_witness:
  "\<exists>out w'. rx_run window_recv_push window_recv_pop demo_stream 4 demo_window out w' \<and>
     length out = 2 \<and> out = map demo_stream [0..<length out] \<and> win_next_seq w' = 0xFFFFFFFF + 2"
proof -
  let ?ops = "[Arrive 1, Arrive 1, Arrive 7, Arrive 0, Deliver, Arrive 0, Deliver]"
  have "map_option (length \<circ> fst) (rx_exec window_recv_push window_recv_pop demo_stream 4 ?ops ([], demo_window)) = Some 2"
    by code_simp
  then obtain out w' where r: "rx_exec window_recv_push window_recv_pop demo_stream 4 ?ops ([], demo_window) = Some (out, w')"
    and l: "length out = 2" by auto
  have run: "rx_run window_recv_push window_recv_pop demo_stream (unat (4::u16)) demo_window out w'"
    using rx_exec_run[OF r rx_start] by simp
  have "out = map demo_stream [0..<length out] \<and> win_next_seq w' = 0xFFFFFFFF + of_nat (length out)"
    by (rule recv_in_order_exactly_once[OF demo_window_init(2) _ demo_window_init(1) _ run])
      (auto simp: demo_stream_def plen_host_def)
  with run l show ?thesis by (intro exI[of _ out] exI[of _ w']) simp
qed

end
