(* ===== verification/Slot_Step.thy ===== *)
theory Slot_Step
  imports Path_Event Recv_Buffer
begin

text \<open>
  What an operation on one slot may do.  \<open>slot_inv\<close> is the well-formedness of a slot: array
  lengths, a receive window in its invariant with the configured dimensions, a fragment buffer
  within the message limit.  \<open>local_step r\<close> relates a context to one that an operation on slot
  \<open>r\<close> may leave behind: the other slots, the peer table's bookkeeping and the configuration are
  untouched, \<open>slot_inv\<close> is kept, the trace only grows, no other peer's callback is called, and
  the application following the events of this slot ends with the slot's new path states.

  It is a preorder, so the receive path is checked operation by operation; the locale
  \<open>slot_operation\<close> states what follows for the context as a whole.
\<close>

section \<open>Definitions\<close>

definition slot_inv :: "potr_global_config \<Rightarrow> slot_state \<Rightarrow> bool" where
  "slot_inv G st \<longleftrightarrow>
     length (s_path_logical_alive st) = POTR_MAX_PATH \<and> length (s_path_ping_state st) = POTR_MAX_PATH \<and>
     length (s_remote_path_ping_state st) = POTR_MAX_PATH \<and> length (s_dest_addr st) = POTR_MAX_PATH \<and>
     length (s_path_last_recv_ts st) = POTR_MAX_PATH \<and> length (s_nack_dedup_buf st) = POTR_NACK_DEDUP_SLOTS \<and>
     s_nack_dedup_next st < POTR_NACK_DEDUP_SLOTS \<and>
     recv_inv (s_recv_window st) \<and> win_window_size (s_recv_window st) = gc_window_size G \<and>
     win_max_payload (s_recv_window st) = gc_max_payload G \<and>
     length (s_frag_buf st) \<le> unat (gc_max_message_size G)"

definition ctx_frame :: "potr_context \<Rightarrow> potr_context \<Rightarrow> bool" where
  "ctx_frame c c' \<longleftrightarrow>
     c_callback c' = c_callback c \<and> c_service c' = c_service c \<and> c_global c' = c_global c \<and>
     c_role c' = c_role c \<and> c_n_path c' = c_n_path c \<and> c_is_multi_peer c' = c_is_multi_peer c \<and>
     c_health_timeout_ms c' = c_health_timeout_ms c \<and>
     c_n_peers c' = c_n_peers c \<and> c_next_peer_id c' = c_next_peer_id c \<and>
     map p_peer_id (c_peers c') = map p_peer_id (c_peers c) \<and>
     map p_active (c_peers c') = map p_active (c_peers c)"

definition trace_step :: "slot_ref \<Rightarrow> potr_context \<Rightarrow> potr_context \<Rightarrow> bool" where
  "trace_step r c c' \<longleftrightarrow> (\<exists>xs. c_trace c' = c_trace c @ xs \<and>
     (\<forall>pid. pid \<noteq> slot_peer_id c r \<longrightarrow> events_of pid xs = []) \<and>
     (c_callback c \<longrightarrow> view_run (view_of (get_slot c r)) (events_of (slot_peer_id c r) xs) =
        Some (view_of (get_slot c' r))))"

definition local_step :: "slot_ref \<Rightarrow> potr_context \<Rightarrow> potr_context \<Rightarrow> bool" where
  "local_step r c c' \<longleftrightarrow> (slot_ok c r \<and> slot_inv (c_global c) (get_slot c r) \<longrightarrow>
     ctx_frame c c' \<and> (\<forall>r'. r' \<noteq> r \<longrightarrow> get_slot c' r' = get_slot c r') \<and>
     slot_inv (c_global c) (get_slot c' r) \<and> trace_step r c c')"

section \<open>Frames\<close>

text \<open>Fields that the invariant or the application's view do not mention.\<close>

lemma slot_inv_fields [simp, frame_simps]:
  "slot_inv G (st\<lparr>s_session_id := x0\<rparr>) = slot_inv G st"
  "slot_inv G (st\<lparr>s_session_ts := x1\<rparr>) = slot_inv G st"
  "slot_inv G (st\<lparr>s_peer_session_id := x2\<rparr>) = slot_inv G st"
  "slot_inv G (st\<lparr>s_peer_session_ts := x3\<rparr>) = slot_inv G st"
  "slot_inv G (st\<lparr>s_peer_session_known := x4\<rparr>) = slot_inv G st"
  "slot_inv G (st\<lparr>s_send_window := x5\<rparr>) = slot_inv G st"
  "slot_inv G (st\<lparr>s_send_has_data := x6\<rparr>) = slot_inv G st"
  "slot_inv G (st\<lparr>s_frag_compressed := x7\<rparr>) = slot_inv G st"
  "slot_inv G (st\<lparr>s_health_alive := x8\<rparr>) = slot_inv G st"
  "slot_inv G (st\<lparr>s_last_recv_ts := x9\<rparr>) = slot_inv G st"
  "slot_inv G (st\<lparr>s_reorder_pending := x10\<rparr>) = slot_inv G st"
  "slot_inv G (st\<lparr>s_reorder_nack_num := x11\<rparr>) = slot_inv G st"
  "slot_inv G (st\<lparr>s_reorder_deadline_ts := x12\<rparr>) = slot_inv G st"
  "slot_inv G (st\<lparr>s_pending_fin := x13\<rparr>) = slot_inv G st"
  "slot_inv G (st\<lparr>s_fin_target_seq := x14\<rparr>) = slot_inv G st"
  by (simp_all add: slot_inv_def)

lemma slot_inv_lists [intro, frame_simps]:
  "slot_inv G st \<Longrightarrow> length a = POTR_MAX_PATH \<Longrightarrow> slot_inv G (st\<lparr>s_path_ping_state := a\<rparr>)"
  "slot_inv G st \<Longrightarrow> length b = POTR_MAX_PATH \<Longrightarrow> slot_inv G (st\<lparr>s_remote_path_ping_state := b\<rparr>)"
  "slot_inv G st \<Longrightarrow> length d = POTR_MAX_PATH \<Longrightarrow> slot_inv G (st\<lparr>s_dest_addr := d\<rparr>)"
  "slot_inv G st \<Longrightarrow> length e = POTR_MAX_PATH \<Longrightarrow> slot_inv G (st\<lparr>s_path_last_recv_ts := e\<rparr>)"
  "slot_inv G st \<Longrightarrow> length f = POTR_MAX_PATH \<Longrightarrow> slot_inv G (st\<lparr>s_path_logical_alive := f\<rparr>)"
  "slot_inv G st \<Longrightarrow> length g \<le> unat (gc_max_message_size G) \<Longrightarrow> slot_inv G (st\<lparr>s_frag_buf := g\<rparr>)"
  by (simp_all add: slot_inv_def)

lemma slot_inv_lengths:
  "slot_inv G st \<Longrightarrow> length (s_path_logical_alive st) = POTR_MAX_PATH"
  "slot_inv G st \<Longrightarrow> length (s_path_ping_state st) = POTR_MAX_PATH"
  "slot_inv G st \<Longrightarrow> length (s_remote_path_ping_state st) = POTR_MAX_PATH"
  "slot_inv G st \<Longrightarrow> length (s_dest_addr st) = POTR_MAX_PATH"
  "slot_inv G st \<Longrightarrow> length (s_path_last_recv_ts st) = POTR_MAX_PATH"
  "slot_inv G st \<Longrightarrow> length (s_nack_dedup_buf st) = POTR_NACK_DEDUP_SLOTS"
  "slot_inv G st \<Longrightarrow> length (s_frag_buf st) \<le> unat (gc_max_message_size G)"
  by (simp_all add: slot_inv_def)

lemma view_of_fields [simp, frame_simps]:
  "view_of (st\<lparr>s_session_id := x0\<rparr>) = view_of st"
  "view_of (st\<lparr>s_session_ts := x1\<rparr>) = view_of st"
  "view_of (st\<lparr>s_peer_session_id := x2\<rparr>) = view_of st"
  "view_of (st\<lparr>s_peer_session_ts := x3\<rparr>) = view_of st"
  "view_of (st\<lparr>s_peer_session_known := x4\<rparr>) = view_of st"
  "view_of (st\<lparr>s_send_window := x5\<rparr>) = view_of st"
  "view_of (st\<lparr>s_send_has_data := x6\<rparr>) = view_of st"
  "view_of (st\<lparr>s_frag_compressed := x7\<rparr>) = view_of st"
  "view_of (st\<lparr>s_last_recv_ts := x8\<rparr>) = view_of st"
  "view_of (st\<lparr>s_reorder_pending := x9\<rparr>) = view_of st"
  "view_of (st\<lparr>s_reorder_nack_num := x10\<rparr>) = view_of st"
  "view_of (st\<lparr>s_reorder_deadline_ts := x11\<rparr>) = view_of st"
  "view_of (st\<lparr>s_pending_fin := x12\<rparr>) = view_of st"
  "view_of (st\<lparr>s_fin_target_seq := x13\<rparr>) = view_of st"
  "view_of (st\<lparr>s_recv_window := x14\<rparr>) = view_of st"
  "view_of (st\<lparr>s_frag_buf := x15\<rparr>) = view_of st"
  "view_of (st\<lparr>s_path_ping_state := x16\<rparr>) = view_of st"
  "view_of (st\<lparr>s_remote_path_ping_state := x17\<rparr>) = view_of st"
  "view_of (st\<lparr>s_nack_dedup_buf := x18\<rparr>) = view_of st"
  "view_of (st\<lparr>s_nack_dedup_next := x19\<rparr>) = view_of st"
  "view_of (st\<lparr>s_dest_addr := x20\<rparr>) = view_of st"
  "view_of (st\<lparr>s_path_last_recv_ts := x21\<rparr>) = view_of st"
  by (simp_all add: view_of_def)

lemma ctx_frame_refl [simp]: "ctx_frame c c"
  by (simp add: ctx_frame_def)

lemma ctx_frame_trans: "ctx_frame a b \<Longrightarrow> ctx_frame b c \<Longrightarrow> ctx_frame a c"
  by (simp add: ctx_frame_def)

lemma ctx_frame_ok: "ctx_frame c c' \<Longrightarrow> slot_ok c' r = slot_ok c r"
  by (cases r) (auto simp: ctx_frame_def dest: map_eq_imp_length_eq)

lemma ctx_frame_peer_id:
  assumes "ctx_frame c c'" "slot_ok c r"
  shows "slot_peer_id c' r = slot_peer_id c r"
proof (cases r)
  case (PeerSlot i)
  have m: "map p_peer_id (c_peers c') = map p_peer_id (c_peers c)" using assms(1) by (simp add: ctx_frame_def)
  have l: "length (c_peers c') = length (c_peers c)" using m by (rule map_eq_imp_length_eq)
  have "map p_peer_id (c_peers c') ! i = map p_peer_id (c_peers c) ! i" by (simp only: m)
  then show ?thesis using assms(2) l PeerSlot by simp
qed simp

lemma ctx_frame_put [simp]: "ctx_frame c (put_slot c r st)"
proof (cases r)
  case (PeerSlot i)
  then show ?thesis
    by (cases "i < length (c_peers c)") (auto simp: ctx_frame_def map_update list_update_same_conv intro!: nth_equalityI)
qed (simp add: ctx_frame_def)

lemma get_put_other: "r' \<noteq> r \<Longrightarrow> get_slot (put_slot c r st) r' = get_slot c r'"
  by (cases r; cases r') (auto simp: nth_list_update)

section \<open>Steps compose\<close>

lemma trace_step_refl: "c_trace c' = c_trace c \<Longrightarrow> view_of (get_slot c' r) = view_of (get_slot c r) \<Longrightarrow> trace_step r c c'"
  by (simp add: trace_step_def)

lemma trace_step_trans:
  assumes "trace_step r a b" "trace_step r b c" "ctx_frame a b" "slot_ok a r"
  shows "trace_step r a c"
proof -
  have p: "slot_peer_id b r = slot_peer_id a r" using assms(3,4) by (rule ctx_frame_peer_id)
  have cb: "c_callback b = c_callback a" using assms(3) by (simp add: ctx_frame_def)
  from assms(1,2) obtain xs ys where
    x: "c_trace b = c_trace a @ xs" "\<forall>pid. pid \<noteq> slot_peer_id a r \<longrightarrow> events_of pid xs = []"
      "c_callback a \<longrightarrow> view_run (view_of (get_slot a r)) (events_of (slot_peer_id a r) xs) = Some (view_of (get_slot b r))"
    and y: "c_trace c = c_trace b @ ys" "\<forall>pid. pid \<noteq> slot_peer_id a r \<longrightarrow> events_of pid ys = []"
      "c_callback a \<longrightarrow> view_run (view_of (get_slot b r)) (events_of (slot_peer_id a r) ys) = Some (view_of (get_slot c r))"
    unfolding trace_step_def p cb by blast
  show ?thesis unfolding trace_step_def
    by (rule exI[of _ "xs @ ys"]) (use x y in \<open>simp add: view_run_append\<close>)
qed

lemma local_step_refl [simp, intro]: "local_step r c c"
  by (auto simp: local_step_def intro: trace_step_refl)

lemma local_stepD:
  assumes "local_step r c c'" "slot_ok c r" "slot_inv (c_global c) (get_slot c r)"
  shows "ctx_frame c c'" "\<And>r'. r' \<noteq> r \<Longrightarrow> get_slot c' r' = get_slot c r'" "slot_inv (c_global c) (get_slot c' r)"
    "trace_step r c c'" "slot_ok c' r" "c_global c' = c_global c" "slot_inv (c_global c') (get_slot c' r)"
proof -
  show f: "ctx_frame c c'" "slot_inv (c_global c) (get_slot c' r)" "trace_step r c c'"
    and "\<And>r'. r' \<noteq> r \<Longrightarrow> get_slot c' r' = get_slot c r'"
    using assms by (simp_all add: local_step_def)
  show "slot_ok c' r" using assms(2) ctx_frame_ok[OF f(1)] by simp
  show g: "c_global c' = c_global c" using f(1) by (simp add: ctx_frame_def)
  show "slot_inv (c_global c') (get_slot c' r)" unfolding g by (rule f(2))
qed

lemma local_step_trans [trans]:
  assumes "local_step r a b" "local_step r b c"
  shows "local_step r a c"
  unfolding local_step_def
proof (intro impI, elim conjE)
  assume ok: "slot_ok a r" and inv: "slot_inv (c_global a) (get_slot a r)"
  note ab = local_stepD[OF assms(1) ok inv]
  note bc = local_stepD[OF assms(2) ab(5) ab(7)]
  show "ctx_frame a c \<and> (\<forall>r'. r' \<noteq> r \<longrightarrow> get_slot c r' = get_slot a r') \<and>
     slot_inv (c_global a) (get_slot c r) \<and> trace_step r a c"
    using ctx_frame_trans[OF ab(1) bc(1)] bc(3) ab(2,6) bc(2) trace_step_trans[OF ab(4) bc(4) ab(1) ok] by simp
qed

text \<open>A step may be proved under the invariant it starts from.\<close>

lemma local_step_inv:
  assumes "slot_ok c r \<Longrightarrow> slot_inv (c_global c) (get_slot c r) \<Longrightarrow> local_step r c c'"
  shows "local_step r c c'"
  using assms by (auto simp: local_step_def)

lemma local_step_seq:
  assumes "local_step r a b"
    "slot_ok b r \<Longrightarrow> slot_inv (c_global b) (get_slot b r) \<Longrightarrow> local_step r b c"
  shows "local_step r a c"
  using assms(1) local_step_inv[OF assms(2)] by (rule local_step_trans)

section \<open>Elementary steps\<close>

lemma local_step_upd:
  assumes "\<And>st. slot_inv (c_global c) st \<Longrightarrow> st = get_slot c r \<Longrightarrow>
      slot_inv (c_global c) (f st) \<and> view_of (f st) = view_of st"
  shows "local_step r c (upd_slot c r f)"
  unfolding local_step_def
proof (intro impI, elim conjE)
  assume ok: "slot_ok c r" and inv: "slot_inv (c_global c) (get_slot c r)"
  have g: "get_slot (upd_slot c r f) r = f (get_slot c r)" using ok by simp
  have "trace_step r c (upd_slot c r f)"
    by (rule trace_step_refl) (use assms[OF inv refl] g in simp_all)
  then show "ctx_frame c (upd_slot c r f) \<and> (\<forall>r'. r' \<noteq> r \<longrightarrow> get_slot (upd_slot c r f) r' = get_slot c r') \<and>
     slot_inv (c_global c) (get_slot (upd_slot c r f) r) \<and> trace_step r c (upd_slot c r f)"
    unfolding g using assms[OF inv refl] by (simp add: upd_slot_def get_put_other)
qed

text \<open>Steps that leave all slots alone: effects other than callbacks, ticks, learned ports.\<close>

lemma local_step_frame:
  assumes "ctx_frame c c'" "\<And>r'. get_slot c' r' = get_slot c r'" "c_trace c' = c_trace c @ xs"
    "\<And>pid. events_of pid xs = []"
  shows "local_step r c c'"
  unfolding local_step_def trace_step_def using assms by (auto intro!: exI[of _ xs])

lemma local_step_tick [simp, intro]: "local_step r c (c\<lparr>c_tick := n\<rparr>)"
  by (rule local_step_frame[of _ _ "[]"]) (simp_all add: ctx_frame_def)

lemma local_step_clock: "clock_get_monotonic E c = (t, c') \<Longrightarrow> local_step r c c'"
  "clock_get_monotonic_ms E c = (ms, c') \<Longrightarrow> local_step r c c'"
  by (auto simp: clock_get_monotonic_def clock_get_monotonic_ms_def)

lemma local_step_emit:
  assumes "\<And>pid. io_event pid x = []"
  shows "local_step r c (emit c x)"
  by (rule local_step_frame[of _ _ "[x]"]) (use assms in \<open>simp_all add: emit_def ctx_frame_def\<close>)

lemma local_step_sendto: "local_step r c (snd (socket_sendto E c i ep b))"
  unfolding socket_sendto_def snd_conv by (rule local_step_trans[OF local_step_emit local_step_tick]) simp

lemma local_step_send_all: "local_step r c (snd (socket_send_all E c i b))"
  unfolding socket_send_all_def snd_conv by (rule local_step_trans[OF local_step_emit local_step_tick]) simp

lemma local_step_fold:
  assumes "\<And>x c. local_step r c (f x c)"
  shows "local_step r c (fold f xs c)"
  by (induction xs arbitrary: c) (auto intro: local_step_trans assms)

section \<open>Path events and data\<close>

lemma slot_inv_path_states:
  "slot_inv G st \<Longrightarrow> length nx = POTR_MAX_PATH \<Longrightarrow>
   slot_inv G (st\<lparr>s_path_logical_alive := nx, s_health_alive := b\<rparr>)"
  by (simp add: slot_inv_def)

lemma local_step_body:
  assumes "sync_path_state_body (get_slot c r) nx = (st, prep)" "length nx = POTR_MAX_PATH"
  shows "local_step r c (emit_path_events (put_slot c r st) (slot_peer_id c r) prep)"
  unfolding local_step_def
proof (intro impI, elim conjE)
  let ?c' = "emit_path_events (put_slot c r st) (slot_peer_id c r) prep"
  let ?xs = "if c_callback c then map (Io_callback (slot_peer_id c r)) (prepared_events prep) else []"
  assume ok: "slot_ok c r" and inv: "slot_inv (c_global c) (get_slot c r)"
  have len: "length (s_path_logical_alive (get_slot c r)) = POTR_MAX_PATH" using inv by (simp add: slot_inv_def)
  note e = emit_sync[OF assms(1) ok assms(2) len]
  have c': "?c' = (put_slot c r st)\<lparr>c_trace := c_trace c @ ?xs\<rparr>" by (rule e(2))
  have "ctx_frame c ?c'"
    unfolding c' by (rule ctx_frame_trans[OF ctx_frame_put]) (simp add: ctx_frame_def)
  moreover have "\<forall>r'. r' \<noteq> r \<longrightarrow> get_slot ?c' r' = get_slot c r'"
    unfolding c' slot_trace_frame by (simp add: get_put_other)
  moreover have "slot_inv (c_global c) (get_slot ?c' r)"
    unfolding e(1) using inv assms(2) by (rule slot_inv_path_states)
  moreover have "trace_step r c ?c'"
    unfolding trace_step_def
    by (rule exI[of _ ?xs]) (use e(3) in \<open>auto simp: c'\<close>)
  ultimately show "ctx_frame c ?c' \<and> (\<forall>r'. r' \<noteq> r \<longrightarrow> get_slot ?c' r' = get_slot c r') \<and>
      slot_inv (c_global c) (get_slot ?c' r) \<and> trace_step r c ?c'" by blast
qed

lemma local_step_sync: "local_step r c (recv_sync_path_state c r)"
proof -
  obtain st prep where b: "sync_path_state_body (get_slot c r) (next_path_states c r) = (st, prep)" by fastforce
  show ?thesis unfolding recv_sync_eq[OF b] using b length_next_path_states by (rule local_step_body)
qed

lemma local_step_disconnect: "local_step r c (recv_disconnect_all_paths c r)"
proof -
  obtain st prep where b: "sync_path_state_body (get_slot c r) zero_path_states = (st, prep)" by fastforce
  show ?thesis unfolding recv_disconnect_eq[OF b] using b length_path_states(1) by (rule local_step_body)
qed

lemma disconnect_view:
  assumes "slot_ok c r" "slot_inv (c_global c) (get_slot c r)"
  shows "view_of (get_slot (recv_disconnect_all_paths c r) r) = view_start"
    and "\<exists>b. get_slot (recv_disconnect_all_paths c r) r =
      (get_slot c r)\<lparr>s_path_logical_alive := zero_path_states, s_health_alive := b\<rparr>"
proof -
  obtain st prep where b: "sync_path_state_body (get_slot c r) zero_path_states = (st, prep)" by fastforce
  have len: "length (s_path_logical_alive (get_slot c r)) = POTR_MAX_PATH" using assms by (simp add: slot_inv_def)
  have g: "get_slot (recv_disconnect_all_paths c r) r =
      (get_slot c r)\<lparr>s_path_logical_alive := zero_path_states, s_health_alive := any_path_alive zero_path_states\<rparr>"
    unfolding recv_disconnect_eq[OF b] by (rule emit_sync(1)[OF b assms(1) _ len]) simp
  have "any_path_alive zero_path_states = False" by code_simp
  then show "view_of (get_slot (recv_disconnect_all_paths c r) r) = view_start"
    unfolding g by (simp add: view_of_def view_start_def zero_path_states_def)
  show "\<exists>b. get_slot (recv_disconnect_all_paths c r) r =
      (get_slot c r)\<lparr>s_path_logical_alive := zero_path_states, s_health_alive := b\<rparr>"
    using g by blast
qed

lemma local_step_data:
  assumes "s_health_alive (get_slot c r)"
  shows "local_step r c (callback_emit c (slot_peer_id c r) (POTR_EVENT_DATA d))"
proof (cases "c_callback c")
  case True
  then have c': "callback_emit c (slot_peer_id c r) (POTR_EVENT_DATA d) =
      c\<lparr>c_trace := c_trace c @ [Io_callback (slot_peer_id c r) (POTR_EVENT_DATA d)]\<rparr>"
    by (simp add: callback_emit_def callback_emit_locked_def emit_def)
  show ?thesis unfolding c' local_step_def trace_step_def using assms
    by (auto simp: ctx_frame_def view_of_def)
qed (simp add: callback_emit_def)

section \<open>The contract of a slot operation\<close>

text \<open>
  An operation on a slot that is a local step under a precondition.  It leaves every other
  slot's state and callback sequence as they were, and the slot's own application sees a legal
  continuation of the events it has seen.
\<close>

locale slot_operation =
  fixes op :: "potr_context \<Rightarrow> slot_ref \<Rightarrow> potr_context"
    and pre :: "potr_context \<Rightarrow> slot_ref \<Rightarrow> bool"
  assumes local: "pre c r \<Longrightarrow> local_step r c (op c r)"
begin

lemma others_untouched:
  assumes "pre c r" "slot_ok c r" "slot_inv (c_global c) (get_slot c r)" "r' \<noteq> r"
  shows "get_slot (op c r) r' = get_slot c r'"
  using local_stepD(2)[OF local[OF assms(1)] assms(2,3) assms(4)] .

lemma other_callbacks:
  assumes "pre c r" "slot_ok c r" "slot_inv (c_global c) (get_slot c r)" "pid \<noteq> slot_peer_id c r"
  shows "events_of pid (c_trace (op c r)) = events_of pid (c_trace c)"
proof -
  have "trace_step r c (op c r)" using local_stepD(4)[OF local[OF assms(1)] assms(2,3)] .
  then show ?thesis using assms(4) unfolding trace_step_def by auto
qed

lemma view_followed:
  assumes "pre c r" "slot_ok c r" "slot_inv (c_global c) (get_slot c r)" "c_callback c"
    "view_run view_start (events_of (slot_peer_id c r) (c_trace c)) = Some (view_of (get_slot c r))"
  shows "view_run view_start (events_of (slot_peer_id c r) (c_trace (op c r))) = Some (view_of (get_slot (op c r) r))"
proof -
  have "trace_step r c (op c r)" using local_stepD(4)[OF local[OF assms(1)] assms(2,3)] .
  then show ?thesis using assms(4,5) unfolding trace_step_def by (auto simp: view_run_append)
qed

end

interpretation sync_op: slot_operation recv_sync_path_state "\<lambda>_ _. True"
  by unfold_locales (rule local_step_sync)

interpretation disc_op: slot_operation recv_disconnect_all_paths "\<lambda>_ _. True"
  by unfold_locales (rule local_step_disconnect)

end
