(* ===== verification/Peer_Table.thy ===== *)
theory Peer_Table
  imports Slot_Step
begin

text \<open>
  The peer table of the N:1 mode (\<^verbatim>\<open>potr_peer_table.c\<close>): identifiers, creation and release of
  peers, lookup, and the FIN sent to a peer.

  \<open>table_inv\<close> relates the count of peers to the active entries and keeps the identifiers of the
  active peers distinct and outside the reserved values; creation cannot run into its abort
  and the search for a free identifier ends.  The locale \<open>id_table\<close> is the contract between
  the table and its clients: a lookup finds exactly the active peer with an identifier.
\<close>

unbundle bit_operations_syntax

section \<open>Definitions\<close>

definition peer_zero :: potr_internal_peer_context where
  "peer_zero = \<lparr>p_peer_id = 0, p_active = False, p_slot = slot_zero, p_frag_alloc = False, p_n_paths = 0\<rparr>"

definition own_session_hdr :: "potr_context \<Rightarrow> slot_state \<Rightarrow> potr_internal_packet_session_hdr" where
  "own_session_hdr c st =
    (let (sec, nsec) = session_ts_to_hdr (s_session_ts st)
     in \<lparr>sh_service_id = sd_service_id (c_service c), sh_session_tv_sec = sec,
         sh_session_id = s_session_id st, sh_session_tv_nsec = nsec\<rparr>)"

definition peer_generate_session ::
  "cplat \<Rightarrow> potr_context \<Rightarrow> potr_internal_peer_context \<Rightarrow> potr_result \<times> potr_internal_peer_context \<times> potr_context" where
  "peer_generate_session E c p =
    (let (ret, rnd) = random_u32 E (c_tick c);
         c1 = c\<lparr>c_tick := Suc (c_tick c)\<rparr>
     in if ret \<noteq> CPLAT_OK then (result_from_socket_result E ret None, p, c1)
        else (POTR_OK,
              p\<lparr>p_slot := (p_slot p)\<lparr>s_session_id := rnd, s_session_ts := clock_realtime E (c_tick c1)\<rparr>\<rparr>,
              c1\<lparr>c_tick := Suc (c_tick c1)\<rparr>))"

text \<open>The search for an identifier; the fuel bounds the number of candidates tried.\<close>

definition peer_id_in_use :: "potr_internal_peer_context list \<Rightarrow> potr_peer_id \<Rightarrow> bool" where
  "peer_id_in_use ps candidate = list_ex (\<lambda>p. p_active p \<and> p_peer_id p = candidate) ps"

fun search_peer_id :: "nat \<Rightarrow> potr_internal_peer_context list \<Rightarrow> potr_peer_id \<Rightarrow> potr_peer_id option" where
  "search_peer_id 0 ps candidate = None"
| "search_peer_id (Suc fuel) ps candidate =
    (if candidate = 0 \<or> candidate = POTR_PEER_ALL then search_peer_id fuel ps (candidate + 1)
     else if \<not> peer_id_in_use ps candidate then Some candidate
     else search_peer_id fuel ps (candidate + 1))"

definition allocate_peer_id :: "potr_context \<Rightarrow> (potr_peer_id \<times> potr_context) option" where
  "allocate_peer_id c =
    (case search_peer_id (length (c_peers c) + 3) (c_peers c) (c_next_peer_id c) of
       None \<Rightarrow> None
     | Some candidate \<Rightarrow> Some (candidate, c\<lparr>c_next_peer_id := candidate + 1\<rparr>))"

text \<open>The send loop over a peer's paths: skip a path without destination or without socket.\<close>

definition peer_send_paths :: "cplat \<Rightarrow> potr_context \<Rightarrow> slot_state \<Rightarrow> bytes \<Rightarrow> potr_context" where
  "peer_send_paths E c st wire =
    fold (\<lambda>i c. if endpoint_is_unset (s_dest_addr st ! i) then c
                else if \<not> c_sock c ! i then c
                else snd (socket_sendto E c i (s_dest_addr st ! i) wire)) [0..<POTR_MAX_PATH] c"

definition peer_send_fin :: "cplat \<Rightarrow> potr_context \<Rightarrow> nat \<Rightarrow> potr_context" where
  "peer_send_fin E c i =
    (let st = p_slot (c_peers c ! i);
         fin_pkt = packet_build_fin E (own_session_hdr c st);
         wire_target_seq = win_next_seq (s_send_window st);
         fin_pkt = (if s_send_has_data st
                    then fin_pkt\<lparr>flags := flags fin_pkt OR hton16 E POTR_FLAG_FIN_TARGET_VALID,
                                 ack_num := hton32 E wire_target_seq\<rparr>
                    else fin_pkt)
     in if sd_encrypt_enabled (c_service c) then
          (let fin_pkt = fin_pkt\<lparr>flags := flags fin_pkt OR hton16 E POTR_FLAG_ENCRYPTED,
                                 payload_len := hton16 E (of_nat POTR_CRYPTO_TAG_SIZE)\<rparr>;
               nonce = mem32 E (session_id fin_pkt) @ mem16 E (flags fin_pkt) @ replicate 4 0 @ replicate 2 0;
               hdr = packet_header_bytes E fin_pkt
           in case crypto_encrypt E POTR_CRYPTO_TAG_SIZE (sd_encrypt_key (c_service c)) nonce hdr [] of
                None \<Rightarrow> c
              | Some enc \<Rightarrow> peer_send_paths E c st (hdr @ enc))
        else peer_send_paths E c st (take (packet_wire_size E fin_pkt) (packet_header_bytes E fin_pkt)))"

text \<open>
  \<open>lock_ok\<close> tells whether the lock object could be created; the size of the structure is only
  passed to the allocator.
\<close>

definition peer_table_init :: "cplat \<Rightarrow> bool \<Rightarrow> nat \<Rightarrow> potr_context \<Rightarrow> nat \<Rightarrow> potr_result \<times> potr_context" where
  "peer_table_init E lock_ok peer_size c max_peers =
    (if \<not> calloc_ok E max_peers peer_size then (POTR_ERR_OUT_OF_MEMORY, c\<lparr>c_peers := []\<rparr>)
     else if \<not> lock_ok then (POTR_ERR_UNKNOWN, c\<lparr>c_peers := []\<rparr>)
     else (POTR_OK, c\<lparr>c_peers := replicate max_peers peer_zero, c_n_peers := 0, c_next_peer_id := 1\<rparr>))"

definition peer_release :: "potr_internal_peer_context \<Rightarrow> potr_internal_peer_context" where
  "peer_release p = p\<lparr>p_slot := (p_slot p)\<lparr>s_send_window := window_dispose (s_send_window (p_slot p)),
       s_recv_window := window_dispose (s_recv_window (p_slot p))\<rparr>, p_frag_alloc := False, p_active := False\<rparr>"

definition peer_table_dispose :: "potr_context \<Rightarrow> potr_context" where
  "peer_table_dispose c = (if c_peers c = [] then c else c\<lparr>c_peers := [], c_n_peers := 0\<rparr>)"

definition peer_table_send_fin :: "cplat \<Rightarrow> potr_context \<Rightarrow> potr_context" where
  "peer_table_send_fin E c =
    fold (\<lambda>i c. if p_active (c_peers c ! i) then peer_send_fin E c i else c) [0..<length (c_peers c)] c"

definition find_peer :: "(potr_internal_peer_context \<Rightarrow> bool) \<Rightarrow> potr_internal_peer_context list \<Rightarrow> nat option" where
  "find_peer P ps = List.find (\<lambda>i. P (ps ! i)) [0..<length ps]"

definition peer_find_by_session :: "cplat \<Rightarrow> potr_context \<Rightarrow> u32 \<Rightarrow> cplat_timespec \<Rightarrow> nat option" where
  "peer_find_by_session E c sid sts =
    find_peer (\<lambda>p. p_active p \<and> s_peer_session_id (p_slot p) = sid
                 \<and> timespec_cmp E (s_peer_session_ts (p_slot p)) sts = 0) (c_peers c)"

definition peer_find_by_id :: "potr_context \<Rightarrow> potr_peer_id \<Rightarrow> nat option" where
  "peer_find_by_id c pid = find_peer (\<lambda>p. p_active p \<and> p_peer_id p = pid) (c_peers c)"

text \<open>
  The outcome of a creation: the slot of the new peer, a null pointer, the abort on an
  inconsistent table, or no return from the identifier search.
\<close>

datatype peer_create_result = PC_created nat | PC_null | PC_abort | PC_loop

definition put_peer :: "potr_context \<Rightarrow> nat \<Rightarrow> potr_internal_peer_context \<Rightarrow> potr_context" where
  "put_peer c i p = c\<lparr>c_peers := (c_peers c)[i := p]\<rparr>"

text \<open>
  \<open>peer_setup\<close> is the part of \<^verbatim>\<open>potr_internal_peer_create\<close> that fills slot \<open>i\<close> for the identifier
  \<open>pid\<close>: own session, windows, fragment buffer and first path, each failure releasing what
  was obtained before it.
\<close>

definition peer_setup ::
  "cplat \<Rightarrow> potr_context \<Rightarrow> nat \<Rightarrow> potr_peer_id \<Rightarrow> cplat_ipv4_endpoint \<Rightarrow> nat \<Rightarrow> peer_create_result \<times> potr_context" where
  "peer_setup E c i pid sender_addr path_idx =
    (let ws = gc_window_size (c_global c); mp = gc_max_payload (c_global c);
         p1 = peer_zero\<lparr>p_peer_id := pid, p_active := True\<rparr>;
         (ret, p2, c3) = peer_generate_session E c p1
     in if ret \<noteq> POTR_OK then (PC_null, put_peer c3 i (p2\<lparr>p_active := False\<rparr>))
        else
    (let (ret_s, sw) = window_init E (s_send_window (p_slot p2)) 0 ws mp;
         p3 = p2\<lparr>p_slot := (p_slot p2)\<lparr>s_send_has_data := False, s_send_window := sw\<rparr>\<rparr>
     in if ret_s \<noteq> POTR_OK then (PC_null, put_peer c3 i (p3\<lparr>p_active := False\<rparr>))
        else
    (let (ret_r, rw) = window_init E (s_recv_window (p_slot p3)) 0 ws mp;
         p4 = p3\<lparr>p_slot := (p_slot p3)\<lparr>s_recv_window := rw\<rparr>\<rparr>
     in if ret_r \<noteq> POTR_OK
        then (PC_null, put_peer c3 i (p4\<lparr>p_slot := (p_slot p4)\<lparr>s_send_window := window_dispose sw\<rparr>, p_active := False\<rparr>))
        else if \<not> calloc_ok E 1 (unat (gc_max_message_size (c_global c)))
        then (PC_null, put_peer c3 i (p4\<lparr>p_slot := (p_slot p4)\<lparr>s_send_window := window_dispose sw,
                 s_recv_window := window_dispose rw\<rparr>, p_active := False\<rparr>))
        else
    (let st = p_slot p4;
         st' = st\<lparr>s_frag_buf := [], s_frag_compressed := False,
                  s_dest_addr := (s_dest_addr st)[path_idx := sender_addr],
                  s_path_last_recv_ts := (s_path_last_recv_ts st)
                    [path_idx := (s_path_last_recv_ts st ! path_idx)\<lparr>tv_sec := 0\<rparr>]\<rparr>;
         c4 = put_peer c3 i (p4\<lparr>p_frag_alloc := True, p_slot := st', p_n_paths := 1\<rparr>)
     in (PC_created i, c4\<lparr>c_n_peers := c_n_peers c4 + 1\<rparr>)))))"

definition peer_create ::
  "cplat \<Rightarrow> potr_context \<Rightarrow> cplat_ipv4_endpoint \<Rightarrow> nat \<Rightarrow> peer_create_result \<times> potr_context" where
  "peer_create E c sender_addr path_idx =
    (if c_n_peers c \<ge> int (length (c_peers c)) then (PC_null, c)
     else case find_peer (\<lambda>p. \<not> p_active p) (c_peers c) of None \<Rightarrow> (PC_abort, c)
     | Some i \<Rightarrow>
       (let c1 = put_peer c i peer_zero
        in case allocate_peer_id c1 of None \<Rightarrow> (PC_loop, c1)
           | Some (pid, c2) \<Rightarrow> peer_setup E c2 i pid sender_addr path_idx))"

definition peer_path_clear :: "potr_internal_peer_context \<Rightarrow> nat \<Rightarrow> potr_internal_peer_context" where
  "peer_path_clear p path_idx =
    (let st = p_slot p
     in if endpoint_is_unset (s_dest_addr st ! path_idx) then p
        else p\<lparr>p_slot := st\<lparr>s_dest_addr := (s_dest_addr st)[path_idx := endpoint_clear (s_dest_addr st ! path_idx)],
                            s_path_last_recv_ts := (s_path_last_recv_ts st)
                              [path_idx := (s_path_last_recv_ts st ! path_idx)\<lparr>tv_sec := 0, tv_nsec := 0\<rparr>]\<rparr>,
               p_n_paths := p_n_paths p - 1\<rparr>)"

definition peer_free :: "potr_context \<Rightarrow> nat \<Rightarrow> potr_context" where
  "peer_free c i =
    (if \<not> p_active (c_peers c ! i) then c
     else (let c1 = put_peer c i (peer_release (c_peers c ! i)) in c1\<lparr>c_n_peers := c_n_peers c1 - 1\<rparr>))"

section \<open>The identifier search\<close>

lemma search_Some:
  "search_peer_id fuel ps cand = Some x \<Longrightarrow> x \<noteq> POTR_PEER_NA \<and> x \<noteq> POTR_PEER_ALL \<and> \<not> peer_id_in_use ps x"
  by (induction fuel arbitrary: cand) (auto split: if_splits)

lemma search_None:
  assumes "search_peer_id fuel ps cand = None" "k < fuel"
  shows "cand + of_nat k \<in> {POTR_PEER_NA, POTR_PEER_ALL} \<union> set (map p_peer_id (filter p_active ps))"
  using assms
proof (induction fuel arbitrary: cand k)
  case (Suc fuel)
  show ?case
  proof (cases k)
    case 0
    then show ?thesis using Suc.prems(1) by (auto simp: peer_id_in_use_def list_ex_iff split: if_splits)
  next
    case (Suc k')
    have "search_peer_id fuel ps (cand + 1) = None" using Suc.prems(1) by (auto split: if_splits)
    from Suc.IH[OF this, of k'] show ?thesis using Suc.prems(2) Suc by (simp add: add.assoc)
  qed
qed simp

lemma search_total:
  assumes "length ps + 3 \<le> 4294967296"
  shows "\<exists>x. search_peer_id (length ps + 3) ps cand = Some x"
proof (rule ccontr)
  assume "\<nexists>x. search_peer_id (length ps + 3) ps cand = Some x"
  then have n: "search_peer_id (length ps + 3) ps cand = None" by (metis option.exhaust)
  let ?A = "(\<lambda>k. cand + of_nat k) ` {..<length ps + 3}"
  let ?B = "{POTR_PEER_NA, POTR_PEER_ALL} \<union> set (map p_peer_id (filter p_active ps))"
  have "inj_on (\<lambda>k. cand + of_nat k :: u32) {..<length ps + 3}"
  proof (rule inj_onI)
    fix i j assume *: "i \<in> {..<length ps + 3}" "j \<in> {..<length ps + 3}" "cand + of_nat i = cand + of_nat j"
    then have "unat (of_nat i :: u32) = unat (of_nat j :: u32)" by simp
    moreover have "i < 4294967296" "j < 4294967296" using * assms by simp_all
    ultimately show "i = j" by (simp add: unat_of_nat_u32)
  qed
  then have a: "card ?A = length ps + 3" by (simp add: card_image)
  have sub: "?A \<subseteq> ?B" using search_None[OF n] by blast
  have "card ?B \<le> card {POTR_PEER_NA, POTR_PEER_ALL :: u32} + card (set (map p_peer_id (filter p_active ps)))"
    by (rule card_Un_le)
  also have "\<dots> \<le> 2 + length ps"
    using card_length[of "map p_peer_id (filter p_active ps)"] length_filter_le[of p_active ps]
    by (intro add_mono order_trans[OF card_length]) (simp_all add: card_insert_if)
  finally show False using card_mono[OF _ sub] a by simp
qed

section \<open>The table invariant\<close>

definition active_ids :: "potr_internal_peer_context list \<Rightarrow> potr_peer_id list" where
  "active_ids ps = map p_peer_id (filter p_active ps)"

definition table_inv :: "potr_context \<Rightarrow> bool" where
  "table_inv c \<longleftrightarrow> c_n_peers c = int (length (active_ids (c_peers c))) \<and> distinct (active_ids (c_peers c)) \<and>
     POTR_PEER_NA \<notin> set (active_ids (c_peers c)) \<and> POTR_PEER_ALL \<notin> set (active_ids (c_peers c)) \<and>
     length (c_peers c) \<le> 2147483647"

lemma in_use_iff: "peer_id_in_use ps x \<longleftrightarrow> x \<in> set (active_ids ps)"
  by (auto simp: peer_id_in_use_def active_ids_def list_ex_iff)

lemma find_peer_Some:
  "find_peer P ps = Some i \<longleftrightarrow> i < length ps \<and> P (ps ! i) \<and> (\<forall>j<i. \<not> P (ps ! j))"
  by (auto simp: find_peer_def find_Some_iff)

lemma find_peer_None: "find_peer P ps = None \<longleftrightarrow> (\<forall>i<length ps. \<not> P (ps ! i))"
  by (auto simp: find_peer_def find_None_iff)

lemma split_at: "i < length ps \<Longrightarrow> ps = take i ps @ ps ! i # drop (Suc i) ps"
  by (rule id_take_nth_drop)

lemma active_ids_update:
  assumes "i < length ps"
  shows "active_ids (ps[i := p]) = active_ids (take i ps) @ (if p_active p then [p_peer_id p] else [])
           @ active_ids (drop (Suc i) ps)"
    and "active_ids ps = active_ids (take i ps) @ (if p_active (ps ! i) then [p_peer_id (ps ! i)] else [])
           @ active_ids (drop (Suc i) ps)"
  using assms by (simp_all add: upd_conv_take_nth_drop active_ids_def)
    (metis (no_types, lifting) split_at[OF assms] filter.simps(2) filter_append map_append list.simps(9) append_Cons append_Nil)

lemma active_ids_nth:
  assumes "distinct (active_ids ps)" "i < length ps" "j < length ps" "p_active (ps ! i)" "p_active (ps ! j)"
    "p_peer_id (ps ! i) = p_peer_id (ps ! j)"
  shows "i = j"
proof -
  have "x = y" if "distinct (active_ids ps)" "x < y" "y < length ps" "p_active (ps ! x)" "p_active (ps ! y)"
    "p_peer_id (ps ! x) = p_peer_id (ps ! y)" for x y
  proof -
    have x: "x < length ps" using that by simp
    have "ps ! y \<in> set (drop (Suc x) ps)"
      using that by (auto simp: in_set_conv_nth intro!: exI[of _ "y - Suc x"])
    then have "p_peer_id (ps ! y) \<in> set (active_ids (drop (Suc x) ps))" using that(5) by (auto simp: active_ids_def)
    moreover have "p_peer_id (ps ! x) \<notin> set (active_ids (drop (Suc x) ps))"
      using that(1,4) unfolding active_ids_update(2)[OF x] by simp
    ultimately show ?thesis using that(6) by simp
  qed
  then show ?thesis using assms by (metis nat_neq_iff)
qed

lemma active_ids_nthD: "i < length ps \<Longrightarrow> p_active (ps ! i) \<Longrightarrow> p_peer_id (ps ! i) \<in> set (active_ids ps)"
  by (auto simp: active_ids_def)

section \<open>Creation and release\<close>

lemma allocate_total:
  assumes "length (c_peers c) \<le> 2147483647"
  shows "\<exists>pid. allocate_peer_id c = Some (pid, c\<lparr>c_next_peer_id := pid + 1\<rparr>) \<and>
    pid \<noteq> POTR_PEER_NA \<and> pid \<noteq> POTR_PEER_ALL \<and> pid \<notin> set (active_ids (c_peers c))"
proof -
  obtain x where "search_peer_id (length (c_peers c) + 3) (c_peers c) (c_next_peer_id c) = Some x"
    using search_total[of "c_peers c"] assms by fastforce
  with search_Some[OF this] show ?thesis by (auto simp: allocate_peer_id_def in_use_iff)
qed

lemma generate_session_cases:
  obtains r p' n where "peer_generate_session E c p = (r, p', c\<lparr>c_tick := n\<rparr>)"
    "p_active p' = p_active p" "p_peer_id p' = p_peer_id p" "\<exists>a b. p_slot p' = (p_slot p)\<lparr>s_session_id := a, s_session_ts := b\<rparr>"
proof (cases "random_u32 E (c_tick c)")
  case (Pair ret rnd)
  show ?thesis
  proof (cases "ret = CPLAT_OK")
    case True
    show ?thesis
      by (rule that[of POTR_OK "p\<lparr>p_slot := (p_slot p)\<lparr>s_session_id := rnd,
          s_session_ts := clock_realtime E (Suc (c_tick c))\<rparr>\<rparr>" "Suc (Suc (c_tick c))"])
        (use True Pair in \<open>auto simp: peer_generate_session_def Let_def\<close>)
  next
    case False
    have "\<exists>a b. p_slot p = (p_slot p)\<lparr>s_session_id := a, s_session_ts := b\<rparr>"
      by (intro exI[of _ "s_session_id (p_slot p)"] exI[of _ "s_session_ts (p_slot p)"]) simp
    then show ?thesis using False Pair by (intro that) (auto simp: peer_generate_session_def Let_def)
  qed
qed

text \<open>The slot of a peer as creation leaves it.\<close>

definition fresh_slot :: "u32 \<Rightarrow> cplat_timespec \<Rightarrow> potr_internal_window \<Rightarrow> potr_internal_window \<Rightarrow> nat \<Rightarrow> cplat_ipv4_endpoint \<Rightarrow> slot_state" where
  "fresh_slot sid sts sw rw k ep = slot_zero\<lparr>s_session_id := sid, s_session_ts := sts, s_send_window := sw, s_recv_window := rw,
     s_dest_addr := (s_dest_addr slot_zero)[k := ep]\<rparr>"

lemma timespec_zero_list: "(replicate n timespec_zero)[k := (replicate n timespec_zero ! k)\<lparr>tv_sec := 0\<rparr>] = replicate n timespec_zero"
  by (cases "k < n") (simp_all add: timespec_zero_def list_update_beyond list_update_same_conv)

definition setup_outcome ::
  "cplat \<Rightarrow> potr_context \<Rightarrow> nat \<Rightarrow> potr_peer_id \<Rightarrow> cplat_ipv4_endpoint \<Rightarrow> nat \<Rightarrow> peer_create_result \<Rightarrow> potr_context \<Rightarrow> bool" where
  "setup_outcome E c i pid ep k res c' \<longleftrightarrow> (\<exists>p n.
     res = PC_null \<and> \<not> p_active p \<and> c' = put_peer (c\<lparr>c_tick := n\<rparr>) i p \<or>
     res = PC_created i \<and> p_active p \<and> p_peer_id p = pid \<and>
       (\<exists>sid sts w. p_slot p = fresh_slot sid sts w w k ep \<and>
          window_init E window_zero 0 (gc_window_size (c_global c)) (gc_max_payload (c_global c)) = (POTR_OK, w)) \<and>
       c' = put_peer (c\<lparr>c_n_peers := c_n_peers c + 1, c_tick := n\<rparr>) i p)"

lemma setup_nullI:
  "\<not> p_active p \<Longrightarrow> setup_outcome E c i pid ep k PC_null (put_peer (c\<lparr>c_tick := n\<rparr>) i p)"
  unfolding setup_outcome_def by blast

lemma setup_createdI:
  assumes "p_active p" "p_peer_id p = pid" "p_slot p = fresh_slot sid sts w w k ep"
    "window_init E window_zero 0 (gc_window_size (c_global c)) (gc_max_payload (c_global c)) = (POTR_OK, w)"
    "c' = put_peer (c\<lparr>c_n_peers := c_n_peers c + 1, c_tick := n\<rparr>) i p"
  shows "setup_outcome E c i pid ep k (PC_created i) c'"
  unfolding setup_outcome_def using assms by blast

lemma setup_createdD:
  assumes "setup_outcome E c i pid ep k (PC_created j) c'"
  shows "j = i \<and> (\<exists>p n. p_active p \<and> p_peer_id p = pid \<and>
       (\<exists>sid sts w. p_slot p = fresh_slot sid sts w w k ep \<and>
          window_init E window_zero 0 (gc_window_size (c_global c)) (gc_max_payload (c_global c)) = (POTR_OK, w)) \<and>
       c' = put_peer (c\<lparr>c_n_peers := c_n_peers c + 1, c_tick := n\<rparr>) i p)"
  using assms unfolding setup_outcome_def by blast

lemma peer_setup_outcome:
  assumes "peer_setup E c i pid ep k = (res, c')"
  shows "setup_outcome E c i pid ep k res c'"
proof -
  let ?ws = "gc_window_size (c_global c)" and ?mp = "gc_max_payload (c_global c)"
  let ?p1 = "peer_zero\<lparr>p_peer_id := pid, p_active := True\<rparr>"
  have z: "p_active ?p1 = True" "p_peer_id ?p1 = pid" "p_slot ?p1 = slot_zero" by (simp_all add: peer_zero_def)
  obtain r p2 n where g: "peer_generate_session E c ?p1 = (r, p2, c\<lparr>c_tick := n\<rparr>)"
    and p2: "p_active p2 = True" "p_peer_id p2 = pid" "\<exists>a b. p_slot p2 = slot_zero\<lparr>s_session_id := a, s_session_ts := b\<rparr>"
    by (rule generate_session_cases[of E c ?p1, unfolded z])
  then obtain sid sts where sl: "p_slot p2 = slot_zero\<lparr>s_session_id := sid, s_session_ts := sts\<rparr>" by blast
  obtain rs w where w: "window_init E window_zero 0 ?ws ?mp = (rs, w)" by fastforce
  let ?p3 = "p2\<lparr>p_slot := (p_slot p2)\<lparr>s_send_has_data := False, s_send_window := w\<rparr>\<rparr>"
  have ww: "window_init E (s_send_window (p_slot p2)) 0 ?ws ?mp = (rs, w)"
    "window_init E (s_recv_window (p_slot ?p3)) 0 ?ws ?mp = (rs, w)"
    using w by (simp_all add: sl slot_zero_def)
  let ?p4 = "?p3\<lparr>p_slot := (p_slot ?p3)\<lparr>s_recv_window := w\<rparr>\<rparr>"
  let ?st = "p_slot ?p4"
  let ?st' = "?st\<lparr>s_frag_buf := [], s_frag_compressed := False, s_dest_addr := (s_dest_addr ?st)[k := ep],
      s_path_last_recv_ts := (s_path_last_recv_ts ?st)[k := (s_path_last_recv_ts ?st ! k)\<lparr>tv_sec := 0\<rparr>]\<rparr>"
  let ?p5 = "?p4\<lparr>p_frag_alloc := True, p_slot := ?st', p_n_paths := 1\<rparr>"
  let ?c4 = "put_peer (c\<lparr>c_tick := n\<rparr>) i ?p5"
  have eq: "peer_setup E c i pid ep k =
      (if r \<noteq> POTR_OK then (PC_null, put_peer (c\<lparr>c_tick := n\<rparr>) i (p2\<lparr>p_active := False\<rparr>))
       else if rs \<noteq> POTR_OK then (PC_null, put_peer (c\<lparr>c_tick := n\<rparr>) i (?p3\<lparr>p_active := False\<rparr>))
       else if \<not> calloc_ok E 1 (unat (gc_max_message_size (c_global c)))
       then (PC_null, put_peer (c\<lparr>c_tick := n\<rparr>) i (?p4\<lparr>p_slot := ?st\<lparr>s_send_window := window_dispose w,
                 s_recv_window := window_dispose w\<rparr>, p_active := False\<rparr>))
       else (PC_created i, ?c4\<lparr>c_n_peers := c_n_peers ?c4 + 1\<rparr>))"
    unfolding peer_setup_def Let_def g prod.case ww by (simp only: if_cancel split: if_split) simp
  have inactive: "\<not> p_active (q\<lparr>p_active := False\<rparr>)" for q by simp
  have fresh: "p_slot ?p5 = fresh_slot sid sts w w k ep"
    by (simp add: sl fresh_slot_def slot_zero_def timespec_zero_list)
  have c4: "?c4\<lparr>c_n_peers := c_n_peers ?c4 + 1\<rparr> = put_peer (c\<lparr>c_n_peers := c_n_peers c + 1, c_tick := n\<rparr>) i ?p5"
    by (simp add: put_peer_def)
  have created: "setup_outcome E c i pid ep k (PC_created i) (?c4\<lparr>c_n_peers := c_n_peers ?c4 + 1\<rparr>)" if "rs = POTR_OK"
    by (rule setup_createdI[OF _ _ fresh _ c4]) (use p2 w that in simp_all)
  consider "r \<noteq> POTR_OK" | "r = POTR_OK" "rs \<noteq> POTR_OK"
    | "r = POTR_OK" "rs = POTR_OK" "\<not> calloc_ok E 1 (unat (gc_max_message_size (c_global c)))"
    | "r = POTR_OK" "rs = POTR_OK" "calloc_ok E 1 (unat (gc_max_message_size (c_global c)))" by blast
  then have "case peer_setup E c i pid ep k of (res, c') \<Rightarrow> setup_outcome E c i pid ep k res c'"
    by cases (simp_all only: eq if_True if_False not_True_eq_False not_False_eq_True prod.case refl
        setup_nullI[OF inactive] created)
  then show ?thesis unfolding assms prod.case .
qed

definition create_outcome ::
  "cplat \<Rightarrow> potr_context \<Rightarrow> cplat_ipv4_endpoint \<Rightarrow> nat \<Rightarrow> peer_create_result \<Rightarrow> potr_context \<Rightarrow> bool" where
  "create_outcome E c ep k res c' \<longleftrightarrow> res = PC_null \<and> c' = c \<or>
     (\<exists>i pid. i < length (c_peers c) \<and> \<not> p_active (c_peers c ! i) \<and>
        pid \<noteq> POTR_PEER_NA \<and> pid \<noteq> POTR_PEER_ALL \<and> pid \<notin> set (active_ids (c_peers c)) \<and>
        setup_outcome E (c\<lparr>c_peers := (c_peers c)[i := peer_zero], c_next_peer_id := pid + 1\<rparr>) i pid ep k res c')"

lemma table_has_free:
  assumes "table_inv c" "c_n_peers c < int (length (c_peers c))"
  obtains i where "find_peer (\<lambda>p. \<not> p_active p) (c_peers c) = Some i" "i < length (c_peers c)"
    "\<not> p_active (c_peers c ! i)"
proof -
  have "\<exists>i<length (c_peers c). \<not> p_active (c_peers c ! i)"
  proof (rule ccontr)
    assume "\<not> ?thesis"
    then have "filter p_active (c_peers c) = c_peers c" by (auto simp: filter_id_conv in_set_conv_nth)
    then show False using assms by (simp add: table_inv_def active_ids_def)
  qed
  then obtain i where "find_peer (\<lambda>p. \<not> p_active p) (c_peers c) = Some i"
    using find_peer_None[of "\<lambda>p. \<not> p_active p" "c_peers c"] by (metis not_None_eq)
  with that show ?thesis by (simp add: find_peer_Some)
qed

lemma active_ids_inactive:
  "i < length ps \<Longrightarrow> \<not> p_active (ps ! i) \<Longrightarrow> \<not> p_active p \<Longrightarrow> active_ids (ps[i := p]) = active_ids ps"
  by (simp add: active_ids_update(1) active_ids_update(2)[of i ps])

lemma peer_create_outcome:
  assumes "table_inv c" "peer_create E c ep k = (res, c')"
  shows "create_outcome E c ep k res c'"
proof (cases "c_n_peers c \<ge> int (length (c_peers c))")
  case True
  then show ?thesis using assms(2) by (simp add: peer_create_def create_outcome_def)
next
  case False
  then obtain i where f: "find_peer (\<lambda>p. \<not> p_active p) (c_peers c) = Some i"
    and i: "i < length (c_peers c)" "\<not> p_active (c_peers c ! i)" using table_has_free[OF assms(1)] by auto
  let ?c1 = "put_peer c i peer_zero"
  have ids: "active_ids (c_peers ?c1) = active_ids (c_peers c)"
    using i by (simp add: put_peer_def active_ids_inactive peer_zero_def)
  have "length (c_peers ?c1) \<le> 2147483647" using assms(1) by (simp add: table_inv_def put_peer_def)
  from allocate_total[OF this, unfolded ids]
  obtain pid where a: "allocate_peer_id ?c1 = Some (pid, ?c1\<lparr>c_next_peer_id := pid + 1\<rparr>)"
    and pid: "pid \<noteq> POTR_PEER_NA" "pid \<noteq> POTR_PEER_ALL" "pid \<notin> set (active_ids (c_peers c))" by blast
  have "peer_setup E (?c1\<lparr>c_next_peer_id := pid + 1\<rparr>) i pid ep k = (res, c')"
    using assms(2) False by (simp add: peer_create_def f a)
  from peer_setup_outcome[OF this] i pid show ?thesis
    unfolding create_outcome_def put_peer_def by auto
qed

lemma table_inv_cong:
  "table_inv c \<Longrightarrow> c_n_peers c' = c_n_peers c \<Longrightarrow> active_ids (c_peers c') = active_ids (c_peers c) \<Longrightarrow>
   length (c_peers c') = length (c_peers c) \<Longrightarrow> table_inv c'"
  by (simp add: table_inv_def)

lemma create_outcome_null:
  assumes "create_outcome E c ep k PC_null c'" "table_inv c"
  shows "table_inv c' \<and> c_callback c' = c_callback c \<and> c_global c' = c_global c \<and> c_service c' = c_service c \<and>
    c_is_multi_peer c' = c_is_multi_peer c \<and>
    c_trace c' = c_trace c \<and> c_slot c' = c_slot c \<and> length (c_peers c') = length (c_peers c) \<and>
    (\<forall>j<length (c_peers c). p_active (c_peers c' ! j) = p_active (c_peers c ! j) \<and>
       (p_active (c_peers c ! j) \<longrightarrow> c_peers c' ! j = c_peers c ! j))"
proof (cases "c' = c")
  case True
  then show ?thesis using assms(2) by simp
next
  case False
  then obtain i pid p n where i: "i < length (c_peers c)" "\<not> p_active (c_peers c ! i)" "\<not> p_active p"
    and c': "c' = put_peer (c\<lparr>c_peers := (c_peers c)[i := peer_zero], c_next_peer_id := pid + 1, c_tick := n\<rparr>) i p"
    using assms(1) unfolding create_outcome_def setup_outcome_def by auto
  have "active_ids (c_peers c') = active_ids (c_peers c)" using i by (simp add: c' put_peer_def active_ids_inactive)
  then have "table_inv c'" by (intro table_inv_cong[OF assms(2)]) (simp_all add: c' put_peer_def)
  then show ?thesis using i by (auto simp: c' put_peer_def nth_list_update)
qed

lemma create_outcome_created:
  assumes "create_outcome E c ep k (PC_created i) c'" "table_inv c"
  shows "table_inv c' \<and> c_callback c' = c_callback c \<and> c_global c' = c_global c \<and> c_service c' = c_service c \<and>
    c_is_multi_peer c' = c_is_multi_peer c \<and>
    c_trace c' = c_trace c \<and> c_slot c' = c_slot c \<and> length (c_peers c') = length (c_peers c) \<and>
    i < length (c_peers c) \<and> \<not> p_active (c_peers c ! i) \<and> p_active (c_peers c' ! i) \<and>
    p_peer_id (c_peers c' ! i) \<notin> set (active_ids (c_peers c)) \<and>
    (\<forall>j<length (c_peers c). j \<noteq> i \<longrightarrow> c_peers c' ! j = c_peers c ! j) \<and>
    (\<exists>sid sts w. p_slot (c_peers c' ! i) = fresh_slot sid sts w w k ep \<and>
       window_init E window_zero 0 (gc_window_size (c_global c)) (gc_max_payload (c_global c)) = (POTR_OK, w))"
proof -
  from assms(1) obtain i' pid where i': "i' < length (c_peers c)" "\<not> p_active (c_peers c ! i')"
    and pid: "pid \<noteq> POTR_PEER_NA" "pid \<noteq> POTR_PEER_ALL" "pid \<notin> set (active_ids (c_peers c))"
    and so: "setup_outcome E (c\<lparr>c_peers := (c_peers c)[i' := peer_zero], c_next_peer_id := pid + 1\<rparr>) i' pid ep k (PC_created i) c'"
    unfolding create_outcome_def by blast
  have ii: "i' = i" using setup_createdD[OF so] by blast
  have i: "i < length (c_peers c)" "\<not> p_active (c_peers c ! i)" using i' unfolding ii by this+
  let ?c1 = "c\<lparr>c_peers := (c_peers c)[i := peer_zero], c_next_peer_id := pid + 1\<rparr>"
  from setup_createdD[OF so, unfolded ii, THEN conjunct2] obtain p n where p: "p_active p" "p_peer_id p = pid"
    and w: "\<exists>sid sts w. p_slot p = fresh_slot sid sts w w k ep \<and>
       window_init E window_zero 0 (gc_window_size (c_global ?c1)) (gc_max_payload (c_global ?c1)) = (POTR_OK, w)"
    and c': "c' = put_peer (?c1\<lparr>c_n_peers := c_n_peers ?c1 + 1, c_tick := n\<rparr>) i p"
    by blast
  have "table_inv c'" using assms(2) pid p i(2)
    by (auto simp: c' put_peer_def table_inv_def active_ids_update(1)[OF i(1)] active_ids_update(2)[OF i(1)])
  then show ?thesis using i pid p w by (auto simp: c' put_peer_def nth_list_update)
qed


text \<open>Release.\<close>

lemma peer_free_inv:
  assumes "table_inv c" "i < length (c_peers c)"
  shows "table_inv (peer_free c i)"
  using assms by (auto simp: peer_free_def put_peer_def table_inv_def peer_release_def Let_def
      active_ids_update(1)[OF assms(2)] active_ids_update(2)[OF assms(2)])

lemma peer_free_frame [simp]:
  "c_trace (peer_free c i) = c_trace c" "c_callback (peer_free c i) = c_callback c"
  "c_global (peer_free c i) = c_global c" "c_slot (peer_free c i) = c_slot c"
  "c_service (peer_free c i) = c_service c" "length (c_peers (peer_free c i)) = length (c_peers c)"
  "c_is_multi_peer (peer_free c i) = c_is_multi_peer c"
  "j \<noteq> i \<Longrightarrow> c_peers (peer_free c i) ! j = c_peers c ! j"
  "p_peer_id (c_peers (peer_free c i) ! j) = p_peer_id (c_peers c ! j)"
  by (cases "i < length (c_peers c)"; cases "j = i";
      auto simp: peer_free_def put_peer_def Let_def peer_release_def list_update_beyond)+

lemma peer_free_inactive: "i < length (c_peers c) \<Longrightarrow> \<not> p_active (c_peers (peer_free c i) ! i)"
  by (auto simp: peer_free_def put_peer_def Let_def peer_release_def)

section \<open>The contract of lookup by identifier\<close>

text \<open>
  What the clients of the table rely on: a lookup returns the position of the entry that
  carries the identifier.  That identifiers determine positions follows.
\<close>

locale id_table =
  fixes inv :: "'t \<Rightarrow> bool"
    and holds :: "'t \<Rightarrow> nat \<Rightarrow> 'k \<Rightarrow> bool"
    and lookup :: "'t \<Rightarrow> 'k \<Rightarrow> nat option"
  assumes lookup_iff: "inv t \<Longrightarrow> lookup t x = Some i \<longleftrightarrow> holds t i x"
begin

lemma holds_unique: "inv t \<Longrightarrow> holds t i x \<Longrightarrow> holds t j x \<Longrightarrow> i = j"
  by (metis lookup_iff option.inject)

lemma lookup_None: "inv t \<Longrightarrow> lookup t x = None \<longleftrightarrow> (\<forall>i. \<not> holds t i x)"
  by (metis lookup_iff not_None_eq)

lemma lookup_preserved:
  assumes "inv t" "inv t'" "\<And>i. holds t' i x = holds t i x"
  shows "lookup t' x = lookup t x"
  using assms by (metis lookup_None lookup_iff not_None_eq)

end

definition peer_holds :: "potr_context \<Rightarrow> nat \<Rightarrow> potr_peer_id \<Rightarrow> bool" where
  "peer_holds c i pid \<longleftrightarrow> i < length (c_peers c) \<and> p_active (c_peers c ! i) \<and> p_peer_id (c_peers c ! i) = pid"

interpretation pt: id_table table_inv peer_holds peer_find_by_id
proof
  fix c x i assume "table_inv c"
  then have d: "distinct (active_ids (c_peers c))" by (simp add: table_inv_def)
  have "peer_holds c i x \<Longrightarrow> j < i \<Longrightarrow> \<not> (p_active (c_peers c ! j) \<and> p_peer_id (c_peers c ! j) = x)" for j
    using active_ids_nth[OF d, of i j] by (auto simp: peer_holds_def)
  then show "peer_find_by_id c x = Some i \<longleftrightarrow> peer_holds c i x"
    unfolding peer_find_by_id_def find_peer_Some by (auto simp: peer_holds_def)
qed

text \<open>
  C28: Lookup by identifier finds the newly created peer and still finds every other active
  peer where it was; after a peer is released its identifier is no longer found, and the
  others are unaffected.
\<close>

theorem peer_lookup_after:
  assumes "table_inv c"
  shows "(peer_create E c ep k = (PC_created i, c') \<longrightarrow>
      peer_find_by_id c' pid = (if pid = p_peer_id (c_peers c' ! i) then Some i else peer_find_by_id c pid)) \<and>
    (peer_holds c j q \<longrightarrow>
      peer_find_by_id (peer_free c j) pid = (if pid = q then None else peer_find_by_id c pid))"
proof (intro conjI impI)
  assume a: "peer_create E c ep k = (PC_created i, c')"
  note * = create_outcome_created[OF peer_create_outcome[OF assms a] assms]
  have "peer_holds c' i (p_peer_id (c_peers c' ! i))" using * by (simp add: peer_holds_def)
  moreover have "peer_holds c' m pid = peer_holds c m pid" if "pid \<noteq> p_peer_id (c_peers c' ! i)" for m
    using * that by (cases "m = i") (auto simp: peer_holds_def)
  ultimately show "peer_find_by_id c' pid = (if pid = p_peer_id (c_peers c' ! i) then Some i else peer_find_by_id c pid)"
    using * assms pt.lookup_iff[of c'] pt.lookup_preserved[of c c' pid] by auto
next
  assume h: "peer_holds c j q"
  then have j: "j < length (c_peers c)" by (simp add: peer_holds_def)
  note inv' = peer_free_inv[OF assms j]
  have "peer_holds (peer_free c j) m pid = (pid \<noteq> q \<and> peer_holds c m pid)" for m
    using h pt.holds_unique[OF assms, of j q m] peer_free_inactive[OF j]
    by (cases "m = j") (auto simp: peer_holds_def)
  then show "peer_find_by_id (peer_free c j) pid = (if pid = q then None else peer_find_by_id c pid)"
    using pt.lookup_None[OF inv'] pt.lookup_preserved[OF assms inv', of pid] by auto
qed

text \<open>Example tables: two slots, both free with the counter before the reserved values, and one in use.\<close>

definition demo_ep :: cplat_ipv4_endpoint where
  "demo_ep = \<lparr>ep_address = 0x0100007F, ep_port = 0xA00F\<rparr>"

definition demo_n1 :: potr_context where
  "demo_n1 = demo_ctx\<lparr>c_service := demo_service\<lparr>sd_type := POTR_TYPE_UNICAST_BIDIR_N1\<rparr>, c_is_multi_peer := True,
     c_peers := replicate 2 peer_zero, c_next_peer_id := POTR_PEER_ALL\<rparr>"

definition demo_n1_used :: potr_context where
  "demo_n1_used = demo_n1\<lparr>c_peers := [peer_zero\<lparr>p_peer_id := 1, p_active := True\<rparr>, peer_zero], c_n_peers := 1\<rparr>"

lemma demo_n1_inv: "table_inv demo_n1" "table_inv demo_n1_used"
  by (simp_all add: table_inv_def demo_n1_def demo_n1_used_def demo_ctx_def peer_zero_def active_ids_def)


theorem peer_lookup_after_witness:
  "\<exists>c'. peer_create demo_cplat demo_n1_used demo_ep 1 = (PC_created 1, c') \<and> peer_holds demo_n1_used 0 1 \<and>
     peer_find_by_id c' (p_peer_id (c_peers c' ! 1)) = Some 1 \<and> peer_find_by_id (peer_free demo_n1_used 0) 1 = None"
proof -
  have "fst (peer_create demo_cplat demo_n1_used demo_ep 1) = PC_created 1" by code_simp
  then obtain c' where c: "peer_create demo_cplat demo_n1_used demo_ep 1 = (PC_created 1, c')"
    by (metis prod.collapse)
  have h: "peer_holds demo_n1_used 0 1" by (simp add: peer_holds_def demo_n1_used_def)
  show ?thesis using c h peer_lookup_after[OF demo_n1_inv(2), of demo_cplat demo_ep 1 1 c' _ 0 1] by auto
qed

end
