(* ===== verification/Recv_Session.thy ===== *)
theory Recv_Session
  imports Peer_Table
begin

text \<open>
  Session tracking of the receive path (\<^verbatim>\<open>thread/thread_recv_session.c\<close>): whether a packet belongs
  to the tracked session, a newer one or an older one; path health; the learned return
  address.  The functions of that file that synchronise path states are in \<^verbatim>\<open>Path_Event\<close>.
\<close>

section \<open>Definitions\<close>

definition slot_clear_pending_fin :: "slot_state \<Rightarrow> slot_state" where
  "slot_clear_pending_fin st = st\<lparr>s_pending_fin := False, s_fin_target_seq := 0\<rparr>"

definition session_adopt :: "cplat \<Rightarrow> potr_context \<Rightarrow> slot_ref \<Rightarrow> potr_packet \<Rightarrow> bool \<times> potr_context" where
  "session_adopt E c r pkt =
    (let st = get_slot c r;
         pkt_session_ts = session_ts_from_hdr (session_tv_sec pkt) (session_tv_nsec pkt);
         reinit = (\<lambda>st. st\<lparr>s_recv_window := snd (window_init E (s_recv_window st) (seq_num pkt)
                      (gc_window_size (c_global c)) (gc_max_payload (c_global c)))\<rparr>)
     in if \<not> s_peer_session_known st then
          (True, put_slot c r (reinit (slot_clear_pending_fin
             (st\<lparr>s_peer_session_id := session_id pkt, s_peer_session_ts := pkt_session_ts,
                 s_peer_session_known := True, s_reorder_pending := False\<rparr>))))
        else
          (let ts_cmp = timespec_cmp E pkt_session_ts (s_peer_session_ts st)
           in if ts_cmp < 0 then (False, c)
              else if \<not> ts_cmp > 0 \<and> \<not> session_id pkt > s_peer_session_id st
              then (if session_id pkt = s_peer_session_id st then (True, c) else (False, c))
              else (True, put_slot c r (reinit (slot_clear_pending_fin
                 (st\<lparr>s_peer_session_id := session_id pkt, s_peer_session_ts := pkt_session_ts,
                     s_reorder_pending := False\<rparr>))))))"

definition set_path_ping_state :: "u8 list \<Rightarrow> nat \<Rightarrow> u8 \<Rightarrow> bool \<times> u8 list" where
  "set_path_ping_state states k next_state =
    (if states ! k = next_state then (False, states) else (True, states[k := next_state]))"

definition set_all_path_ping_states :: "u8 list \<Rightarrow> nat \<Rightarrow> u8 \<Rightarrow> bool \<times> u8 list" where
  "set_all_path_ping_states states count next_state =
    fold (\<lambda>i (changed, s). if s ! i \<noteq> next_state then (True, s[i := next_state]) else (changed, s))
      [0..<count] (False, states)"

definition update_path_health :: "cplat \<Rightarrow> potr_context \<Rightarrow> slot_ref \<Rightarrow> nat \<Rightarrow> bool \<times> potr_context" where
  "update_path_health E c r path_idx =
    (let (now_ts, c1) = clock_get_monotonic E c;
         st = get_slot c1 r;
         (changed, states) = set_path_ping_state (s_path_ping_state st) path_idx POTR_PING_STATE_NORMAL
     in (changed, put_slot c1 r (st\<lparr>s_last_recv_ts := now_ts,
           s_path_last_recv_ts := (s_path_last_recv_ts st)[path_idx := now_ts], s_path_ping_state := states\<rparr>)))"

fun learn_sender_path :: "potr_context \<Rightarrow> slot_ref \<Rightarrow> nat \<Rightarrow> cplat_ipv4_endpoint \<Rightarrow> potr_context" where
  "learn_sender_path c (PeerSlot i) path_idx sender =
    (let p = c_peers c ! i; st = p_slot p; dest = s_dest_addr st
     in if \<not> endpoint_is_unset (dest ! path_idx)
        then put_peer c i (p\<lparr>p_slot := st\<lparr>s_dest_addr := dest[path_idx := (dest ! path_idx)\<lparr>ep_port := ep_port sender\<rparr>]\<rparr>\<rparr>)
        else put_peer c i (p\<lparr>p_slot := st\<lparr>s_dest_addr := dest[path_idx := sender]\<rparr>, p_n_paths := p_n_paths p + 1\<rparr>))"
| "learn_sender_path c CtxSlot path_idx sender =
    (let c1 = c\<lparr>c_peer_port := (c_peer_port c)[path_idx := ep_port sender]\<rparr>
     in if sd_type (c_service c1) = POTR_TYPE_UNICAST_BIDIR then
          upd_slot c1 CtxSlot (\<lambda>st.
            let d = s_dest_addr st ! path_idx;
                d1 = (if sd_src_addr (c_service c1) ! 0 = [] \<and> ep_address d = 0
                      then d\<lparr>ep_address := ep_address sender\<rparr> else d);
                d2 = (if ep_port d1 = 0 then d1\<lparr>ep_port := ep_port sender\<rparr> else d1)
            in st\<lparr>s_dest_addr := (s_dest_addr st)[path_idx := d2]\<rparr>)
        else c1)"

section \<open>Local steps\<close>

lemma slot_inv_reinit:
  fixes E :: cplat and s :: u32
  assumes "slot_inv G st"
  defines "w \<equiv> snd (window_init E (s_recv_window st) s (gc_window_size G) (gc_max_payload G))"
  shows "slot_inv G (st\<lparr>s_recv_window := w\<rparr>)" "recv_inv w" "win_base_seq w = s"
    "recv_abs w = replicate (unat (gc_window_size G)) None"
proof -
  let ?w = "s_recv_window st"
  have wf: "win_wf ?w" "win_window_size ?w = gc_window_size G" "win_max_payload ?w = gc_max_payload G"
    using assms(1) by (auto simp: slot_inv_def intro: recv_inv_wf)
  from window_reinit[OF wf] obtain w' where w': "window_init E ?w s (gc_window_size G) (gc_max_payload G) = (POTR_OK, w')"
    by blast
  then have [simp]: "w = w'" by (simp add: w_def)
  have pre: "win_init_pre ?w" "0 < unat (gc_window_size G)" using wf win_wfD(1)[OF wf(1)] by (simp_all add: win_init_pre_def)
  note i = window_init_wf[OF pre w'] window_init_recv[OF pre w']
  show "recv_inv w" "win_base_seq w = s" "recv_abs w = replicate (unat (gc_window_size G)) None" using i by simp_all
  show "slot_inv G (st\<lparr>s_recv_window := w\<rparr>)" using assms(1) i by (simp add: slot_inv_def)
qed

lemma local_step_put:
  assumes "slot_inv (c_global c) (get_slot c r) \<Longrightarrow>
      slot_inv (c_global c) st \<and> view_of st = view_of (get_slot c r)"
  shows "local_step r c (put_slot c r st)"
  using local_step_upd[of c r "\<lambda>_. st"] assms by (auto simp: upd_slot_def)

lemma slot_clear_pending_fin_frame [simp]:
  "slot_inv G (slot_clear_pending_fin st) = slot_inv G st" "view_of (slot_clear_pending_fin st) = view_of st"
  by (simp_all add: slot_clear_pending_fin_def)

lemma local_step_session_adopt: "local_step r c (snd (session_adopt E c r pkt))"
proof -
  have *: "local_step r c (put_slot c r (s0\<lparr>s_recv_window := snd (window_init E (s_recv_window s0) (seq_num pkt)
        (gc_window_size (c_global c)) (gc_max_payload (c_global c)))\<rparr>))"
    if "slot_inv (c_global c) s0 = slot_inv (c_global c) (get_slot c r)" "view_of s0 = view_of (get_slot c r)" for s0
    by (rule local_step_put) (use that slot_inv_reinit(1) in auto)
  show ?thesis
    unfolding session_adopt_def Let_def
    by (auto intro!: * simp del: put_slot.simps)
qed

lemma length_set_all [simp]: "length (snd (set_all_path_ping_states s n x)) = length s"
proof -
  have "length (snd (fold (\<lambda>i (changed, s). if s ! i \<noteq> x then (True, s[i := x]) else (changed, s)) is (b, s))) = length s" for "is" b
    by (induction "is" arbitrary: b s) auto
  then show ?thesis by (simp add: set_all_path_ping_states_def)
qed

lemma length_set_path [simp]: "length (snd (set_path_ping_state s k x)) = length s"
  by (simp add: set_path_ping_state_def)

lemma local_step_update_health: "local_step r c (snd (update_path_health E c r k))"
proof -
  obtain t c1 where clk: "clock_get_monotonic E c = (t, c1)" by fastforce
  show ?thesis unfolding update_path_health_def clk Let_def prod.case snd_conv case_prod_unfold
    by (rule local_step_trans[OF local_step_clock(1)[OF clk]], rule local_step_put)
      (auto intro!: slot_inv_lists simp: slot_inv_lengths)
qed

lemma local_step_put_peer:
  assumes "slot_inv (c_global c) (p_slot (c_peers c ! i)) \<Longrightarrow> slot_inv (c_global c) (p_slot p) \<and>
      view_of (p_slot p) = view_of (p_slot (c_peers c ! i))"
    "p_peer_id p = p_peer_id (c_peers c ! i)" "p_active p = p_active (c_peers c ! i)"
  shows "local_step (PeerSlot i) c (put_peer c i p)"
  unfolding local_step_def
proof (intro impI, elim conjE)
  assume ok: "slot_ok c (PeerSlot i)" and inv: "slot_inv (c_global c) (get_slot c (PeerSlot i))"
  have i: "i < length (c_peers c)" using ok by simp
  have f: "ctx_frame c (put_peer c i p)"
    using i assms(2,3) by (auto simp: ctx_frame_def put_peer_def map_update list_update_same_conv)
  have o: "get_slot (put_peer c i p) r' = get_slot c r'" if "r' \<noteq> PeerSlot i" for r'
    using that by (cases r') (auto simp: put_peer_def)
  have g: "get_slot (put_peer c i p) (PeerSlot i) = p_slot p" using i by (simp add: put_peer_def)
  have "trace_step (PeerSlot i) c (put_peer c i p)"
    by (rule trace_step_refl) (use assms(1) inv g in \<open>simp_all add: put_peer_def\<close>)
  then show "ctx_frame c (put_peer c i p) \<and> (\<forall>r'. r' \<noteq> PeerSlot i \<longrightarrow> get_slot (put_peer c i p) r' = get_slot c r') \<and>
     slot_inv (c_global c) (get_slot (put_peer c i p) (PeerSlot i)) \<and> trace_step (PeerSlot i) c (put_peer c i p)"
    using f o g assms(1) inv by simp
qed

lemma local_step_peer_port: "local_step r c (c\<lparr>c_peer_port := x\<rparr>)"
  by (rule local_step_frame[of _ _ "[]"]) (simp_all add: ctx_frame_def, case_tac r', simp_all)

lemma local_step_learn: "local_step r c (learn_sender_path c r k sender)"
proof (cases r)
  case CtxSlot
  show ?thesis unfolding CtxSlot learn_sender_path.simps Let_def
    by (auto intro!: local_step_trans[OF local_step_peer_port local_step_upd] local_step_peer_port slot_inv_lists
        simp: slot_inv_lengths)
next
  case (PeerSlot i)
  show ?thesis unfolding PeerSlot learn_sender_path.simps Let_def
    by (auto intro!: local_step_put_peer slot_inv_lists simp: slot_inv_lengths)
qed

section \<open>Newest session wins\<close>

text \<open>The order of sessions: start time (signed seconds, then nanoseconds), then identifier.\<close>

definition session_before :: "cplat_timespec \<times> u32 \<Rightarrow> cplat_timespec \<times> u32 \<Rightarrow> bool" where
  "session_before a b \<longleftrightarrow>
     sint (tv_sec (fst a)) < sint (tv_sec (fst b)) \<or> tv_sec (fst a) = tv_sec (fst b) \<and>
       (sint (tv_nsec (fst a)) < sint (tv_nsec (fst b)) \<or> tv_nsec (fst a) = tv_nsec (fst b) \<and> snd a < snd b)"

definition pkt_session :: "potr_packet \<Rightarrow> cplat_timespec \<times> u32" where
  "pkt_session pkt = (session_ts_from_hdr (session_tv_sec pkt) (session_tv_nsec pkt), session_id pkt)"

definition slot_session :: "slot_state \<Rightarrow> cplat_timespec \<times> u32" where
  "slot_session st = (s_peer_session_ts st, s_peer_session_id st)"

lemma session_before_total: "session_before a b \<or> a = b \<or> session_before b a"
proof -
  have eq: "x = y" if "\<not> sint x < sint y" "\<not> sint y < sint x" for x y :: u64
    using that by (intro signed_word_eqI) simp
  obtain s n i where a: "a = (\<lparr>tv_sec = s, tv_nsec = n\<rparr>, i)" by (cases a; cases "fst a") auto
  obtain t m j where b: "b = (\<lparr>tv_sec = t, tv_nsec = m\<rparr>, j)" by (cases b; cases "fst b") auto
  show ?thesis unfolding a b session_before_def using eq[of s t] eq[of n m] linorder_less_linear[of i j] by auto
qed

lemma timespec_cmp_cases:
  assumes "timespec_ok E"
  shows "session_before (a, i) (b, j) \<longleftrightarrow> timespec_cmp E a b < 0 \<or> timespec_cmp E a b = 0 \<and> i < j"
    "(a = b) \<longleftrightarrow> timespec_cmp E a b = 0" "timespec_cmp E b a > 0 \<longleftrightarrow> timespec_cmp E a b < 0"
proof -
  have lt: "(timespec_cmp E x y < 0) = (sint (tv_sec x) < sint (tv_sec y) \<or>
        tv_sec x = tv_sec y \<and> sint (tv_nsec x) < sint (tv_nsec y))"
    and eq: "(timespec_cmp E x y = 0) = (tv_sec x = tv_sec y \<and> tv_nsec x = tv_nsec y)" for x y
    using assms unfolding timespec_ok_def by blast+
  show "session_before (a, i) (b, j) \<longleftrightarrow> timespec_cmp E a b < 0 \<or> timespec_cmp E a b = 0 \<and> i < j"
    unfolding lt eq session_before_def by auto
  show "(a = b) \<longleftrightarrow> timespec_cmp E a b = 0" unfolding eq by (cases a; cases b) auto
  have "timespec_cmp E b a > 0 \<longleftrightarrow> \<not> (timespec_cmp E b a < 0) \<and> \<not> (timespec_cmp E b a = 0)" by auto
  also have "\<dots> \<longleftrightarrow> timespec_cmp E a b < 0"
  proof -
    have neq: "x = y \<longleftrightarrow> \<not> sint x < sint y \<and> \<not> sint y < sint x" for x y :: u64
      using signed_word_eqI[of x y] by force
    show ?thesis unfolding lt eq neq by linarith
  qed
  finally show "timespec_cmp E b a > 0 \<longleftrightarrow> timespec_cmp E a b < 0" .
qed

lemma session_adopt_eq:
  assumes "timespec_ok E"
  defines "fresh \<equiv> \<lambda>c r pkt. put_slot c r ((get_slot c r)\<lparr>s_peer_session_id := session_id pkt,
      s_peer_session_ts := session_ts_from_hdr (session_tv_sec pkt) (session_tv_nsec pkt),
      s_peer_session_known := True, s_reorder_pending := False, s_pending_fin := False, s_fin_target_seq := 0,
      s_recv_window := snd (window_init E (s_recv_window (get_slot c r)) (seq_num pkt)
        (gc_window_size (c_global c)) (gc_max_payload (c_global c)))\<rparr>)"
  shows "session_adopt E c r pkt =
    (if \<not> s_peer_session_known (get_slot c r) \<or> session_before (slot_session (get_slot c r)) (pkt_session pkt)
     then (True, fresh c r pkt)
     else (pkt_session pkt = slot_session (get_slot c r), c))"
proof -
  let ?st = "get_slot c r" and ?ts = "session_ts_from_hdr (session_tv_sec pkt) (session_tv_nsec pkt)"
  note cmp = timespec_cmp_cases[OF assms(1)]
  have before: "session_before (slot_session ?st) (pkt_session pkt) \<longleftrightarrow>
      timespec_cmp E ?ts (s_peer_session_ts ?st) > 0 \<or>
      timespec_cmp E ?ts (s_peer_session_ts ?st) = 0 \<and> session_id pkt > s_peer_session_id ?st"
    unfolding slot_session_def pkt_session_def cmp(1) cmp(3)[symmetric] cmp(2)[symmetric] by auto
  have same: "pkt_session pkt = slot_session ?st \<longleftrightarrow>
      timespec_cmp E ?ts (s_peer_session_ts ?st) = 0 \<and> session_id pkt = s_peer_session_id ?st"
    unfolding slot_session_def pkt_session_def by (simp add: cmp(2))
  have kn: "s\<lparr>s_peer_session_id := a, s_peer_session_ts := b, s_peer_session_known := True, s_reorder_pending := p,
      s_pending_fin := f, s_fin_target_seq := q, s_recv_window := w\<rparr> =
    s\<lparr>s_peer_session_id := a, s_peer_session_ts := b, s_reorder_pending := p,
      s_pending_fin := f, s_fin_target_seq := q, s_recv_window := w\<rparr>" if "s_peer_session_known s" for s a b p f q w
    using that by (cases s) simp
  show ?thesis
  proof (cases "s_peer_session_known ?st")
    case True
    show ?thesis
      unfolding session_adopt_def Let_def before same fresh_def slot_clear_pending_fin_def kn[OF True]
      using True by (auto simp del: put_slot.simps)
  qed (simp add: session_adopt_def Let_def fresh_def slot_clear_pending_fin_def)
qed

text \<open>
  C16: A packet of a session newer than the tracked one (or the first packet) makes it the
  tracked session, empties the receive window and moves it to the packet's own sequence
  number, and drops a pending FIN and reorder wait; a packet of the tracked session is
  accepted without any change; a packet of an older session is rejected without any change.
  One of the three cases always applies, sessions being ordered by start time and identifier.
\<close>

theorem session_adopt_newest:
  assumes "timespec_ok E" "slot_ok c r" "slot_inv (c_global c) (get_slot c r)"
    and "session_adopt E c r pkt = (accepted, c')"
  defines "st \<equiv> get_slot c r" and "st' \<equiv> get_slot c' r" and "new \<equiv> pkt_session pkt"
  shows "if \<not> s_peer_session_known st \<or> session_before (slot_session st) new
     then accepted \<and> s_peer_session_known st' \<and> slot_session st' = new \<and>
       win_next_seq (s_recv_window st') = seq_num pkt \<and> set (recv_abs (s_recv_window st')) = {None} \<and>
       \<not> s_pending_fin st' \<and> \<not> s_reorder_pending st'
     else c' = c \<and> (if accepted then new = slot_session st else session_before new (slot_session st))"
proof (cases "\<not> s_peer_session_known st \<or> session_before (slot_session st) new")
  case True
  let ?w = "snd (window_init E (s_recv_window st) (seq_num pkt) (gc_window_size (c_global c)) (gc_max_payload (c_global c)))"
  note w = slot_inv_reinit(2-4)[OF assms(3), where E = E and s = "seq_num pkt"]
  have "0 < unat (gc_window_size (c_global c))"
    using assms(3) win_wfD(1)[OF recv_inv_wf] by (fastforce simp: slot_inv_def)
  then have "set (recv_abs ?w) = {None}" "win_next_seq ?w = seq_num pkt"
    using w recv_inv_next by (simp_all add: st_def)
  moreover have "accepted" and c': "c' = put_slot c r (st\<lparr>s_peer_session_id := session_id pkt,
      s_peer_session_ts := session_ts_from_hdr (session_tv_sec pkt) (session_tv_nsec pkt),
      s_peer_session_known := True, s_reorder_pending := False, s_pending_fin := False, s_fin_target_seq := 0,
      s_recv_window := ?w\<rparr>)"
    using assms(4) True[unfolded st_def new_def] unfolding session_adopt_eq[OF assms(1)] st_def by (simp_all only: if_True prod.inject)
  moreover have "st' = st\<lparr>s_peer_session_id := session_id pkt,
      s_peer_session_ts := session_ts_from_hdr (session_tv_sec pkt) (session_tv_nsec pkt),
      s_peer_session_known := True, s_reorder_pending := False, s_pending_fin := False, s_fin_target_seq := 0,
      s_recv_window := ?w\<rparr>"
    unfolding st'_def c' by (rule put_slot_laws(1)[OF assms(2)])
  ultimately show ?thesis using True by (simp add: new_def pkt_session_def slot_session_def)
next
  case False
  then have "(accepted, c') = (new = slot_session st, c)"
    using assms(4) unfolding session_adopt_eq[OF assms(1)] st_def new_def by (simp only: if_False)
  then show ?thesis using False session_before_total[of new "slot_session st"] by auto
qed

definition demo_data :: "u32 \<Rightarrow> potr_packet" where
  "demo_data seq = host_packet demo_sh seq 0 POTR_FLAG_DATA []"

lemma demo_ctx_slot: "slot_ok demo_ctx CtxSlot" "slot_inv (c_global demo_ctx) (get_slot demo_ctx CtxSlot)"
proof -
  have pre: "win_init_pre window_zero" "0 < unat (4 :: u16)" by (simp_all add: win_init_pre_def window_zero_def)
  show "slot_inv (c_global demo_ctx) (get_slot demo_ctx CtxSlot)"
    using window_init_wf[OF pre demo_window_init(1)] window_init_recv[OF pre demo_window_init(1)]
    by (simp add: slot_inv_def demo_ctx_def slot_zero_def demo_global_def)
qed simp

theorem session_adopt_newest_witness:
  "let (accepted, c') = session_adopt demo_cplat demo_ctx CtxSlot (demo_data 7) in
     accepted \<and> slot_session (get_slot c' CtxSlot) = pkt_session (demo_data 7) \<and>
     win_next_seq (s_recv_window (get_slot c' CtxSlot)) = 7"
proof -
  obtain a c' where s: "session_adopt demo_cplat demo_ctx CtxSlot (demo_data 7) = (a, c')" by (meson surj_pair)
  have k: "\<not> s_peer_session_known (get_slot demo_ctx CtxSlot)" by (simp add: demo_ctx_def slot_zero_def)
  have "seq_num (demo_data 7) = 7" by (simp add: demo_data_def host_packet_def)
  with session_adopt_newest[OF demo_timespec demo_ctx_slot s] k show ?thesis unfolding s by simp
qed

end
