(* ===== verification/Recv_Slot.thy ===== *)
theory Recv_Slot
  imports Recv_Session
begin

text \<open>
  Delivery to the application (\<^verbatim>\<open>thread/thread_recv_slot.c\<close>): joining the fragments of a message,
  expanding it when compressed, and calling the callback, but only while the slot is connected.
\<close>

unbundle bit_operations_syntax

section \<open>Definitions\<close>

definition slot_recv_deliver :: "cplat \<Rightarrow> potr_context \<Rightarrow> slot_ref \<Rightarrow> bytes \<Rightarrow> bool \<Rightarrow> potr_context" where
  "slot_recv_deliver E c r data compressed =
    (if compressed then
       (case decompress E (c_compress_buf_size c) data of
          Some d \<Rightarrow> callback_emit c (slot_peer_id c r) (POTR_EVENT_DATA d)
        | None \<Rightarrow> c)
     else callback_emit c (slot_peer_id c r) (POTR_EVENT_DATA data))"

definition elem_data :: "potr_packet \<Rightarrow> bytes" where
  "elem_data elem = take (unat (payload_len elem)) (payload elem)"

definition slot_deliver_payload_elem :: "cplat \<Rightarrow> potr_context \<Rightarrow> slot_ref \<Rightarrow> potr_packet \<Rightarrow> potr_context" where
  "slot_deliver_payload_elem E c r elem =
    (let st = get_slot c r;
         frag_buf_len = length (s_frag_buf st);
         max_message_size = unat (gc_max_message_size (c_global c))
     in if \<not> s_health_alive st then c
        else if flags elem AND POTR_FLAG_MORE_FRAG \<noteq> 0 then
          (if frag_buf_len + unat (payload_len elem) \<le> max_message_size then
             (let st1 = (if frag_buf_len = 0
                         then st\<lparr>s_frag_compressed := (flags elem AND POTR_FLAG_COMPRESSED \<noteq> 0)\<rparr> else st)
              in put_slot c r (st1\<lparr>s_frag_buf := s_frag_buf st @ elem_data elem\<rparr>))
           else put_slot c r (st\<lparr>s_frag_buf := [], s_frag_compressed := False\<rparr>))
        else if frag_buf_len > 0 then
          (let c1 = (if frag_buf_len + unat (payload_len elem) \<le> max_message_size \<and> c_callback c
                     then slot_recv_deliver E c r (s_frag_buf st @ elem_data elem) (s_frag_compressed st) else c)
           in upd_slot c1 r (\<lambda>st. st\<lparr>s_frag_buf := [], s_frag_compressed := False\<rparr>))
        else if c_callback c
        then slot_recv_deliver E c r (elem_data elem) (flags elem AND POTR_FLAG_COMPRESSED \<noteq> 0)
        else c)"

section \<open>Local steps\<close>

lemma local_step_deliver:
  "s_health_alive (get_slot c r) \<Longrightarrow> local_step r c (slot_recv_deliver E c r d z)"
  by (auto simp: slot_recv_deliver_def split: option.split intro: local_step_data)

lemma length_elem_data: "length (elem_data e) \<le> unat (payload_len e)"
  by (simp add: elem_data_def)

lemma local_step_deliver_elem: "local_step r c (slot_deliver_payload_elem E c r elem)"
proof -
  have clear: "local_step r d (upd_slot d r (\<lambda>st. st\<lparr>s_frag_buf := [], s_frag_compressed := False\<rparr>))" for d
    by (rule local_step_upd) (auto intro: slot_inv_lists)
  note clear_put = clear[unfolded upd_slot_def]
  show ?thesis
    unfolding slot_deliver_payload_elem_def Let_def
    using length_elem_data[of elem]
    by (auto intro!: local_step_put local_step_deliver local_step_trans[OF local_step_deliver clear] clear clear_put
        slot_inv_lists simp del: put_slot.simps)
qed

section \<open>Reassembly\<close>

lemma callback_emit_on:
  "c_callback c \<Longrightarrow> callback_emit c pid ev = c\<lparr>c_trace := c_trace c @ [Io_callback pid ev]\<rparr>"
  by (simp add: callback_emit_def callback_emit_locked_def emit_def)

text \<open>What the callback receives for the bytes of a message.\<close>

definition delivered :: "cplat \<Rightarrow> nat \<Rightarrow> potr_peer_id \<Rightarrow> bytes \<Rightarrow> bool \<Rightarrow> io list" where
  "delivered E cap pid data compressed =
    (if compressed then (case decompress E cap data of None \<Rightarrow> [] | Some d \<Rightarrow> [Io_callback pid (POTR_EVENT_DATA d)])
     else [Io_callback pid (POTR_EVENT_DATA data)])"

lemma recv_deliver_eq:
  "c_callback c \<Longrightarrow> slot_recv_deliver E c r data z =
     c\<lparr>c_trace := c_trace c @ delivered E (c_compress_buf_size c) (slot_peer_id c r) data z\<rparr>"
  by (simp add: slot_recv_deliver_def delivered_def callback_emit_on split: option.split)

definition is_middle :: "potr_packet \<Rightarrow> bool" where
  "is_middle e \<longleftrightarrow> flags e AND POTR_FLAG_MORE_FRAG \<noteq> 0 \<and> payload e \<noteq> [] \<and> unat (payload_len e) = length (payload e)"

definition is_final :: "potr_packet \<Rightarrow> bool" where
  "is_final e \<longleftrightarrow> flags e AND POTR_FLAG_MORE_FRAG = 0 \<and> unat (payload_len e) = length (payload e)"

lemma deliver_middle:
  assumes "slot_ok c r" "s_health_alive (get_slot c r)" "is_middle e"
    "length (s_frag_buf (get_slot c r)) + length (payload e) \<le> unat (gc_max_message_size (c_global c))"
  shows "slot_deliver_payload_elem E c r e = put_slot c r ((get_slot c r)
    \<lparr>s_frag_compressed := (if s_frag_buf (get_slot c r) = [] then flags e AND POTR_FLAG_COMPRESSED \<noteq> 0
        else s_frag_compressed (get_slot c r)), s_frag_buf := s_frag_buf (get_slot c r) @ payload e\<rparr>)"
  using assms by (simp add: slot_deliver_payload_elem_def Let_def is_middle_def elem_data_def)

lemma deliver_middles:
  assumes "slot_ok c r" "s_health_alive (get_slot c r)" "\<forall>e\<in>set es. is_middle e" "s_frag_buf (get_slot c r) \<noteq> []"
    "length (s_frag_buf (get_slot c r)) + length (concat (map payload es)) \<le> unat (gc_max_message_size (c_global c))"
  shows "fold (\<lambda>e c. slot_deliver_payload_elem E c r e) es c =
    put_slot c r ((get_slot c r)\<lparr>s_frag_buf := s_frag_buf (get_slot c r) @ concat (map payload es)\<rparr>)"
  using assms
proof (induction es arbitrary: c)
  case Nil
  then show ?case by (simp add: put_slot_laws(2))
next
  case (Cons e es)
  let ?s = "get_slot c r"
  let ?c1 = "put_slot c r (?s\<lparr>s_frag_buf := s_frag_buf ?s @ payload e\<rparr>)"
  have d: "slot_deliver_payload_elem E c r e = ?c1"
    using deliver_middle[of c r e] Cons.prems by simp
  have g: "get_slot ?c1 r = ?s\<lparr>s_frag_buf := s_frag_buf ?s @ payload e\<rparr>"
    using Cons.prems(1) by (rule put_slot_laws(1))
  have "fold (\<lambda>e c. slot_deliver_payload_elem E c r e) es ?c1 =
      put_slot ?c1 r ((get_slot ?c1 r)\<lparr>s_frag_buf := s_frag_buf (get_slot ?c1 r) @ concat (map payload es)\<rparr>)"
    by (rule Cons.IH) (use Cons.prems in \<open>simp_all add: g put_slot_laws(4)\<close>)
  then show ?case by (simp only: fold.simps comp_apply d g put_slot_laws(3)) simp
qed

lemma deliver_final:
  assumes "slot_ok c r" "s_health_alive (get_slot c r)" "c_callback c" "is_final e" "s_frag_buf (get_slot c r) \<noteq> []"
    "length (s_frag_buf (get_slot c r)) + length (payload e) \<le> unat (gc_max_message_size (c_global c))"
  shows "slot_deliver_payload_elem E c r e = upd_slot (c\<lparr>c_trace := c_trace c @
      delivered E (c_compress_buf_size c) (slot_peer_id c r) (s_frag_buf (get_slot c r) @ payload e)
        (s_frag_compressed (get_slot c r))\<rparr>) r (\<lambda>st. st\<lparr>s_frag_buf := [], s_frag_compressed := False\<rparr>)"
  using assms by (simp add: slot_deliver_payload_elem_def Let_def is_final_def elem_data_def recv_deliver_eq)

lemma reassembly:
  fixes E :: cplat
  assumes "slot_ok c r" "s_health_alive (get_slot c r)" "c_callback c" "s_frag_buf (get_slot c r) = []"
    and "es \<noteq> []" "\<forall>e\<in>set es. is_middle e" "is_final e"
    and "length (concat (map payload (es @ [e]))) \<le> unat (gc_max_message_size (c_global c))"
  defines "c' \<equiv> fold (\<lambda>e c. slot_deliver_payload_elem E c r e) (es @ [e]) c"
  shows "c_trace c' = c_trace c @ delivered E (c_compress_buf_size c) (slot_peer_id c r)
           (concat (map payload (es @ [e]))) (flags (hd es) AND POTR_FLAG_COMPRESSED \<noteq> 0) \<and>
     get_slot c' r = (get_slot c r)\<lparr>s_frag_compressed := False\<rparr>"
proof -
  let ?s = "get_slot c r" and ?z = "flags (hd es) AND POTR_FLAG_COMPRESSED \<noteq> 0"
  obtain f fs where es: "es = f # fs" using assms(5) by (cases es) auto
  have f: "is_middle f" "payload f \<noteq> []" using assms(6) by (simp_all add: es is_middle_def)
  let ?c1 = "put_slot c r (?s\<lparr>s_frag_compressed := ?z, s_frag_buf := payload f\<rparr>)"
  have d1: "slot_deliver_payload_elem E c r f = ?c1"
    using deliver_middle[of c r f] f assms by (simp add: es)
  have g1: "get_slot ?c1 r = ?s\<lparr>s_frag_compressed := ?z, s_frag_buf := payload f\<rparr>"
    using assms(1) by (rule put_slot_laws(1))
  let ?s2 = "?s\<lparr>s_frag_compressed := ?z, s_frag_buf := payload f @ concat (map payload fs)\<rparr>"
  let ?c2 = "put_slot c r ?s2"
  have d2: "fold (\<lambda>e c. slot_deliver_payload_elem E c r e) fs ?c1 = ?c2"
    using deliver_middles[of ?c1 r fs] f assms by (simp add: es g1 put_slot_laws)
  have g2: "get_slot ?c2 r = ?s2" using assms(1) by (rule put_slot_laws(1))
  have ok2: "slot_ok ?c2 r" using assms(1) by (simp only: put_slot_laws(4))
  have c': "c' = slot_deliver_payload_elem E ?c2 r e"
  proof -
    have "c' = fold (\<lambda>e c. slot_deliver_payload_elem E c r e) ((f # fs) @ [e]) c" unfolding c'_def es ..
    then show ?thesis by (simp only: append.simps fold.simps comp_apply d1 fold_append d2 id_apply)
  qed
  have *: "c' = upd_slot (?c2\<lparr>c_trace := c_trace ?c2 @
      delivered E (c_compress_buf_size ?c2) (slot_peer_id ?c2 r) (s_frag_buf (get_slot ?c2 r) @ payload e)
        (s_frag_compressed (get_slot ?c2 r))\<rparr>) r (\<lambda>st. st\<lparr>s_frag_buf := [], s_frag_compressed := False\<rparr>)"
    unfolding c' by (rule deliver_final[OF ok2]) (use assms f in \<open>simp_all add: put_slot_laws(1)[OF assms(1)] es del: put_slot.simps\<close>)
  have cb: "c_compress_buf_size (put_slot c r x) = c_compress_buf_size c" for x by (cases r) simp_all
  have "get_slot c' r = ?s2\<lparr>s_frag_buf := [], s_frag_compressed := False\<rparr>"
    unfolding * using ok2 g2 by simp
  also have "\<dots> = ?s\<lparr>s_frag_compressed := False\<rparr>" using assms(4) by (cases ?s) simp
  finally have slot: "get_slot c' r = ?s\<lparr>s_frag_compressed := False\<rparr>" .
  have "c_trace c' = c_trace c @ delivered E (c_compress_buf_size c) (slot_peer_id c r)
      (concat (map payload (es @ [e]))) ?z"
    unfolding * upd_slot_frame by (simp add: put_slot_laws(1)[OF assms(1)] es cb del: put_slot.simps)
  with slot show ?thesis by blast
qed

text \<open>
  C17: Reassembly.  While the slot is connected, the elements of a message split into any
  number of non-empty fragments followed by a final one, delivered in order to an empty
  fragment buffer and within the message limit, cause exactly one callback with the
  concatenated bytes (expanded if the first fragment is marked compressed, and none if the
  expansion fails), and leave the buffer empty for the next message.
\<close>

theorem fragments_reassembled:
  fixes E :: cplat
  assumes "slot_ok c r" "s_health_alive (get_slot c r)" "c_callback c" "s_frag_buf (get_slot c r) = []"
    and "es \<noteq> []" "\<forall>e\<in>set es. is_middle e" "is_final e"
    and "length (concat (map payload (es @ [e]))) \<le> unat (gc_max_message_size (c_global c))"
  defines "c' \<equiv> fold (\<lambda>e c. slot_deliver_payload_elem E c r e) (es @ [e]) c"
  shows "c_trace c' = c_trace c @ delivered E (c_compress_buf_size c) (slot_peer_id c r)
           (concat (map payload (es @ [e]))) (flags (hd es) AND POTR_FLAG_COMPRESSED \<noteq> 0) \<and>
     get_slot c' r = (get_slot c r)\<lparr>s_frag_compressed := False\<rparr>"
  unfolding c'_def by (rule reassembly[OF assms(1-8)])

theorem fragments_reassembled_witness:
  "c_trace (fold (\<lambda>e c. slot_deliver_payload_elem demo_cplat c CtxSlot e)
      [elem_of zero_packet POTR_FLAG_MORE_FRAG [1, 2], elem_of zero_packet POTR_FLAG_MORE_FRAG [3],
       elem_of zero_packet 0 [4, 5]]
      (upd_slot demo_ctx CtxSlot (\<lambda>st. st\<lparr>s_health_alive := True\<rparr>)))
   = [Io_callback POTR_PEER_NA (POTR_EVENT_DATA [1, 2, 3, 4, 5])]"
proof -
  let ?c = "upd_slot demo_ctx CtxSlot (\<lambda>st. st\<lparr>s_health_alive := True\<rparr>)"
  let ?es = "[elem_of zero_packet POTR_FLAG_MORE_FRAG [1, 2], elem_of zero_packet POTR_FLAG_MORE_FRAG [3]]"
  have s: "get_slot ?c CtxSlot = (c_slot demo_ctx)\<lparr>s_health_alive := True\<rparr>" by (simp add: upd_slot_def)
  have b: "s_frag_buf (c_slot demo_ctx) = []" "c_callback demo_ctx" "c_trace demo_ctx = []"
    "unat (gc_max_message_size (c_global demo_ctx)) = 8"
    by (simp_all add: demo_ctx_def slot_zero_def demo_global_def)
  have m: "\<forall>e\<in>set ?es. is_middle e" "is_final (elem_of zero_packet 0 [4, 5])"
    by (simp_all add: is_middle_def is_final_def elem_of_def zero_packet_def)
  have "c_trace (fold (\<lambda>e c. slot_deliver_payload_elem demo_cplat c CtxSlot e) (?es @ [elem_of zero_packet 0 [4, 5]]) ?c) =
      c_trace ?c @ delivered demo_cplat (c_compress_buf_size ?c) (slot_peer_id ?c CtxSlot)
           (concat (map payload (?es @ [elem_of zero_packet 0 [4, 5]]))) (flags (hd ?es) AND POTR_FLAG_COMPRESSED \<noteq> 0)"
    by (rule fragments_reassembled[THEN conjunct1]) (use b m in \<open>simp_all add: upd_slot_def elem_of_def\<close>)
  then show ?thesis using b by (simp add: delivered_def elem_of_def zero_packet_def)
qed

end
