(* ===== verification/Tcp_Control.thy ===== *)
theory Tcp_Control
  imports Recv_Slot
begin

text \<open>
  Sending a control packet on the TCP connections (\<^verbatim>\<open>infra/potr_tcp_control.c\<close>): the packet is
  sealed once and written to every connected path.  The packet is in network byte order.
\<close>

unbundle bit_operations_syntax

section \<open>Definitions\<close>

definition tcp_send_all_locked :: "cplat \<Rightarrow> potr_context \<Rightarrow> nat \<Rightarrow> bytes \<Rightarrow> potr_result \<times> potr_context" where
  "tcp_send_all_locked E c i buf = socket_send_all E c i buf"

text \<open>The loop over the paths; the state is whether a path was tried and whether a write succeeded.\<close>

definition tcp_send_paths :: "cplat \<Rightarrow> potr_context \<Rightarrow> bytes \<Rightarrow> (bool \<times> bool) \<times> potr_context" where
  "tcp_send_paths E c wire =
    fold (\<lambda>i ((attempted, sent_any), c).
            if \<not> t_conn_fd (c_tcp c) ! i then ((attempted, sent_any), c)
            else (let (res, c1) = tcp_send_all_locked E c i wire
                  in ((True, sent_any \<or> res = POTR_OK), c1)))
      [0..<c_n_path c] ((False, False), c)"

definition tcp_send_control_packet :: "cplat \<Rightarrow> potr_context \<Rightarrow> potr_packet \<Rightarrow> u32 \<Rightarrow> potr_result \<times> potr_context" where
  "tcp_send_control_packet E c pkt nonce_val =
    (let finish = (\<lambda>wire.
           let ((attempted, sent_any), c1) = tcp_send_paths E c wire
           in (if sent_any then POTR_OK else if \<not> attempted then POTR_ERR_DISCONNECTED else POTR_ERR_IO, c1))
     in if sd_encrypt_enabled (c_service c) then
          (let pkt = pkt\<lparr>flags := flags pkt OR hton16 E POTR_FLAG_ENCRYPTED,
                         payload_len := hton16 E (of_nat POTR_CRYPTO_TAG_SIZE)\<rparr>;
               nonce = mem32 E (session_id pkt) @ mem16 E (flags pkt) @ mem32 E (hton32 E nonce_val) @ replicate 2 0;
               hdr = packet_header_bytes E pkt
           in case crypto_encrypt E POTR_CRYPTO_TAG_SIZE (sd_encrypt_key (c_service c)) nonce hdr [] of
                None \<Rightarrow> (POTR_ERR_UNKNOWN, c)
              | Some enc \<Rightarrow> finish (hdr @ enc))
        else finish (packet_header_bytes E pkt))"

section \<open>Lemmas\<close>

text \<open>The result as a function of what happened on the paths, and what was written.\<close>

lemma socket_send_all_io:
  "socket_send_all E c i b = (res, c') \<Longrightarrow> c_trace c' = c_trace c @ [Io_tcp_send i b] \<and> c_tcp c' = c_tcp c \<and>
     c_n_path c' = c_n_path c"
  by (auto simp: socket_send_all_def emit_def)

lemma tcp_send_paths_io:
  assumes "tcp_send_paths E c wire = ((attempted, sent_any), c')"
  shows "c_trace c' = c_trace c @ map (\<lambda>i. Io_tcp_send i wire) (filter (\<lambda>i. t_conn_fd (c_tcp c) ! i) [0..<c_n_path c]) \<and>
    (attempted \<longleftrightarrow> (\<exists>i<c_n_path c. t_conn_fd (c_tcp c) ! i)) \<and> (sent_any \<longrightarrow> attempted)"
proof -
  let ?step = "\<lambda>i ((attempted, sent_any), c).
            if \<not> t_conn_fd (c_tcp c) ! i then ((attempted, sent_any), c)
            else (let (res, c1) = tcp_send_all_locked E c i wire in ((True, sent_any \<or> res = POTR_OK), c1))"
  have "fold ?step is ((a, s), c0) = ((a', s'), c1) \<Longrightarrow> (s \<longrightarrow> a) \<Longrightarrow>
      c_trace c1 = c_trace c0 @ map (\<lambda>i. Io_tcp_send i wire) (filter (\<lambda>i. t_conn_fd (c_tcp c0) ! i) is) \<and>
      (a' \<longleftrightarrow> a \<or> (\<exists>i\<in>set is. t_conn_fd (c_tcp c0) ! i)) \<and> (s' \<longrightarrow> a')" for "is" a s c0 a' s' c1
  proof (induction "is" arbitrary: a s c0)
    case (Cons i "is")
    show ?case
    proof (cases "t_conn_fd (c_tcp c0) ! i")
      case True
      obtain res c2 where t: "socket_send_all E c0 i wire = (res, c2)" by (meson surj_pair)
      have "fold ?step is ((True, s \<or> res = POTR_OK), c2) = ((a', s'), c1)"
        using Cons.prems(1) True t by (simp add: tcp_send_all_locked_def)
      from Cons.IH[OF this] show ?thesis using socket_send_all_io[OF t] True by simp
    next
      case False
      then have "fold ?step is ((a, s), c0) = ((a', s'), c1)" using Cons.prems(1) by simp
      from Cons.IH[OF this Cons.prems(2)] show ?thesis using False by auto
    qed
  qed simp
  from this[OF assms[unfolded tcp_send_paths_def]] show ?thesis by auto
qed

lemma local_step_tcp_paths: "local_step r c (snd (tcp_send_paths E c wire))"
proof -
  have "local_step r c0 (snd (fold (\<lambda>i ((attempted, sent_any), c).
            if \<not> t_conn_fd (c_tcp c) ! i then ((attempted, sent_any), c)
            else (let (res, c1) = tcp_send_all_locked E c i wire
                  in ((True, sent_any \<or> res = POTR_OK), c1))) is (x, c0)))" for "is" x c0
  proof (induction "is" arbitrary: x c0)
    case (Cons i "is")
    obtain a b where x: "x = (a, b)" by (meson surj_pair)
    obtain res c2 where t: "socket_send_all E c0 i wire = (res, c2)" by (meson surj_pair)
    have "local_step r c0 c2" using local_step_send_all[of r c0 E i wire] t by simp
    with Cons.IH[of c2 "(True, b \<or> res = POTR_OK)"] Cons.IH[of c0 "(a, b)"] show ?case
      by (auto simp: x tcp_send_all_locked_def t intro: local_step_trans)
  qed simp
  then show ?thesis by (simp add: tcp_send_paths_def)
qed

lemma local_step_tcp_control: "local_step r c (snd (tcp_send_control_packet E c pkt v))"
proof -
  have "local_step r c (snd (let ((attempted, sent_any), c1) = tcp_send_paths E c wire
      in (if sent_any then POTR_OK else if \<not> attempted then POTR_ERR_DISCONNECTED else POTR_ERR_IO, c1)))" for wire
    using local_step_tcp_paths[of r c E wire] by (auto split: prod.splits simp: Let_def)
  then show ?thesis unfolding tcp_send_control_packet_def Let_def by (auto split: option.splits)
qed

end
