(* ===== verification/Recv_Fin.thy ===== *)
theory Recv_Fin
  imports Tcp_Control
begin

text \<open>
  FIN handling (\<^verbatim>\<open>thread/thread_recv_fin.c\<close>): a FIN that names a target sequence number waits until
  the receive window has reached it; firing a FIN disconnects the slot and, for a peer,
  releases it; the acknowledgement of a FIN releases the thread that closes the service.
\<close>

unbundle bit_operations_syntax

section \<open>Definitions\<close>

datatype fin_action = THREAD_RECV_FIN_IGNORED | THREAD_RECV_FIN_PENDING | THREAD_RECV_FIN_FIRE

definition recv_window_reached_fin_target :: "u32 \<Rightarrow> u32 \<Rightarrow> bool" where
  "recv_window_reached_fin_target next_seq fin_target_seq = (next_seq = fin_target_seq)"

definition fin_packet_has_target :: "potr_packet \<Rightarrow> bool" where
  "fin_packet_has_target pkt = (flags pkt AND POTR_FLAG_FIN_TARGET_VALID \<noteq> 0)"

definition send_tcp_fin_ack :: "cplat \<Rightarrow> potr_context \<Rightarrow> u32 \<Rightarrow> potr_result \<times> potr_context" where
  "send_tcp_fin_ack E c fin_target_seq =
    (let fin_ack_pkt = packet_build_fin_ack E (own_session_hdr c (c_slot c)) fin_target_seq
     in tcp_send_control_packet E c fin_ack_pkt fin_target_seq)"

definition fin_on_packet :: "potr_context \<Rightarrow> slot_ref \<Rightarrow> potr_packet \<Rightarrow> fin_action \<times> u32 \<times> potr_context" where
  "fin_on_packet c r pkt =
    (if flags pkt AND POTR_FLAG_FIN = 0 then (THREAD_RECV_FIN_IGNORED, 0, c)
     else if fin_packet_has_target pkt \<and>
        \<not> recv_window_reached_fin_target (win_next_seq (s_recv_window (get_slot c r))) (ack_num pkt)
     then (THREAD_RECV_FIN_PENDING, ack_num pkt,
           upd_slot c r (\<lambda>st. st\<lparr>s_pending_fin := True, s_fin_target_seq := ack_num pkt\<rparr>))
     else (THREAD_RECV_FIN_FIRE, ack_num pkt, c))"

definition fin_pending_reached :: "potr_context \<Rightarrow> slot_ref \<Rightarrow> u32 option" where
  "fin_pending_reached c r =
    (let st = get_slot c r
     in if s_pending_fin st \<and> recv_window_reached_fin_target (win_next_seq (s_recv_window st)) (s_fin_target_seq st)
        then Some (s_fin_target_seq st) else None)"

text \<open>
  The reset of the ping states of a slot, common to the ways a connection ends, and the
  reset of the context's receive state that follows.
\<close>

definition reset_ping_states :: "slot_state \<Rightarrow> slot_state" where
  "reset_ping_states st = st\<lparr>s_path_ping_state :=
       snd (set_all_path_ping_states (s_path_ping_state st) POTR_MAX_PATH POTR_PING_STATE_UNDEFINED),
     s_remote_path_ping_state := replicate POTR_MAX_PATH 0\<rparr>"

fun fin_fire :: "cplat \<Rightarrow> potr_context \<Rightarrow> slot_ref \<Rightarrow> u32 \<Rightarrow> potr_context" where
  "fin_fire E c (PeerSlot i) fin_target_seq =
    (let c1 = recv_disconnect_peer_all_paths c i;
         c2 = upd_slot c1 (PeerSlot i) slot_clear_pending_fin
     in peer_free c2 i)"
| "fin_fire E c CtxSlot fin_target_seq =
    (let c1 = (if sd_type (c_service c) = POTR_TYPE_TCP \<or> sd_type (c_service c) = POTR_TYPE_TCP_BIDIR
               then snd (send_tcp_fin_ack E c fin_target_seq) else c);
         c2 = upd_slot c1 CtxSlot reset_ping_states;
         c3 = recv_disconnect_service_all_paths c2
     in upd_slot c3 CtxSlot (\<lambda>st. (slot_clear_pending_fin st)
          \<lparr>s_peer_session_known := False, s_reorder_pending := False,
           s_last_recv_ts := (s_last_recv_ts st)\<lparr>tv_sec := 0\<rparr>,
           s_recv_window := snd (window_init E (s_recv_window st) 0
             (gc_window_size (c_global c)) (gc_max_payload (c_global c)))\<rparr>))"

definition fin_on_ack :: "potr_context \<Rightarrow> u32 \<Rightarrow> potr_context" where
  "fin_on_ack c ack =
    (let t = c_tcp c
     in if t_close_waiting_ack t \<and> t_close_wait_target_seq t = ack \<and> \<not> t_close_ack_received t
        then c\<lparr>c_tcp := t\<lparr>t_close_ack_received := True, t_close_ack_seq := ack\<rparr>\<rparr> else c)"

section \<open>Steps that may release the peer\<close>

text \<open>
  An operation on a slot that may end by releasing the peer: up to the release it is a local
  step, and the application has seen the peer's connection closed.
\<close>

definition slot_run :: "slot_ref \<Rightarrow> potr_context \<Rightarrow> potr_context \<Rightarrow> bool" where
  "slot_run r c c' \<longleftrightarrow> (slot_ok c r \<and> slot_inv (c_global c) (get_slot c r) \<longrightarrow>
     local_step r c c' \<or>
     (\<exists>i c1. r = PeerSlot i \<and> local_step r c c1 \<and> view_of (get_slot c1 r) = view_start \<and> c' = peer_free c1 i))"

lemma slot_run_local: "local_step r c c' \<Longrightarrow> slot_run r c c'"
  by (simp add: slot_run_def)

lemma slot_run_seq:
  assumes "local_step r a b" "slot_ok b r \<Longrightarrow> slot_inv (c_global b) (get_slot b r) \<Longrightarrow> slot_run r b c"
  shows "slot_run r a c"
  unfolding slot_run_def
proof (intro impI, elim conjE)
  assume "slot_ok a r" "slot_inv (c_global a) (get_slot a r)"
  note ab = local_stepD[OF assms(1) this]
  from assms(2)[OF ab(5,7)] ab(5,7)
  show "local_step r a c \<or>
     (\<exists>i c1. r = PeerSlot i \<and> local_step r a c1 \<and> view_of (get_slot c1 r) = view_start \<and> c = peer_free c1 i)"
    unfolding slot_run_def using local_step_trans[OF assms(1)] by blast
qed

lemma local_step_fin_on_packet: "local_step r c (snd (snd (fin_on_packet c r pkt)))"
  by (auto simp: fin_on_packet_def intro: local_step_upd)

lemma slot_inv_reset_ping [simp]: "slot_inv G st \<Longrightarrow> slot_inv G (reset_ping_states st)"
  by (auto simp: reset_ping_states_def slot_inv_lengths intro!: slot_inv_lists)

lemma view_of_reset_ping [simp]: "view_of (reset_ping_states st) = view_of st"
  by (simp add: reset_ping_states_def)

lemma local_step_reset_ping: "local_step r c (upd_slot c r reset_ping_states)"
  by (rule local_step_upd) simp

lemma local_step_disconnect_service: "local_step CtxSlot c (recv_disconnect_service_all_paths c)"
  using local_step_disconnect[of CtxSlot c] by simp

lemma local_step_disconnect_peer: "local_step (PeerSlot i) c (recv_disconnect_peer_all_paths c i)"
  using local_step_disconnect[of "PeerSlot i" c] by simp

lemma local_step_reinit:
  assumes "c_global c = G" "\<And>st. slot_inv G (f st) = slot_inv G st" "\<And>st. view_of (f st) = view_of st"
    "\<And>st. s_recv_window (f st) = s_recv_window st"
  shows "local_step r c (upd_slot c r (\<lambda>st. (f st)\<lparr>s_recv_window := snd (window_init E (s_recv_window st) s
             (gc_window_size G) (gc_max_payload G))\<rparr>))"
proof (rule local_step_upd, intro conjI)
  fix st assume "slot_inv (c_global c) st" "st = get_slot c r"
  then have "slot_inv G (f st)" using assms by simp
  from slot_inv_reinit(1)[OF this, of E s] show "slot_inv (c_global c) ((f st)\<lparr>s_recv_window :=
      snd (window_init E (s_recv_window st) s (gc_window_size G) (gc_max_payload G))\<rparr>)"
    unfolding assms(1,4) .
  show "view_of ((f st)\<lparr>s_recv_window := snd (window_init E (s_recv_window st) s
      (gc_window_size G) (gc_max_payload G))\<rparr>) = view_of st" using assms(3) by simp
qed

lemma local_step_global: "local_step r c c' \<Longrightarrow> slot_ok c r \<Longrightarrow> slot_inv (c_global c) (get_slot c r) \<Longrightarrow> c_global c' = c_global c"
  by (rule local_stepD(6))

lemma slot_run_fin_fire: "slot_run r c (fin_fire E c r s)"
proof (cases r)
  case (PeerSlot i)
  show ?thesis unfolding slot_run_def
  proof (intro impI disjI2, elim conjE)
    assume ok: "slot_ok c r" and inv: "slot_inv (c_global c) (get_slot c r)"
    let ?c1 = "recv_disconnect_peer_all_paths c i"
    let ?c2 = "upd_slot ?c1 (PeerSlot i) slot_clear_pending_fin"
    have d: "recv_disconnect_all_paths c r = ?c1" using PeerSlot by simp
    have s1: "local_step r c ?c1" using local_step_disconnect[of r c] d by simp
    have s2: "local_step r c ?c2" unfolding PeerSlot
      by (rule local_step_trans[OF local_step_disconnect_peer local_step_upd]) simp
    have "view_of (get_slot ?c1 r) = view_start" using disconnect_view(1)[OF ok inv] d by simp
    then have "view_of (get_slot ?c2 r) = view_start"
      using local_stepD(5)[OF s1 ok inv] PeerSlot get_upd_slot[of ?c1 r slot_clear_pending_fin] by simp
    then show "\<exists>j c1. r = PeerSlot j \<and> local_step r c c1 \<and> view_of (get_slot c1 r) = view_start \<and>
        fin_fire E c r s = peer_free c1 j"
      using PeerSlot s2 by (intro exI[of _ i] exI[of _ ?c2]) simp
  qed
next
  case CtxSlot
  let ?c1 = "if sd_type (c_service c) = POTR_TYPE_TCP \<or> sd_type (c_service c) = POTR_TYPE_TCP_BIDIR
               then snd (send_tcp_fin_ack E c s) else c"
  let ?c3 = "recv_disconnect_service_all_paths (upd_slot ?c1 CtxSlot reset_ping_states)"
  have s1: "local_step CtxSlot c ?c1"
    using local_step_tcp_control by (auto simp: send_tcp_fin_ack_def Let_def)
  have s3: "local_step CtxSlot c ?c3"
    by (rule local_step_trans[OF local_step_trans[OF s1 local_step_reset_ping] local_step_disconnect_service])
  have "local_step CtxSlot c (fin_fire E c CtxSlot s)"
  proof (rule local_step_inv)
    assume ok: "slot_ok c CtxSlot" and inv: "slot_inv (c_global c) (get_slot c CtxSlot)"
    have g: "c_global ?c3 = c_global c" by (rule local_step_global[OF s3 ok inv])
    show "local_step CtxSlot c (fin_fire E c CtxSlot s)"
      unfolding fin_fire.simps Let_def
      by (rule local_step_trans[OF s3 local_step_reinit[OF g]]) (simp_all add: slot_clear_pending_fin_def)
  qed
  then show ?thesis unfolding CtxSlot by (rule slot_run_local)
qed

end
