(* ===== verification/Send_Buffer.thy ===== *)
theory Send_Buffer
  imports Window
begin

text \<open>
  The send window keeps the packets most recently sent, for retransmission.  It refines
  the list of those packets (\<open>send_abs\<close>): a push appends, dropping the oldest when the
  window is full; a lookup by sequence number finds exactly the packets still in the list.
\<close>

section \<open>Storing and evicting\<close>

abbreviation (input) send_count :: "potr_internal_window \<Rightarrow> nat" where
  "send_count w \<equiv> unat (win_next_seq w - win_base_seq w)"

lemma send_inv_wf: "send_inv E w \<Longrightarrow> win_wf w"
  by (simp add: send_inv_def)

lemma send_inv_count: "send_inv E w \<Longrightarrow> send_count w \<le> unat (win_window_size w)"
  by (simp add: send_inv_def)

lemma send_inv_entry:
  "send_inv E w \<Longrightarrow> d < send_count w \<Longrightarrow> the (win_valid w) ! slot_of w d \<and>
    plen_nbo E (the (win_packets w) ! slot_of w d) \<le> unat (win_max_payload w)"
  by (auto simp: send_inv_def list_all_iff)

lemma length_send_abs [simp]: "length (send_abs E w) = send_count w"
  by (simp add: send_abs_def)

lemma send_abs_nth:
  "d < send_count w \<Longrightarrow> send_abs E w ! d = win_load (plen_nbo E) w (of_nat (slot_of w d))"
  by (simp add: send_abs_def)

definition win_evict :: "potr_internal_window \<Rightarrow> potr_internal_window" where
  "win_evict w = win_advance_base (win_set_valid w (of_nat (slot_of w 0)) False)"

lemma win_evict_fields [simp]:
  "win_base_seq (win_evict w) = win_base_seq w + 1" "win_next_seq (win_evict w) = win_next_seq w"
  "win_window_size (win_evict w) = win_window_size w" "win_max_payload (win_evict w) = win_max_payload w"
  "win_packets (win_evict w) = win_packets w"
  by (simp_all add: win_evict_def)

lemma win_evict_simps [win_simps]:
  "win_wf w \<Longrightarrow> win_wf (win_evict w)"
  "win_wf w \<Longrightarrow> slot_of (win_evict w) d = slot_of w (Suc d)"
  "win_load plen (win_evict w) i = win_load plen w i"
  by (simp_all add: win_evict_def win_simps)

lemma unat_pred_count:
  "0 < unat (n - b :: u32) \<Longrightarrow> unat (n - (b + 1)) = unat (n - b) - 1"
  by (metis diff_diff_eq unat_0 unat_minus_one less_irrefl)

lemma send_inv_evict:
  assumes "send_inv E w" "0 < send_count w"
  shows "send_inv E (win_evict w) \<and> send_abs E (win_evict w) = tl (send_abs E w)"
proof
  note wf = send_inv_wf[OF assms(1)]
  have k: "send_count (win_evict w) = send_count w - 1" using unat_pred_count[OF assms(2)] by simp
  have "the (win_valid (win_evict w)) ! slot_of w (Suc d) = the (win_valid w) ! slot_of w (Suc d)"
    if "Suc d < send_count w" for d
  proof -
    have "slot_of w (Suc d) \<noteq> slot_of w 0"
      using slot_of_eq[OF wf, of "Suc d" 0] that send_inv_count[OF assms(1)] by simp
    then show ?thesis by (simp add: win_evict_def valid_set_valid[OF wf] slot_of_u16[OF wf])
  qed
  then show "send_inv E (win_evict w)"
    using send_inv_entry[OF assms(1)] send_inv_count[OF assms(1)] k wf
    by (auto simp: send_inv_def list_all_iff win_simps simp del: win_evict_fields(1,2))
  show "send_abs E (win_evict w) = tl (send_abs E w)"
    by (rule nth_equalityI) (use k wf in \<open>auto simp: send_abs_nth nth_tl win_simps\<close>)
qed

lemma send_inv_append:
  assumes "send_inv E w" "send_count w < unat (win_window_size w)" "fits_send E w p"
  defines "w' \<equiv> (win_put (plen_nbo E) w (send_count w) p)\<lparr>win_next_seq := win_next_seq w + 1\<rparr>"
  shows "send_inv E w' \<and> send_abs E w' = send_abs E w @ [p]"
proof
  let ?k = "send_count w"
  note wf = send_inv_wf[OF assms(1)]
  have k: "send_count w' = Suc ?k"
    using assms(2) unat_u16_less[of "win_window_size w"] unat_Suc_diff[of "win_next_seq w" "win_base_seq w"]
    by (simp add: w'_def)
  have slot: "slot_of w' d = slot_of w d" for d by (simp add: w'_def win_simps)
  have ne: "slot_of w ?k \<noteq> slot_of w d" if "d < ?k" for d
    using slot_of_eq[OF wf assms(2), of d] that assms(2) by simp
  have valid: "the (win_valid w') ! slot_of w d" if "d < Suc ?k" for d
    using that assms(2) send_inv_entry[OF assms(1), of d] valid_put_nth[OF wf assms(2), of d]
    by (auto simp: w'_def less_Suc_eq)
  have pk: "the (win_packets w') ! slot_of w d = (if d = ?k then p\<lparr>payload := []\<rparr> else the (win_packets w) ! slot_of w d)"
    if "d < Suc ?k" for d
    using that ne[of d] slot_of_less[OF wf] by (auto simp: w'_def packets_put[OF wf] win_wfD[OF wf] less_Suc_eq)
  show "send_inv E w'" unfolding send_inv_def k slot
    using wf assms(2,3) valid pk send_inv_entry[OF assms(1)]
    by (auto simp: list_all_iff fits_send_def w'_def win_simps less_Suc_eq)
  have load: "win_load (plen_nbo E) w' (of_nat (slot_of w d)) =
      (if d = ?k then p else win_load (plen_nbo E) w (of_nat (slot_of w d)))" if "d < Suc ?k" for d
    using that win_load_put_same[OF wf, of "plen_nbo E" p ?k] assms(3) ne[of d] send_inv_entry[OF assms(1), of d]
      win_load_put_other[OF wf, of ?k d "plen_nbo E" p]
    by (auto simp: w'_def win_simps fits_send_def less_Suc_eq)
  show "send_abs E w' = send_abs E w @ [p]"
    by (rule nth_equalityI) (use k slot load in \<open>auto simp: send_abs_nth nth_append less_Suc_eq\<close>)
qed

lemma send_full_iff: "send_inv E w \<Longrightarrow> window_send_full w \<longleftrightarrow> send_count w = unat (win_window_size w)"
  using send_inv_count[of E w] by (auto simp: window_send_full_def word_le_nat_alt)

lemma send_push_spec:
  assumes "send_inv E w"
  shows "window_send_push E w p =
    (let w1 = (if send_count w = unat (win_window_size w) then win_evict w else w)
     in (POTR_OK, (win_put (plen_nbo E) w1 (send_count w1) p)\<lparr>win_next_seq := win_next_seq w1 + 1\<rparr>))"
proof -
  note wf = send_inv_wf[OF assms]
  have base: "win_index w (win_base_seq w) = of_nat (slot_of w 0)" by (simp add: win_index_eq wf)
  have idx: "win_index w1 (win_next_seq w1) = of_nat (slot_of w1 (send_count w1))"
    if "win_wf w1" "send_count w1 \<le> unat (win_window_size w1)" for w1
    using that win_index_eq[of w1 "win_next_seq w1"] unat_u16_less[of "win_window_size w1"] by simp
  show ?thesis
  proof (cases "send_count w = unat (win_window_size w)")
    case True
    then have "0 < send_count w" using win_wfD(1)[OF wf] by simp
    then have "send_inv E (win_evict w)" using send_inv_evict[OF assms] by simp
    then show ?thesis using True idx[of "win_evict w"] send_inv_wf[of E "win_evict w"] send_inv_count[of E "win_evict w"]
      by (simp add: window_send_push_def send_full_iff[OF assms] base Let_def win_put_def flip: win_evict_def)
  next
    case False
    then show ?thesis using idx[of w] wf send_inv_count[OF assms]
      by (simp add: window_send_push_def send_full_iff[OF assms] Let_def win_put_def)
  qed
qed

lemma fits_send_frame [simp]:
  "fits_send E (win_evict w) = fits_send E w"
  "fits_send E (win_put plen w d q) = fits_send E w"
  "fits_send E (w\<lparr>win_next_seq := s\<rparr>) = fits_send E w"
  by (auto simp: fits_send_def fun_eq_iff)

lemma send_get_spec:
  assumes "send_inv E w"
  shows "window_send_get E w seq =
    (let d = unat (seq - win_base_seq w)
     in if d < length (send_abs E w) then Inr (send_abs E w ! d) else Inl POTR_ERR_NOT_FOUND)"
proof -
  note wf = send_inv_wf[OF assms]
  have c: "send_count w < 65536"
    using send_inv_count[OF assms] unat_u16_less[of "win_window_size w"] by simp
  then have "unat (ucast (win_next_seq w - win_base_seq w) :: u16) = send_count w"
    by (simp add: unsigned_ucast_eq take_bit_nat_eq_self)
  then show ?thesis
    using c win_index_eq[OF wf, of seq] send_inv_entry[OF assms, of "unat (seq - win_base_seq w)"]
    by (simp add: window_send_get_def seqnum_in_window_iff Let_def win_valid_at_slot[OF wf] send_abs_nth)
qed

lemma window_init_send:
  assumes "win_init_pre w" "0 < unat ws" "window_init E w s ws mp = (POTR_OK, w')"
  shows "send_inv E w' \<and> send_abs E w' = [] \<and> win_base_seq w' = s \<and> win_next_seq w' = s"
  using window_init_wf[OF assms] by (auto simp: send_inv_def send_abs_def)

lemma send_push_refines:
  assumes "send_inv E w" "fits_send E w p" "window_send_push E w p = (r, w')"
  shows "r = POTR_OK \<and> send_inv E w' \<and> fits_send E w' = fits_send E w \<and>
    win_window_size w' = win_window_size w \<and> win_next_seq w' = win_next_seq w + 1 \<and>
    send_abs E w' = (if length (send_abs E w) = unat (win_window_size w) then tl (send_abs E w)
                     else send_abs E w) @ [p]"
proof (cases "send_count w = unat (win_window_size w)")
  case True
  then have pos: "0 < send_count w" using win_wfD(1)[OF send_inv_wf[OF assms(1)]] by simp
  note ev = send_inv_evict[OF assms(1) pos]
  have "send_count (win_evict w) < unat (win_window_size (win_evict w))"
    using unat_pred_count[OF pos] pos True by simp
  from send_inv_append[OF conjunct1[OF ev] this, of p] assms(2,3) ev True show ?thesis
    by (auto simp: send_push_spec[OF assms(1)] Let_def)
next
  case False
  then have "send_count w < unat (win_window_size w)" using send_inv_count[OF assms(1)] by simp
  from send_inv_append[OF assms(1) this assms(2)] assms(3) False show ?thesis
    by (auto simp: send_push_spec[OF assms(1)] Let_def)
qed

section \<open>The contract of a retransmission history\<close>

text \<open>
  What retransmission relies on: the state abstracts to the packets still held, oldest
  first, the newest of which was given the sequence number before \<open>next\<close>.
\<close>

locale history_buffer =
  fixes inv :: "'s \<Rightarrow> bool"
    and fits :: "'s \<Rightarrow> potr_packet \<Rightarrow> bool"
    and capacity :: "'s \<Rightarrow> nat"
    and next_no :: "'s \<Rightarrow> u32"
    and held :: "'s \<Rightarrow> potr_packet list"
    and push :: "'s \<Rightarrow> potr_packet \<Rightarrow> potr_result \<times> 's"
    and get :: "'s \<Rightarrow> u32 \<Rightarrow> potr_result + potr_packet"
  assumes held_bound: "inv s \<Longrightarrow> length (held s) \<le> capacity s \<and> 0 < capacity s \<and> capacity s < 65536"
    and push_held: "inv s \<Longrightarrow> fits s p \<Longrightarrow> push s p = (r, s') \<Longrightarrow>
        r = POTR_OK \<and> inv s' \<and> fits s' = fits s \<and> capacity s' = capacity s \<and> next_no s' = next_no s + 1 \<and>
        held s' = (if length (held s) = capacity s then tl (held s) else held s) @ [p]"
    and get_held: "inv s \<Longrightarrow> get s q =
        (let d = unat (q - (next_no s - of_nat (length (held s))))
         in if d < length (held s) then Inr (held s ! d) else Inl POTR_ERR_NOT_FOUND)"

text \<open>Pushing a list of packets, first to last.\<close>

primrec push_all :: "('s \<Rightarrow> potr_packet \<Rightarrow> potr_result \<times> 's) \<Rightarrow> 's \<Rightarrow> potr_packet list \<Rightarrow> 's" where
  "push_all push s [] = s"
| "push_all push s (p # ps) = push_all push (snd (push s p)) ps"

context history_buffer
begin

lemma push_all_held:
  assumes "inv s" "\<forall>p\<in>set ps. fits s p"
  shows "inv (push_all push s ps) \<and> capacity (push_all push s ps) = capacity s \<and>
    next_no (push_all push s ps) = next_no s + of_nat (length ps) \<and>
    held (push_all push s ps) = drop (length (held s) + length ps - capacity s) (held s @ ps)"
  using assms
proof (induction ps arbitrary: s)
  case Nil
  then show ?case using held_bound[of s] by simp
next
  case (Cons p ps)
  obtain r s1 where s1: "push s p = (r, s1)" by (cases "push s p")
  then have *: "inv s1" "fits s1 = fits s" "capacity s1 = capacity s" "next_no s1 = next_no s + 1"
    "held s1 = (if length (held s) = capacity s then tl (held s) else held s) @ [p]"
    using push_held[OF Cons.prems(1) _ s1] Cons.prems(2) by auto
  have "drop (length (held s1) + length ps - capacity s) (held s1 @ ps) =
        drop (length (held s) + length (p # ps) - capacity s) (held s @ p # ps)"
  proof (cases "length (held s) = capacity s")
    case True
    then have "held s \<noteq> []" using held_bound[OF Cons.prems(1)] by auto
    then obtain h t where "held s = h # t" by (cases "held s") auto
    then show ?thesis using True *(5) by auto
  next
    case False
    then show ?thesis using *(5) by simp
  qed
  then show ?case using Cons.IH[of s1] Cons.prems(2) * s1 by simp
qed

lemma get_after_push_all:
  assumes "inv s" "held s = []" "\<forall>p\<in>set ps. fits s p" "length ps \<le> i + 4294967296" "i < length ps"
  shows "get (push_all push s ps) (next_no s + of_nat i) =
    (if length ps - capacity s \<le> i then Inr (ps ! i) else Inl POTR_ERR_NOT_FOUND)"
proof -
  let ?s = "push_all push s ps" and ?k = "length ps - capacity s"
  note all = push_all_held[OF assms(1,3)]
  have held: "held ?s = drop ?k ps" and nx: "next_no ?s = next_no s + of_nat (length ps)" and i: "inv ?s"
    using all assms(2) by simp_all
  have cap: "0 < capacity s" "capacity s < 65536" using held_bound[OF assms(1)] by auto
  have "next_no ?s - of_nat (length (held ?s)) = next_no s + (of_nat (length ps) - of_nat (length ps - ?k))"
    by (simp add: held nx)
  also have "(of_nat (length ps) - of_nat (length ps - ?k) :: u32) = of_nat ?k"
    by (simp add: of_nat_diff)
  finally have "next_no s + of_nat i - (next_no ?s - of_nat (length (held ?s))) = of_nat i - of_nat ?k" by simp
  then have g: "get ?s (next_no s + of_nat i) =
     (let d = unat (of_nat i - of_nat ?k :: u32)
      in if d < length ps - ?k then Inr (drop ?k ps ! d) else Inl POTR_ERR_NOT_FOUND)"
    using get_held[OF i, of "next_no s + of_nat i"] held by (simp only: Let_def) simp
  show ?thesis
  proof (cases "?k \<le> i")
    case True
    then have "unat (of_nat i - of_nat ?k :: u32) = i - ?k"
      using assms(5) cap by (intro unat_diff_ahead) linarith+
    then show ?thesis using g True assms(5) by (simp add: Let_def)
  next
    case False
    then have "unat (of_nat i - of_nat ?k :: u32) = 4294967296 - (?k - i)"
      using assms(4) by (intro unat_diff_behind) linarith+
    moreover have "\<not> 4294967296 - (?k - i) < length ps - ?k" using assms(4) False cap by linarith
    ultimately show ?thesis using g False by (simp add: Let_def)
  qed
qed

end

interpretation hb: history_buffer "send_inv E" "fits_send E" "\<lambda>w. unat (win_window_size w)" win_next_seq
  "send_abs E" "window_send_push E" "window_send_get E" for E
proof
  fix s assume "send_inv E s"
  then show "length (send_abs E s) \<le> unat (win_window_size s) \<and> 0 < unat (win_window_size s) \<and> unat (win_window_size s) < 65536"
    using send_inv_count[of E s] win_wfD(1)[OF send_inv_wf, of E s] by (simp add: unat_u16_less)
next
  fix s p r s' assume "send_inv E s" "fits_send E s p" "window_send_push E s p = (r, s')"
  from send_push_refines[OF this] show "r = POTR_OK \<and> send_inv E s' \<and> fits_send E s' = fits_send E s \<and>
    unat (win_window_size s') = unat (win_window_size s) \<and> win_next_seq s' = win_next_seq s + 1 \<and>
    send_abs E s' = (if length (send_abs E s) = unat (win_window_size s) then tl (send_abs E s)
                     else send_abs E s) @ [p]" by simp
next
  fix s q assume "send_inv E s"
  then show "window_send_get E s q = (let d = unat (q - (win_next_seq s - of_nat (length (send_abs E s))))
     in if d < length (send_abs E s) then Inr (send_abs E s ! d) else Inl POTR_ERR_NOT_FOUND)"
    by (simp add: send_get_spec)
qed

section \<open>Properties\<close>

text \<open>
  C19: Retransmission history.  After the packets \<open>ps\<close> went through a fresh send window of
  \<open>ws\<close> slots starting at number \<open>b\<close>, a lookup of number \<open>b + i\<close> (not older than one turn of the
  32-bit counter) returns the \<open>i\<close>-th packet sent, unaltered, when it is among the last \<open>ws\<close>
  ones, and \<^verbatim>\<open>POTR_ERR_NOT_FOUND\<close>, to which the caller answers REJECT, when it was evicted.
\<close>

theorem send_window_history:
  assumes "win_init_pre w0" "0 < unat ws" "window_init E w0 b ws mp = (POTR_OK, w)"
    and "\<forall>p\<in>set ps. length (payload p) = plen_nbo E p \<and> plen_nbo E p \<le> unat mp"
    and "i < length ps" "length ps \<le> i + 4294967296"
  shows "window_send_get E (push_all (window_send_push E) w ps) (b + of_nat i) =
    (if length ps - unat ws \<le> i then Inr (ps ! i) else Inl POTR_ERR_NOT_FOUND)"
proof -
  note i = window_init_wf[OF assms(1-3)] window_init_send[OF assms(1-3)]
  have "\<forall>p\<in>set ps. fits_send E w p" using i assms(4) by (simp add: fits_send_def)
  from hb.get_after_push_all[of E w ps i] this i assms(5,6) show ?thesis by simp
qed

theorem send_window_history_witness:
  "(let ps = map (\<lambda>n. empty_packet\<lparr>payload_len := 0x0100, payload := [of_nat n]\<rparr>) [0..<6];
        w = push_all (window_send_push demo_cplat) demo_window ps
    in window_send_get demo_cplat w (0xFFFFFFFF + of_nat 5) = Inr (ps ! 5) \<and>
       window_send_get demo_cplat w (0xFFFFFFFF + of_nat 1) = Inl POTR_ERR_NOT_FOUND)"
proof -
  let ?ps = "map (\<lambda>n. empty_packet\<lparr>payload_len := 0x0100, payload := [of_nat n]\<rparr>) [0..<6]"
  have len: "plen_nbo demo_cplat (empty_packet\<lparr>payload_len := 0x0100, payload := x\<rparr>) = 1" for x
    by (simp add: plen_nbo_def demo_cplat_def swap16_def be16_def of_be16_def)
  have "window_send_get demo_cplat (push_all (window_send_push demo_cplat) demo_window ?ps) (0xFFFFFFFF + of_nat i) =
    (if length ?ps - unat (4::u16) \<le> i then Inr (?ps ! i) else Inl POTR_ERR_NOT_FOUND)" if "i < length ?ps" for i
    by (rule send_window_history[OF demo_window_init(2) _ demo_window_init(1)]) (use that len in auto)
  from this[of 5] this[of 1] show ?thesis by (simp add: Let_def)
qed

end
