(* ===== verification/Recv_Window.thy ===== *)
theory Recv_Window
  imports Recv_Fin Send_Buffer
begin

text \<open>
  The receive window's protocol (\<^verbatim>\<open>thread/thread_recv_window.c\<close>): accepting data, requesting
  retransmission, draining packets that have become contiguous, answering NACK and REJECT,
  the gap scan on PING and the reorder timeout.

  The drain loop runs until the window has no next packet; the model bounds it by one more
  than the window size, which \<open>drain_loop_exhausts\<close> in \<^verbatim>\<open>Window_Protocol\<close> shows is enough.  The gap scan terminates
  because it leaves the window after at most its size.
\<close>

unbundle bit_operations_syntax

section \<open>Sending\<close>

definition build_ctrl_pkt_wire :: "cplat \<Rightarrow> potr_context \<Rightarrow> potr_packet \<Rightarrow> potr_result + bytes" where
  "build_ctrl_pkt_wire E c pkt =
    (if sd_encrypt_enabled (c_service c) then
       (let pkt = pkt\<lparr>flags := flags pkt OR hton16 E POTR_FLAG_ENCRYPTED,
                      payload_len := hton16 E (of_nat POTR_CRYPTO_TAG_SIZE)\<rparr>;
            nonce = mem32 E (session_id pkt) @ mem16 E (flags pkt) @ mem32 E (ack_num pkt) @ replicate 2 0;
            hdr = packet_header_bytes E pkt
        in case crypto_encrypt E POTR_CRYPTO_TAG_SIZE (sd_encrypt_key (c_service c)) nonce hdr [] of
             None \<Rightarrow> Inl POTR_ERR_UNKNOWN
           | Some enc \<Rightarrow> Inr (hdr @ enc))
     else Inr (take (packet_wire_size E pkt) (packet_header_bytes E pkt)))"

definition fill_own_session_hdr :: "potr_context \<Rightarrow> slot_ref \<Rightarrow> potr_internal_packet_session_hdr" where
  "fill_own_session_hdr c r = own_session_hdr c (get_slot c r)"

fun slot_send_wire_to_dests :: "cplat \<Rightarrow> potr_context \<Rightarrow> slot_ref \<Rightarrow> bytes \<Rightarrow> potr_context" where
  "slot_send_wire_to_dests E c (PeerSlot j) wire =
    fold (\<lambda>i c. if endpoint_is_unset (s_dest_addr (get_slot c (PeerSlot j)) ! i) then c
                else snd (socket_sendto E c i (s_dest_addr (get_slot c (PeerSlot j)) ! i) wire)) [0..<POTR_MAX_PATH] c"
| "slot_send_wire_to_dests E c CtxSlot wire =
    fold (\<lambda>i c. snd (socket_sendto E c i (s_dest_addr (get_slot c CtxSlot) ! i) wire)) [0..<c_n_path c] c"

definition slot_send_ctrl :: "cplat \<Rightarrow> potr_context \<Rightarrow> slot_ref \<Rightarrow> potr_packet \<Rightarrow> potr_context" where
  "slot_send_ctrl E c r pkt =
    (case build_ctrl_pkt_wire E c pkt of Inl _ \<Rightarrow> c | Inr wire \<Rightarrow> slot_send_wire_to_dests E c r wire)"

definition slot_send_nack :: "cplat \<Rightarrow> potr_context \<Rightarrow> slot_ref \<Rightarrow> u32 \<Rightarrow> potr_context" where
  "slot_send_nack E c r nack_seq =
    (let nack_pkt = packet_build_nack E (fill_own_session_hdr c r) nack_seq
     in if slot_is_peer r \<or> sd_type (c_service c) = POTR_TYPE_UNICAST_BIDIR then slot_send_ctrl E c r nack_pkt
        else case build_ctrl_pkt_wire E c nack_pkt of
               Inl _ \<Rightarrow> c
             | Inr wire \<Rightarrow>
                 fold (\<lambda>i c.
                   let port = (if sd_src_port (c_service c) \<noteq> 0 then hton16 E (sd_src_port (c_service c))
                               else c_peer_port c ! i)
                   in if port = 0 then c
                      else snd (socket_sendto E c i \<lparr>ep_address = c_src_addr_resolved c ! i, ep_port = port\<rparr> wire))
                 [0..<c_n_path c] c)"

definition slot_send_reject :: "cplat \<Rightarrow> potr_context \<Rightarrow> slot_ref \<Rightarrow> u32 \<Rightarrow> potr_context" where
  "slot_send_reject E c r seq =
    slot_send_ctrl E c r (packet_build_reject E (fill_own_session_hdr c r) seq)"

section \<open>Gaps\<close>

definition reorder_gap_ready :: "cplat \<Rightarrow> potr_context \<Rightarrow> slot_ref \<Rightarrow> u32 \<Rightarrow> bool \<times> potr_context" where
  "reorder_gap_ready E c r nack_num =
    (let ms = gc_reorder_timeout_ms (c_global c); st = get_slot c r
     in if ms = 0 then (True, c)
        else if \<not> s_reorder_pending st \<or> s_reorder_nack_num st \<noteq> nack_num then
          (let (now_ts, c1) = clock_get_monotonic E c;
               effective_ms = (if sd_type (c_service c) = POTR_TYPE_MULTICAST \<or> sd_type (c_service c) = POTR_TYPE_BROADCAST
                               then ms + ucast (tv_nsec now_ts mod ucast ms) else ms)
           in (False, upd_slot c1 r (\<lambda>st. st\<lparr>s_reorder_pending := True, s_reorder_nack_num := nack_num,
                  s_reorder_deadline_ts := timespec_add_ms E now_ts (ucast effective_ms)\<rparr>)))
        else
          (let (now_ts, c1) = clock_get_monotonic E c
           in if timespec_cmp E now_ts (s_reorder_deadline_ts st) \<ge> 0
              then (True, upd_slot c1 r (\<lambda>st. st\<lparr>s_reorder_pending := False\<rparr>))
              else (False, c1)))"

definition slot_gap_ready :: "cplat \<Rightarrow> potr_context \<Rightarrow> slot_ref \<Rightarrow> u32 \<Rightarrow> bool \<times> potr_context" where
  "slot_gap_ready E c r nack_num = (if slot_is_peer r then (True, c) else reorder_gap_ready E c r nack_num)"

definition raw_session_disconnect :: "potr_context \<Rightarrow> slot_ref \<Rightarrow> potr_context" where
  "raw_session_disconnect c r =
    (let c1 = upd_slot c r reset_ping_states;
         c2 = recv_disconnect_service_all_paths c1
     in upd_slot c2 r (\<lambda>st. st\<lparr>s_pending_fin := False, s_fin_target_seq := 0, s_frag_buf := [],
          s_frag_compressed := False\<rparr>))"

section \<open>Draining\<close>

definition set_recv_window :: "potr_context \<Rightarrow> slot_ref \<Rightarrow> potr_internal_window \<Rightarrow> potr_context" where
  "set_recv_window c r w = upd_slot c r (\<lambda>st. st\<lparr>s_recv_window := w\<rparr>)"

definition deliver_popped :: "cplat \<Rightarrow> potr_context \<Rightarrow> slot_ref \<Rightarrow> potr_packet \<Rightarrow> potr_context" where
  "deliver_popped E c r pop_pkt =
    (if flags pop_pkt AND POTR_FLAG_PING \<noteq> 0 then c
     else fold (\<lambda>elem c. slot_deliver_payload_elem E c r elem) (unpack_all E pop_pkt 0) c)"

fun drain_loop :: "nat \<Rightarrow> cplat \<Rightarrow> potr_context \<Rightarrow> slot_ref \<Rightarrow> potr_context" where
  "drain_loop 0 E c r = c"
| "drain_loop (Suc fuel) E c r =
    (case window_recv_pop (s_recv_window (get_slot c r)) of
       (Inl _, _) \<Rightarrow> c
     | (Inr pop_pkt, w) \<Rightarrow> drain_loop fuel E (deliver_popped E (set_recv_window c r w) r pop_pkt) r)"

definition slot_drain_recv_window :: "cplat \<Rightarrow> potr_context \<Rightarrow> slot_ref \<Rightarrow> bool \<times> potr_context" where
  "slot_drain_recv_window E c r =
    (let c1 = drain_loop (Suc (unat (win_window_size (s_recv_window (get_slot c r))))) E c r
     in case fin_pending_reached c1 r of
          None \<Rightarrow> (True, c1)
        | Some fin_target_seq \<Rightarrow>
            (let c2 = fin_fire E c1 r fin_target_seq in (\<not> slot_is_peer r, c2)))"

section \<open>NACK\<close>

abbreviation (input) POTR_NACK_DEDUP_MS :: u64 where "POTR_NACK_DEDUP_MS \<equiv> 200"

definition nack_is_duplicate :: "cplat \<Rightarrow> potr_context \<Rightarrow> slot_ref \<Rightarrow> u32 \<Rightarrow> bool \<times> potr_context" where
  "nack_is_duplicate E c r ack =
    (let (now_ms, c1) = clock_get_monotonic_ms E c;
         st = get_slot c1 r
     in if list_ex (\<lambda>e. nd_time_ms e \<noteq> 0 \<and> nd_ack_num e = ack \<and> now_ms - nd_time_ms e < POTR_NACK_DEDUP_MS)
             (take POTR_NACK_DEDUP_SLOTS (s_nack_dedup_buf st)) then (True, c1)
        else (False, put_slot c1 r
          (st\<lparr>s_nack_dedup_buf := (s_nack_dedup_buf st)[s_nack_dedup_next st := \<lparr>nd_ack_num = ack, nd_time_ms = now_ms\<rparr>],
              s_nack_dedup_next := (s_nack_dedup_next st + 1) mod POTR_NACK_DEDUP_SLOTS\<rparr>)))"

definition slot_retransmit_or_reject :: "cplat \<Rightarrow> potr_context \<Rightarrow> slot_ref \<Rightarrow> u32 \<Rightarrow> potr_context" where
  "slot_retransmit_or_reject E c r ack =
    (case window_send_get E (s_send_window (get_slot c r)) ack of
       Inr resend_pkt \<Rightarrow>
         (let wire_len = packet_wire_size E resend_pkt
          in slot_send_wire_to_dests E c r
               (packet_header_bytes E resend_pkt @ take (wire_len - POTR_PACKET_HEADER_SIZE) (payload resend_pkt)))
     | Inl _ \<Rightarrow> slot_send_reject E c r ack)"

definition window_on_nack :: "cplat \<Rightarrow> potr_context \<Rightarrow> slot_ref \<Rightarrow> potr_packet \<Rightarrow> potr_context" where
  "window_on_nack E c r pkt =
    (if flags pkt AND POTR_FLAG_NACK = 0 then c
     else if is_raw_type (sd_type (c_service c)) then c
     else (let (dup, c1) = nack_is_duplicate E c r (ack_num pkt)
           in if dup then c1 else slot_retransmit_or_reject E c1 r (ack_num pkt)))"

section \<open>Data and REJECT\<close>

text \<open>
  \<^verbatim>\<open>thread_recv_window_accept_outer\<close> in three parts: storing the packet (with the reset of a RAW
  session whose window overflowed), reacting to the first missing number, and the end after
  the path health has been updated: drain and look for a gap again.
\<close>

definition accept_store :: "cplat \<Rightarrow> potr_context \<Rightarrow> slot_ref \<Rightarrow> potr_packet \<Rightarrow> bool \<times> potr_context" where
  "accept_store E c r pkt =
    (let (res, w) = window_recv_push (s_recv_window (get_slot c r)) pkt
     in if res = POTR_OK then (True, set_recv_window c r w)
        else if is_raw_type (sd_type (c_service c)) then
          (let c1 = raw_session_disconnect c r;
               w1 = window_recv_reset (s_recv_window (get_slot c1 r)) (seq_num pkt);
               (res1, w2) = window_recv_push w1 pkt
           in (res1 = POTR_OK, set_recv_window c1 r w2))
        else (False, c))"

definition accept_gap :: "cplat \<Rightarrow> potr_context \<Rightarrow> slot_ref \<Rightarrow> potr_packet \<Rightarrow> bool \<times> potr_context" where
  "accept_gap E c r pkt =
    (case window_recv_needs_nack (s_recv_window (get_slot c r)) of
       None \<Rightarrow> (True, upd_slot c r (\<lambda>st. st\<lparr>s_reorder_pending := False\<rparr>))
     | Some nack_num \<Rightarrow>
         if is_raw_type (sd_type (c_service c)) then
           (let (ready, c1) = reorder_gap_ready E c r nack_num
            in if ready then
                 (let c2 = raw_session_disconnect c1 r;
                      w1 = window_recv_reset (s_recv_window (get_slot c2 r)) (seq_num pkt);
                      (res, w2) = window_recv_push w1 pkt
                  in (res = POTR_OK, set_recv_window c2 r w2))
               else (True, c1))
         else
           (let (ready, c1) = slot_gap_ready E c r nack_num
            in (True, if ready then slot_send_nack E c1 r nack_num else c1)))"

definition accept_drain :: "cplat \<Rightarrow> potr_context \<Rightarrow> slot_ref \<Rightarrow> potr_context" where
  "accept_drain E c r =
    (let (alive, c1) = slot_drain_recv_window E c r
     in if \<not> alive then c1
        else case window_recv_needs_nack (s_recv_window (get_slot c1 r)) of
               None \<Rightarrow> upd_slot c1 r (\<lambda>st. st\<lparr>s_reorder_pending := False\<rparr>)
             | Some nack_num \<Rightarrow>
                 if is_raw_type (sd_type (c_service c1)) then c1
                 else (let (ready, c2) = slot_gap_ready E c1 r nack_num
                       in if ready then slot_send_nack E c2 r nack_num else c2))"

definition window_accept_outer :: "cplat \<Rightarrow> potr_context \<Rightarrow> slot_ref \<Rightarrow> potr_packet \<Rightarrow> nat \<Rightarrow> potr_context" where
  "window_accept_outer E c r pkt path_idx =
    (let (stored, c1) = accept_store E c r pkt
     in if \<not> stored then c1
        else (let (go, c2) = accept_gap E c1 r pkt
              in if \<not> go then c2
                 else (let c3 = (if \<not> slot_is_peer r \<and> flags pkt AND POTR_FLAG_DATA \<noteq> 0
                                    \<and> sd_type (c_service c2) \<noteq> POTR_TYPE_UNICAST_BIDIR
                                 then recv_sync_path_state (snd (update_path_health E c2 r path_idx)) r else c2)
                       in accept_drain E c3 r)))"

definition window_on_reject ::
  "cplat \<Rightarrow> potr_context \<Rightarrow> slot_ref \<Rightarrow> potr_packet \<Rightarrow> nat \<Rightarrow> cplat_ipv4_endpoint \<Rightarrow> potr_context" where
  "window_on_reject E c r pkt path_idx sender =
    (if is_raw_type (sd_type (c_service c)) then c
     else (let (adopted, c1) = session_adopt E c r pkt
           in if \<not> adopted then c1
              else (let c2 = learn_sender_path c1 r path_idx sender;
                        c3 = upd_slot c2 r reset_ping_states;
                        c4 = recv_disconnect_all_paths c3 r;
                        c5 = upd_slot c4 r (\<lambda>st. st\<lparr>s_reorder_pending := False,
                               s_recv_window := window_recv_skip (s_recv_window st) (ack_num pkt)\<rparr>)
                    in snd (slot_drain_recv_window E c5 r))))"

section \<open>PING and timeout\<close>

text \<open>
  The scan of the 1:1 modes: from the next expected number up to the one the PING announces,
  as long as the number lies in the window.  The window does not change during the scan.
\<close>

lemma scan_measure:
  assumes "seqnum_in_window s b ws"
  shows "unat ws - unat (s + 1 - b) < unat ws - unat (s - b)"
proof -
  have lt: "unat (s - b) < unat ws" using assms by (simp add: seqnum_in_window_iff)
  have e: "s + 1 - b = (s - b) + 1" by simp
  have u: "unat ((s - b) + 1) = unat (s - b) + 1"
    using lt unat_u16_less[of ws] by (simp add: unat_word_ariths)
  show ?thesis unfolding e u using lt by (rule diff_less_mono2[OF less_add_one])
qed

function scan_gap_loop ::
  "cplat \<Rightarrow> slot_ref \<Rightarrow> potr_internal_window \<Rightarrow> u32 \<Rightarrow> potr_context \<Rightarrow> u32 \<Rightarrow> u32 \<times> potr_context" where
  "scan_gap_loop E r w ping_seq c scan_seq =
    (if scan_seq \<noteq> ping_seq \<and> seqnum_in_window scan_seq (win_base_seq w) (win_window_size w) then
       (if \<not> window_recv_has_packet w scan_seq then
          (let (ready, c1) = reorder_gap_ready E c r scan_seq
           in if ready then scan_gap_loop E r w ping_seq (slot_send_nack E c1 r scan_seq) (scan_seq + 1)
              else (scan_seq, c1))
        else scan_gap_loop E r w ping_seq c (scan_seq + 1))
     else (scan_seq, c))"
  by pat_completeness auto

termination
  by (relation "measure (\<lambda>(E, r, w, p, c, s). unat (win_window_size w) - unat (s - win_base_seq w))")
    (auto intro: scan_measure)

declare scan_gap_loop.simps [simp del]

definition window_scan_ping_gap :: "cplat \<Rightarrow> potr_context \<Rightarrow> slot_ref \<Rightarrow> potr_packet \<Rightarrow> potr_context" where
  "window_scan_ping_gap E c r pkt =
    (let w = s_recv_window (get_slot c r); next_seq = win_next_seq w;
         ahead = (seq_num pkt \<noteq> next_seq \<and> seqnum_in_window (seq_num pkt) (next_seq + 1) (win_window_size w))
     in if slot_is_peer r then
          (if ahead then
             (let (ready, c1) = slot_gap_ready E c r next_seq
              in if ready then slot_send_nack E c1 r next_seq else c1)
           else c)
        else if is_raw_type (sd_type (c_service c)) then
          (if ahead then
             (let (ready, c1) = reorder_gap_ready E c r next_seq
              in if ready then
                   (let c2 = raw_session_disconnect c1 r
                    in set_recv_window c2 r (window_recv_reset (s_recv_window (get_slot c2 r)) (seq_num pkt)))
                 else c1)
           else upd_slot c r (\<lambda>st. st\<lparr>s_reorder_pending := False\<rparr>))
        else
          (let (scan_seq, c1) = scan_gap_loop E r w (seq_num pkt) c next_seq
           in if scan_seq = seq_num pkt then upd_slot c1 r (\<lambda>st. st\<lparr>s_reorder_pending := False\<rparr>) else c1))"

definition window_check_reorder_timeout :: "cplat \<Rightarrow> potr_context \<Rightarrow> slot_ref \<Rightarrow> potr_context" where
  "window_check_reorder_timeout E c r =
    (if \<not> s_reorder_pending (get_slot c r) then c
     else (let (ready, c1) = reorder_gap_ready E c r (s_reorder_nack_num (get_slot c r))
           in if \<not> ready then c1
              else if is_raw_type (sd_type (c_service c1)) then
                upd_slot (raw_session_disconnect c1 r) r (\<lambda>st. st\<lparr>s_peer_session_known := False,
                  s_last_recv_ts := (s_last_recv_ts st)\<lparr>tv_sec := 0\<rparr>,
                  s_recv_window := snd (window_init E (s_recv_window st) 0
                    (gc_window_size (c_global c)) (gc_max_payload (c_global c)))\<rparr>)
              else slot_send_nack E c1 r (s_reorder_nack_num (get_slot c1 r))))"

section \<open>Local steps\<close>

lemma local_step_wire: "local_step r c (slot_send_wire_to_dests E c q wire)"
  by (cases q) (auto intro!: local_step_fold local_step_sendto)

lemma local_step_ctrl: "local_step r c (slot_send_ctrl E c q pkt)"
  by (auto simp: slot_send_ctrl_def split: sum.split intro: local_step_wire)

lemma local_step_nack: "local_step r c (slot_send_nack E c q n)"
  unfolding slot_send_nack_def Let_def
  by (auto split: sum.split intro!: local_step_ctrl local_step_fold local_step_sendto)

lemma local_step_reject: "local_step r c (slot_send_reject E c q n)"
  by (simp add: slot_send_reject_def local_step_ctrl)

lemma local_step_simple_upd:
  assumes "\<And>G st. slot_inv G st \<Longrightarrow> slot_inv G (f st)" "\<And>st. view_of (f st) = view_of st"
  shows "local_step r c (upd_slot c r f)"
  by (rule local_step_upd) (simp add: assms)

lemma local_step_gap_ready: "local_step r c (snd (reorder_gap_ready E c r n))"
proof -
  obtain t c1 where clk: "clock_get_monotonic E c = (t, c1)" by (meson surj_pair)
  note s1 = local_step_clock(1)[OF clk, of r]
  show ?thesis unfolding reorder_gap_ready_def Let_def clk prod.case
    by (auto intro!: s1 local_step_trans[OF s1 local_step_simple_upd])
qed

lemma local_step_slot_gap_ready: "local_step r c (snd (slot_gap_ready E c r n))"
  by (simp add: slot_gap_ready_def local_step_gap_ready)

lemma local_step_raw_disconnect: "local_step CtxSlot c (raw_session_disconnect c CtxSlot)"
  unfolding raw_session_disconnect_def Let_def
  by (rule local_step_trans[OF local_step_trans[OF local_step_reset_ping local_step_disconnect_service] local_step_simple_upd])
    (auto intro: slot_inv_lists)

lemma slot_inv_window:
  "slot_inv G st \<Longrightarrow> recv_inv w \<Longrightarrow> win_window_size w = win_window_size (s_recv_window st) \<Longrightarrow>
   win_max_payload w = win_max_payload (s_recv_window st) \<Longrightarrow> slot_inv G (st\<lparr>s_recv_window := w\<rparr>)"
  by (simp add: slot_inv_def)

lemma slot_inv_recv: "slot_inv G st \<Longrightarrow> recv_inv (s_recv_window st)"
  by (simp add: slot_inv_def)

lemma local_step_set_window:
  assumes "slot_inv (c_global c) (get_slot c r) \<Longrightarrow> recv_inv (s_recv_window (get_slot c r)) \<Longrightarrow> recv_inv w \<and>
      win_window_size w = win_window_size (s_recv_window (get_slot c r)) \<and>
      win_max_payload w = win_max_payload (s_recv_window (get_slot c r))"
  shows "local_step r c (set_recv_window c r w)"
  unfolding set_recv_window_def
  by (rule local_step_upd) (use assms in \<open>auto intro!: slot_inv_window dest: slot_inv_recv\<close>)

lemma pop_dims:
  assumes "recv_inv w" "window_recv_pop w = (Inr p, w')"
  shows "recv_inv w' \<and> win_window_size w' = win_window_size w \<and> win_max_payload w' = win_max_payload w \<and>
    hd (recv_abs w) = Some p \<and> recv_abs w' = tl (recv_abs w) @ [None] \<and> win_base_seq w' = win_base_seq w + 1"
  using assms recv_pop_inv[OF assms(1)] recv_abs_drop_base[OF recv_inv_wf[OF assms(1)]]
  by (auto simp: recv_pop_spec split: option.splits)

lemma local_step_deliver_popped: "local_step r c (deliver_popped E c r p)"
  by (auto simp: deliver_popped_def intro!: local_step_fold local_step_deliver_elem)

lemma local_step_drain_loop: "local_step r c (drain_loop fuel E c r)"
proof (induction fuel arbitrary: c)
  case (Suc fuel)
  show ?case
  proof (cases "window_recv_pop (s_recv_window (get_slot c r))")
    case (Pair a w)
    show ?thesis
    proof (cases a)
      case (Inr p)
      have "local_step r c (set_recv_window c r w)"
        by (rule local_step_set_window) (use pop_dims[of "s_recv_window (get_slot c r)" p w] Pair Inr in auto)
      from local_step_trans[OF local_step_trans[OF this local_step_deliver_popped] Suc.IH]
      show ?thesis using Pair Inr by simp
    qed (simp add: Pair)
  qed
qed simp

declare drain_loop.simps(2) [simp del]

lemma slot_run_drain: "slot_run r c (snd (slot_drain_recv_window E c r))"
proof -
  let ?c1 = "drain_loop (Suc (unat (win_window_size (s_recv_window (get_slot c r))))) E c r"
  have s1: "local_step r c ?c1" by (rule local_step_drain_loop)
  show ?thesis unfolding slot_drain_recv_window_def Let_def
    using slot_run_local[OF s1] slot_run_seq[OF s1 slot_run_fin_fire] by (auto split: option.split)
qed

lemma drain_not_freed:
  assumes "slot_drain_recv_window E c r = (True, c')"
  shows "local_step r c c'"
proof -
  let ?c1 = "drain_loop (Suc (unat (win_window_size (s_recv_window (get_slot c r))))) E c r"
  note s1 = local_step_drain_loop[where fuel = "Suc (unat (win_window_size (s_recv_window (get_slot c r))))" and E = E and c = c and r = r]
  show ?thesis
  proof (cases "fin_pending_reached ?c1 r")
    case None
    then show ?thesis using assms s1 by (simp add: slot_drain_recv_window_def Let_def)
  next
    case (Some t)
    then have "r = CtxSlot" "c' = fin_fire E ?c1 r t"
      using assms by (cases r; simp add: slot_drain_recv_window_def Let_def)+
    moreover have "local_step CtxSlot ?c1 (fin_fire E ?c1 CtxSlot t)"
      by (rule local_step_inv) (use slot_run_fin_fire[of CtxSlot ?c1 E t] in \<open>auto simp: slot_run_def\<close>)
    ultimately show ?thesis using s1 by (auto intro: local_step_trans)
  qed
qed

lemma local_step_dup: "local_step r c (snd (nack_is_duplicate E c r a))"
proof -
  obtain t c1 where clk: "clock_get_monotonic_ms E c = (t, c1)" by (meson surj_pair)
  note s1 = local_step_clock(2)[OF clk, of r]
  have "local_step r c1 (put_slot c1 r ((get_slot c1 r)
      \<lparr>s_nack_dedup_buf := (s_nack_dedup_buf (get_slot c1 r))[s_nack_dedup_next (get_slot c1 r) := \<lparr>nd_ack_num = a, nd_time_ms = t\<rparr>],
       s_nack_dedup_next := (s_nack_dedup_next (get_slot c1 r) + 1) mod POTR_NACK_DEDUP_SLOTS\<rparr>))"
    by (rule local_step_put) (simp add: slot_inv_def)
  then show ?thesis unfolding nack_is_duplicate_def Let_def clk prod.case
    by (auto intro: s1 local_step_trans[OF s1] simp del: put_slot.simps)
qed

lemma local_step_on_nack: "local_step r c (window_on_nack E c r pkt)"
proof -
  obtain d c1 where dup: "nack_is_duplicate E c r (ack_num pkt) = (d, c1)" by (meson surj_pair)
  have s1: "local_step r c c1" using local_step_dup[of r c E "ack_num pkt"] dup by simp
  show ?thesis unfolding window_on_nack_def dup Let_def prod.case slot_retransmit_or_reject_def
    by (auto split: sum.split intro: s1 local_step_trans[OF s1 local_step_wire] local_step_trans[OF s1 local_step_reject])
qed

text \<open>A packet that fits the slots of the window, and the restriction of RAW services to the 1:1 modes.\<close>

definition pkt_fits :: "potr_global_config \<Rightarrow> potr_packet \<Rightarrow> bool" where
  "pkt_fits G p \<longleftrightarrow> length (payload p) = plen_host p \<and> plen_host p \<le> unat (gc_max_payload G)"

definition raw_is_single :: "potr_context \<Rightarrow> slot_ref \<Rightarrow> bool" where
  "raw_is_single c r \<longleftrightarrow> (is_raw_type (sd_type (c_service c)) \<longrightarrow> \<not> slot_is_peer r)"

lemma raw_single_ctx: "raw_is_single c r \<Longrightarrow> is_raw_type (sd_type (c_service c)) \<Longrightarrow> r = CtxSlot"
  by (cases r) (simp_all add: raw_is_single_def)

lemma raw_single_local:
  "local_step r c c' \<Longrightarrow> slot_ok c r \<Longrightarrow> slot_inv (c_global c) (get_slot c r) \<Longrightarrow> raw_is_single c' r = raw_is_single c r"
  using local_stepD(1)[of r c c'] by (simp add: raw_is_single_def ctx_frame_def)

lemma local_step_service:
  "local_step r c c' \<Longrightarrow> slot_ok c r \<Longrightarrow> slot_inv (c_global c) (get_slot c r) \<Longrightarrow> c_service c' = c_service c"
  using local_stepD(1)[of r c c'] by (simp add: ctx_frame_def)

lemma push_dims:
  assumes "recv_inv w" "fits_recv w p" "window_recv_push w p = (res, w')"
  shows "recv_inv w' \<and> win_window_size w' = win_window_size w \<and> win_max_payload w' = win_max_payload w"
  using assms(3) recv_push_inv[OF assms(1,2)] unfolding recv_push_spec[OF assms(1,2)] by (auto split: if_splits)

lemma reset_dims:
  assumes "recv_inv w"
  shows "recv_inv (window_recv_reset w s) \<and> win_window_size (window_recv_reset w s) = win_window_size w \<and>
    win_max_payload (window_recv_reset w s) = win_max_payload w"
  using recv_reset_spec[OF recv_inv_wf[OF assms], of s] by (simp add: window_recv_reset_def)

lemma fits_slot: "slot_inv G st \<Longrightarrow> pkt_fits G p \<Longrightarrow> fits_recv (s_recv_window st) p"
  by (simp add: slot_inv_def pkt_fits_def fits_recv_def)

lemma local_step_repush:
  assumes "pkt_fits (c_global c) p" "window_recv_push (window_recv_reset (s_recv_window (get_slot c r)) s) p = (res, w)"
  shows "local_step r c (set_recv_window c r w)"
proof (rule local_step_set_window)
  assume inv: "slot_inv (c_global c) (get_slot c r)" and ri: "recv_inv (s_recv_window (get_slot c r))"
  have "fits_recv (window_recv_reset (s_recv_window (get_slot c r)) s) p"
    using fits_slot[OF inv assms(1)] reset_dims[OF ri, of s] by (simp add: fits_recv_def)
  with push_dims[OF _ this assms(2)] reset_dims[OF ri, of s]
  show "recv_inv w \<and> win_window_size w = win_window_size (s_recv_window (get_slot c r)) \<and>
      win_max_payload w = win_max_payload (s_recv_window (get_slot c r))" by simp
qed

lemma local_step_store:
  assumes "pkt_fits (c_global c) pkt" "raw_is_single c r"
  shows "local_step r c (snd (accept_store E c r pkt))"
proof (rule local_step_inv)
  assume ok: "slot_ok c r" and inv: "slot_inv (c_global c) (get_slot c r)"
  obtain res w where p: "window_recv_push (s_recv_window (get_slot c r)) pkt = (res, w)" by (meson surj_pair)
  have w: "local_step r c (set_recv_window c r w)"
    by (rule local_step_set_window) (use push_dims[OF _ fits_slot[OF inv assms(1)] p] in simp)
  let ?c1 = "raw_session_disconnect c r"
  obtain res1 w2 where p1: "window_recv_push (window_recv_reset (s_recv_window (get_slot ?c1 r)) (seq_num pkt)) pkt = (res1, w2)"
    by (meson surj_pair)
  have "local_step r c (set_recv_window ?c1 r w2)" if raw: "is_raw_type (sd_type (c_service c))"
  proof -
    have r: "r = CtxSlot" using raw_single_ctx[OF assms(2) raw] .
    have s1: "local_step r c ?c1" using local_step_raw_disconnect[of c] r by simp
    have "pkt_fits (c_global ?c1) pkt" using assms(1) local_step_global[OF s1 ok inv] by simp
    from local_step_repush[OF this p1] s1 show ?thesis by (rule local_step_trans[rotated])
  qed
  then show "local_step r c (snd (accept_store E c r pkt))"
    unfolding accept_store_def p Let_def prod.case p1 using w by auto
qed

lemma local_step_accept_gap:
  assumes "pkt_fits (c_global c) pkt" "raw_is_single c r"
  shows "local_step r c (snd (accept_gap E c r pkt))"
proof (rule local_step_inv)
  assume ok: "slot_ok c r" and inv: "slot_inv (c_global c) (get_slot c r)"
  show "local_step r c (snd (accept_gap E c r pkt))"
  proof (cases "window_recv_needs_nack (s_recv_window (get_slot c r))")
    case None
    have "local_step r c (upd_slot c r (\<lambda>st. st\<lparr>s_reorder_pending := False\<rparr>))" by (rule local_step_simple_upd) simp_all
    with None show ?thesis by (simp add: accept_gap_def)
  next
    case (Some n)
    obtain ready c1 where g: "reorder_gap_ready E c r n = (ready, c1)" by (meson surj_pair)
    obtain ready' c1' where g': "slot_gap_ready E c r n = (ready', c1')" by (meson surj_pair)
    have s1: "local_step r c c1" using local_step_gap_ready[of r c E n] g by simp
    have s1': "local_step r c c1'" using local_step_slot_gap_ready[of r c E n] g' by simp
    let ?c2 = "raw_session_disconnect c1 r"
    obtain res w2 where p: "window_recv_push (window_recv_reset (s_recv_window (get_slot ?c2 r)) (seq_num pkt)) pkt = (res, w2)"
      by (meson surj_pair)
    have raw: "local_step r c (set_recv_window ?c2 r w2)" if raw: "is_raw_type (sd_type (c_service c))"
    proof -
      have r: "r = CtxSlot" using raw_single_ctx[OF assms(2) raw] .
      have s2: "local_step r c ?c2" using local_step_trans[OF s1] local_step_raw_disconnect[of c1] r by simp
      have "pkt_fits (c_global ?c2) pkt" using assms(1) local_step_global[OF s2 ok inv] by simp
      from local_step_repush[OF this p] s2 show ?thesis by (rule local_step_trans[rotated])
    qed
    show ?thesis unfolding accept_gap_def Some option.case g g' Let_def prod.case p
      using raw s1 s1' local_step_trans[OF s1' local_step_nack] by auto
  qed
qed

lemma slot_run_accept_drain: "slot_run r c (accept_drain E c r)"
proof -
  obtain alive c1 where d: "slot_drain_recv_window E c r = (alive, c1)" by (meson surj_pair)
  show ?thesis
  proof (cases alive)
    case False
    then show ?thesis using slot_run_drain[of r c E] d by (simp add: accept_drain_def)
  next
    case True
    have s1: "local_step r c c1" by (rule drain_not_freed) (use d True in simp)
    have u: "local_step r c1 (upd_slot c1 r (\<lambda>st. st\<lparr>s_reorder_pending := False\<rparr>))"
      by (rule local_step_simple_upd) simp_all
    have "local_step r c1 (let (ready, c2) = slot_gap_ready E c1 r n in if ready then slot_send_nack E c2 r n else c2)" for n
      using local_step_slot_gap_ready[of r c1 E n] local_step_trans[OF local_step_slot_gap_ready[of r c1 E n] local_step_nack]
      by (auto split: prod.splits simp: Let_def)
    with u have "local_step r c1 (accept_drain E c r)"
      unfolding accept_drain_def d Let_def prod.case using True by (auto split: option.split)
    with s1 show ?thesis by (blast intro: slot_run_local local_step_trans)
  qed
qed

lemma slot_run_accept:
  assumes "pkt_fits (c_global c) pkt" "raw_is_single c r"
  shows "slot_run r c (window_accept_outer E c r pkt k)"
proof -
  obtain stored c1 where a: "accept_store E c r pkt = (stored, c1)" by (meson surj_pair)
  have s1: "local_step r c c1" using local_step_store[OF assms, of E] a by simp
  obtain go c2 where g: "accept_gap E c1 r pkt = (go, c2)" by (meson surj_pair)
  have s2: "local_step r c c2"
  proof (rule local_step_inv)
    assume ok: "slot_ok c r" and inv: "slot_inv (c_global c) (get_slot c r)"
    have "pkt_fits (c_global c1) pkt" "raw_is_single c1 r"
      using assms local_step_global[OF s1 ok inv] raw_single_local[OF s1 ok inv] by simp_all
    from local_step_accept_gap[OF this, of E] g s1 show "local_step r c c2" by (auto intro: local_step_trans)
  qed
  have s3: "local_step r c2 (recv_sync_path_state (snd (update_path_health E c2 r k)) r)"
    by (rule local_step_trans[OF local_step_update_health local_step_sync])
  have "local_step r c (if \<not> slot_is_peer r \<and> flags pkt AND POTR_FLAG_DATA \<noteq> 0 \<and> sd_type (c_service c2) \<noteq> POTR_TYPE_UNICAST_BIDIR
      then recv_sync_path_state (snd (update_path_health E c2 r k)) r else c2)"
    using s2 local_step_trans[OF s2 s3] by simp
  from slot_run_seq[OF this slot_run_accept_drain] show ?thesis
    unfolding window_accept_outer_def a g Let_def prod.case
    using slot_run_local[OF s1] slot_run_local[OF s2] by auto
qed

lemma slot_run_on_reject: "slot_run r c (window_on_reject E c r pkt k sender)"
proof -
  obtain adopted c1 where a: "session_adopt E c r pkt = (adopted, c1)" by (meson surj_pair)
  have s1: "local_step r c c1" using local_step_session_adopt[of r c E pkt] a by simp
  let ?c4 = "recv_disconnect_all_paths (upd_slot (learn_sender_path c1 r k sender) r reset_ping_states) r"
  have s4: "local_step r c ?c4"
    by (rule local_step_trans[OF s1 local_step_trans[OF local_step_learn local_step_trans[OF local_step_reset_ping local_step_disconnect]]])
  have "local_step r ?c4 (upd_slot ?c4 r (\<lambda>st. st\<lparr>s_reorder_pending := False,
                               s_recv_window := window_recv_skip (s_recv_window st) (ack_num pkt)\<rparr>))"
    by (rule local_step_simple_upd) (simp_all add: slot_inv_window slot_inv_recv recv_inv_drop_base recv_skip_spec)
  from slot_run_seq[OF local_step_trans[OF s4 this] slot_run_drain]
  show ?thesis unfolding window_on_reject_def a Let_def prod.case
    using slot_run_local[OF s1] by (auto intro: slot_run_local)
qed

lemma local_step_scan_loop: "local_step r c (snd (scan_gap_loop E r w p c s))"
proof (induction E r w p c s rule: scan_gap_loop.induct)
  case (1 E r w p c s)
  obtain ready c1 where g: "reorder_gap_ready E c r s = (ready, c1)" by (meson surj_pair)
  have s1: "local_step r c c1" using local_step_gap_ready[of r c E s] g by simp
  have IH1: "s \<noteq> p \<and> seqnum_in_window s (win_base_seq w) (win_window_size w) \<Longrightarrow> \<not> window_recv_has_packet w s \<Longrightarrow>
      ready \<Longrightarrow> local_step r (slot_send_nack E c1 r s) (snd (scan_gap_loop E r w p (slot_send_nack E c1 r s) (s + 1)))"
    using "1.IH"(1) g by simp
  show ?case
    by (subst scan_gap_loop.simps)
      (use "1.IH"(2) IH1 g s1 in \<open>auto intro: local_step_trans[OF local_step_trans[OF s1 local_step_nack]]\<close>)
qed

lemma local_step_scan_ping:
  assumes "raw_is_single c r"
  shows "local_step r c (window_scan_ping_gap E c r pkt)"
proof (cases r)
  case (PeerSlot i)
  then show ?thesis
    by (auto simp: window_scan_ping_gap_def Let_def slot_gap_ready_def intro: local_step_nack)
next
  case CtxSlot
  let ?w = "s_recv_window (get_slot c r)"
  have u: "local_step r d (upd_slot d r (\<lambda>st. st\<lparr>s_reorder_pending := False\<rparr>))" for d
    by (rule local_step_simple_upd) simp_all
  obtain ready c1 where g: "reorder_gap_ready E c r (win_next_seq ?w) = (ready, c1)" by (meson surj_pair)
  have s1: "local_step r c c1" using local_step_gap_ready[of r c E "win_next_seq ?w"] g by simp
  let ?c2 = "raw_session_disconnect c1 r"
  have s2: "local_step r c1 ?c2" using local_step_raw_disconnect[of c1] CtxSlot by simp
  have s3: "local_step r ?c2 (set_recv_window ?c2 r (window_recv_reset (s_recv_window (get_slot ?c2 r)) (seq_num pkt)))"
    by (rule local_step_set_window) (rule reset_dims)
  obtain q c3 where l: "scan_gap_loop E r ?w (seq_num pkt) c (win_next_seq ?w) = (q, c3)" by (meson surj_pair)
  have s4: "local_step r c c3" using local_step_scan_loop[of r c E ?w "seq_num pkt" "win_next_seq ?w"] l by simp
  show ?thesis
    unfolding window_scan_ping_gap_def Let_def g l prod.case
    using CtxSlot u s1 local_step_trans[OF s1 local_step_trans[OF s2 s3]] s4 local_step_trans[OF s4 u] by auto
qed

lemma local_step_check_timeout:
  assumes "raw_is_single c r"
  shows "local_step r c (window_check_reorder_timeout E c r)"
proof (rule local_step_inv)
  assume ok: "slot_ok c r" and inv: "slot_inv (c_global c) (get_slot c r)"
  obtain ready c1 where g: "reorder_gap_ready E c r (s_reorder_nack_num (get_slot c r)) = (ready, c1)" by (meson surj_pair)
  have s1: "local_step r c c1" using local_step_gap_ready[of r c E] g by (metis snd_conv)
  have sv: "c_service c1 = c_service c" using local_step_service[OF s1 ok inv] .
  have "local_step r c (upd_slot (raw_session_disconnect c1 r) r (\<lambda>st. st\<lparr>s_peer_session_known := False,
      s_last_recv_ts := (s_last_recv_ts st)\<lparr>tv_sec := 0\<rparr>,
      s_recv_window := snd (window_init E (s_recv_window st) 0 (gc_window_size (c_global c)) (gc_max_payload (c_global c)))\<rparr>))"
    if raw: "is_raw_type (sd_type (c_service c))"
  proof -
    have r: "r = CtxSlot" using raw_single_ctx[OF assms raw] .
    have s2: "local_step r c (raw_session_disconnect c1 r)"
      using local_step_trans[OF s1] local_step_raw_disconnect[of c1] r by simp
    show ?thesis by (rule local_step_trans[OF s2 local_step_reinit[OF local_step_global[OF s2 ok inv]]]) simp_all
  qed
  then show "local_step r c (window_check_reorder_timeout E c r)"
    unfolding window_check_reorder_timeout_def g Let_def prod.case sv
    using s1 local_step_trans[OF s1 local_step_nack] by auto
qed

end
