(* ===== verification/Window_Protocol.thy ===== *)
theory Window_Protocol
  imports Recv_Window
begin

text \<open>
  What the operations of \<^verbatim>\<open>thread/thread_recv_window.c\<close> achieve: a drain hands over exactly the
  packets that have become contiguous, a NACK is answered with the stored packet or a REJECT, a
  repeated NACK is suppressed, and a PING makes the receiver request what is missing.
\<close>

unbundle bit_operations_syntax

section \<open>What a drain delivers\<close>

lemma put_slot_trace: "put_slot (c\<lparr>c_trace := t\<rparr>) r st = (put_slot c r st)\<lparr>c_trace := t\<rparr>"
  by (cases r) simp_all

lemma set_window_eq: "set_recv_window c r w = put_slot c r ((get_slot c r)\<lparr>s_recv_window := w\<rparr>)"
  by (simp add: set_recv_window_def upd_slot_def)

lemma set_window_frame:
  "slot_ok c r \<Longrightarrow> get_slot (set_recv_window c r w) r = (get_slot c r)\<lparr>s_recv_window := w\<rparr>"
  "slot_ok (set_recv_window c r w) r' = slot_ok c r'"
  "slot_ok c r \<Longrightarrow> set_recv_window (set_recv_window c r w) r w' = set_recv_window c r w'"
  "slot_ok c r \<Longrightarrow> set_recv_window c r (s_recv_window (get_slot c r)) = c"
  "c_global (set_recv_window c r w) = c_global c" "c_callback (set_recv_window c r w) = c_callback c"
  "slot_peer_id (set_recv_window c r w) r' = slot_peer_id c r'"
  "c_compress_buf_size (set_recv_window c r w) = c_compress_buf_size c"
  "set_recv_window (c\<lparr>c_trace := t\<rparr>) r w = (set_recv_window c r w)\<lparr>c_trace := t\<rparr>"
  "c_trace (set_recv_window c r w) = c_trace c"
proof -
  show "c_compress_buf_size (set_recv_window c r w) = c_compress_buf_size c" by (cases r) (simp_all add: set_window_eq)
qed (simp_all add: set_window_eq put_slot_laws put_slot_trace)

lemma recv_deliver_set_window:
  "slot_recv_deliver E (set_recv_window c r w) r d z = set_recv_window (slot_recv_deliver E c r d z) r w"
  by (simp add: slot_recv_deliver_def callback_emit_def callback_emit_locked_def emit_def set_window_frame split: option.split)

lemma put_set_window:
  assumes "slot_ok c r"
  shows "put_slot (set_recv_window c r w) r (st\<lparr>s_recv_window := w\<rparr>) = set_recv_window (put_slot c r st) r w"
  by (simp only: set_window_eq put_slot_laws(3) put_slot_laws(1)[OF assms])

lemma upd_set_window:
  assumes "slot_ok c r" "\<And>st. f (st\<lparr>s_recv_window := w\<rparr>) = (f st)\<lparr>s_recv_window := w\<rparr>"
  shows "upd_slot (set_recv_window c r w) r f = set_recv_window (upd_slot c r f) r w"
  using assms by (simp add: upd_slot_def set_window_frame put_set_window)

lemma deliver_elem_set_window:
  assumes "slot_ok c r"
  shows "slot_deliver_payload_elem E (set_recv_window c r w) r e = set_recv_window (slot_deliver_payload_elem E c r e) r w"
proof -
  let ?s = "get_slot c r"
  have swap: "s\<lparr>s_recv_window := w, s_frag_compressed := z\<rparr> = s\<lparr>s_frag_compressed := z, s_recv_window := w\<rparr>"
    "s\<lparr>s_recv_window := w, s_frag_buf := b\<rparr> = s\<lparr>s_frag_buf := b, s_recv_window := w\<rparr>" for s b z
    by (cases s; simp)+
  have ok: "slot_ok (slot_recv_deliver E c r d z) r" for d z
    using assms by (auto simp: slot_recv_deliver_def callback_emit_def callback_emit_locked_def emit_def split: option.split)
  show ?thesis
    unfolding slot_deliver_payload_elem_def Let_def
    by (simp add: set_window_frame(1)[OF assms] set_window_frame(5-10) put_set_window[OF assms] recv_deliver_set_window
        upd_set_window[OF assms] upd_set_window[OF ok] swap del: put_slot.simps)
qed

lemma slot_ok_deliver [simp]: "slot_ok (slot_deliver_payload_elem E c r e) q = slot_ok c q"
proof -
  have ok: "slot_ok (slot_recv_deliver E c r d z) q = slot_ok c q" for d z
    by (auto simp: slot_recv_deliver_def callback_emit_def callback_emit_locked_def emit_def split: option.split)
  show ?thesis
    unfolding slot_deliver_payload_elem_def Let_def by (simp add: ok put_slot_laws(4) del: put_slot.simps)
qed

lemma slot_ok_popped [simp]: "slot_ok (deliver_popped E c r p) q = slot_ok c q"
proof -
  have "slot_ok (fold (\<lambda>elem c. slot_deliver_payload_elem E c r elem) es c) q = slot_ok c q" for es
    by (induction es arbitrary: c) simp_all
  then show ?thesis by (simp add: deliver_popped_def)
qed

lemma popped_set_window:
  assumes "slot_ok c r"
  shows "deliver_popped E (set_recv_window c r w) r p = set_recv_window (deliver_popped E c r p) r w"
proof -
  have "slot_ok c r \<Longrightarrow> fold (\<lambda>elem c. slot_deliver_payload_elem E c r elem) es (set_recv_window c r w) =
      set_recv_window (fold (\<lambda>elem c. slot_deliver_payload_elem E c r elem) es c) r w" for es
    by (induction es arbitrary: c) (simp_all add: deliver_elem_set_window)
  then show ?thesis using assms by (simp add: deliver_popped_def)
qed

lemma popped_all_set_window:
  assumes "slot_ok c r"
  shows "fold (\<lambda>p c. deliver_popped E c r p) ps (set_recv_window c r w) =
    set_recv_window (fold (\<lambda>p c. deliver_popped E c r p) ps c) r w"
    and "slot_ok (fold (\<lambda>p c. deliver_popped E c r p) ps c) r"
  using assms by (induction ps arbitrary: c) (simp_all add: popped_set_window)

text \<open>The packets at the front of the window that have arrived without a gap.\<close>

definition ready_packets :: "potr_internal_window \<Rightarrow> potr_packet list" where
  "ready_packets w = map the (takeWhile (\<lambda>x. x \<noteq> None) (recv_abs w))"

lemma ready_pop:
  assumes "recv_inv w"
  shows "hd (recv_abs w) = None \<Longrightarrow> window_recv_pop w = (Inl POTR_ERR_EMPTY, w) \<and> ready_packets w = []"
    and "hd (recv_abs w) = Some p \<Longrightarrow> \<exists>w'. window_recv_pop w = (Inr p, w') \<and> ready_packets w = p # ready_packets w' \<and>
      drop (length (ready_packets w)) (recv_abs w) @ replicate (length (ready_packets w)) None =
      drop (length (ready_packets w')) (recv_abs w') @ replicate (length (ready_packets w')) None"
proof -
  obtain x xs where l: "recv_abs w = x # xs" using recv_abs_ne[OF assms] by (cases "recv_abs w") auto
  show "hd (recv_abs w) = None \<Longrightarrow> window_recv_pop w = (Inl POTR_ERR_EMPTY, w) \<and> ready_packets w = []"
    using assms by (simp add: recv_pop_spec ready_packets_def l)
  assume p: "hd (recv_abs w) = Some p"
  have pop: "window_recv_pop w = (Inr p, win_drop_base w)" using assms p by (simp add: recv_pop_spec)
  have abs': "recv_abs (win_drop_base w) = xs @ [None]"
    using recv_abs_drop_base[OF recv_inv_wf[OF assms]] by (simp add: l)
  have tw: "takeWhile (\<lambda>x. x \<noteq> None) (xs @ [None]) = takeWhile (\<lambda>x. x \<noteq> None) xs" by (simp add: takeWhile_tail)
  let ?k = "length (takeWhile (\<lambda>x. x \<noteq> None) xs)"
  have "?k \<le> length xs" by (rule length_takeWhile_le)
  then show "\<exists>w'. window_recv_pop w = (Inr p, w') \<and> ready_packets w = p # ready_packets w' \<and>
      drop (length (ready_packets w)) (recv_abs w) @ replicate (length (ready_packets w)) None =
      drop (length (ready_packets w')) (recv_abs w') @ replicate (length (ready_packets w')) None"
    using p l by (intro exI[of _ "win_drop_base w"]) (simp add: pop ready_packets_def abs' tw del: not_None_eq)
qed

lemma drain_loop_exhausts:
  assumes "slot_ok c r" "slot_inv (c_global c) (get_slot c r)"
    "length (ready_packets (s_recv_window (get_slot c r))) < fuel"
  shows "\<exists>w'. drain_loop fuel E c r =
      set_recv_window (fold (\<lambda>p c. deliver_popped E c r p) (ready_packets (s_recv_window (get_slot c r))) c) r w' \<and>
    recv_inv w' \<and> recv_abs w' = drop (length (ready_packets (s_recv_window (get_slot c r)))) (recv_abs (s_recv_window (get_slot c r)))
      @ replicate (length (ready_packets (s_recv_window (get_slot c r)))) None \<and>
    win_base_seq w' = win_base_seq (s_recv_window (get_slot c r)) + of_nat (length (ready_packets (s_recv_window (get_slot c r))))"
  using assms
proof (induction fuel arbitrary: c)
  case (Suc fuel)
  let ?w = "s_recv_window (get_slot c r)"
  have ri: "recv_inv ?w" using Suc.prems(2) by (rule slot_inv_recv)
  show ?case
  proof (cases "hd (recv_abs ?w)")
    case None
    note e = ready_pop(1)[OF ri None]
    then have "drain_loop (Suc fuel) E c r = c" by (simp add: drain_loop.simps)
    then show ?thesis using e ri Suc.prems(1) by (intro exI[of _ ?w]) (simp add: set_window_frame)
  next
    case (Some p)
    from ready_pop(2)[OF ri Some] obtain w1 where pop: "window_recv_pop ?w = (Inr p, w1)"
      and rp: "ready_packets ?w = p # ready_packets w1"
      and sh: "drop (length (ready_packets ?w)) (recv_abs ?w) @ replicate (length (ready_packets ?w)) None =
        drop (length (ready_packets w1)) (recv_abs w1) @ replicate (length (ready_packets w1)) None" by blast
    note d = pop_dims[OF ri pop]
    let ?d = "deliver_popped E c r p" and ?c1 = "set_recv_window (deliver_popped E c r p) r w1"
    have okd: "slot_ok ?d r" using Suc.prems(1) by simp
    have st: "drain_loop (Suc fuel) E c r = drain_loop fuel E ?c1 r"
      using Suc.prems(1) by (simp add: drain_loop.simps pop popped_set_window)
    have ok1: "slot_ok ?c1 r" using okd by (simp add: set_window_frame)
    have w1: "s_recv_window (get_slot ?c1 r) = w1" using okd by (simp add: set_window_frame)
    have ls: "local_step r c (set_recv_window c r w1)"
      by (rule local_step_set_window) (use d in simp)
    have "local_step r c ?c1"
      using local_step_trans[OF ls local_step_deliver_popped, of E p] Suc.prems(1) by (simp add: popped_set_window)
    from local_stepD(7)[OF this Suc.prems(1,2)] have inv1: "slot_inv (c_global ?c1) (get_slot ?c1 r)" .
    have "length (ready_packets w1) < fuel" using Suc.prems(3) rp by simp
    from Suc.IH[OF ok1 inv1, unfolded w1, OF this] obtain w' where
      dl: "drain_loop fuel E ?c1 r = set_recv_window (fold (\<lambda>p c. deliver_popped E c r p) (ready_packets w1) ?c1) r w'"
      and w': "recv_inv w'" "recv_abs w' = drop (length (ready_packets w1)) (recv_abs w1) @ replicate (length (ready_packets w1)) None"
        "win_base_seq w' = win_base_seq w1 + of_nat (length (ready_packets w1))" by blast
    have "drain_loop fuel E ?c1 r = set_recv_window (fold (\<lambda>p c. deliver_popped E c r p) (ready_packets ?w) c) r w'"
      using okd by (simp add: dl rp popped_all_set_window set_window_frame(3))
    then show ?thesis using w' d sh rp by (intro exI[of _ w']) (simp add: st)
  qed
qed simp

text \<open>
  C4: Draining.  The drain loop stops because the window has no next packet, having handed
  to the application the elements of all packets that had become contiguous, in sequence
  order, and advanced the window past them; nothing else of the slot's window changes.
\<close>

theorem drain_delivers:
  assumes "slot_ok c r" "slot_inv (c_global c) (get_slot c r)"
  defines "w \<equiv> s_recv_window (get_slot c r)"
  shows "\<exists>w'. drain_loop (Suc (unat (win_window_size w))) E c r =
      set_recv_window (fold (\<lambda>p c. deliver_popped E c r p) (ready_packets w) c) r w' \<and>
    window_recv_pop w' = (Inl POTR_ERR_EMPTY, w') \<and>
    win_next_seq w' = win_next_seq w + of_nat (length (ready_packets w)) \<and>
    (\<forall>d. d + length (ready_packets w) < unat (win_window_size w) \<longrightarrow>
       recv_abs w' ! d = recv_abs w ! (d + length (ready_packets w)))"
proof -
  let ?k = "length (ready_packets w)"
  have ri: "recv_inv w" using slot_inv_recv[OF assms(2)] by (simp add: w_def)
  have k: "?k \<le> length (recv_abs w)" unfolding ready_packets_def length_map by (rule length_takeWhile_le)
  then have "?k < Suc (unat (win_window_size w))" by simp
  from drain_loop_exhausts[OF assms(1,2) this[unfolded w_def], of E] obtain w' where
    d: "drain_loop (Suc (unat (win_window_size w))) E c r =
      set_recv_window (fold (\<lambda>p c. deliver_popped E c r p) (ready_packets w) c) r w'"
    and w': "recv_inv w'" "recv_abs w' = drop ?k (recv_abs w) @ replicate ?k None" "win_base_seq w' = win_base_seq w + of_nat ?k"
    unfolding w_def by blast
  have "hd (recv_abs w') = None"
  proof (cases "?k < length (recv_abs w)")
    case True
    then have "hd (recv_abs w') = recv_abs w ! ?k" by (simp add: w'(2) hd_drop_conv_nth)
    also have "\<dots> = None" using nth_length_takeWhile[of "\<lambda>x. x \<noteq> None" "recv_abs w"] True
      by (simp add: ready_packets_def)
    finally show ?thesis .
  next
    case False
    then have e: "?k = length (recv_abs w)" and "0 < length (recv_abs w)"
      using k win_wfD(1)[OF recv_inv_wf[OF ri]] by simp_all
    then show ?thesis unfolding w'(2) e by (cases "length (recv_abs w)") simp_all
  qed
  then have "window_recv_pop w' = (Inl POTR_ERR_EMPTY, w')" using ready_pop(1)[OF w'(1)] by blast
  moreover have "win_next_seq w' = win_next_seq w + of_nat ?k" using w' ri by (simp add: recv_inv_next)
  moreover have "\<forall>d. d + ?k < unat (win_window_size w) \<longrightarrow> recv_abs w' ! d = recv_abs w ! (d + ?k)"
    by (simp add: w'(2) nth_append add.commute) linarith
  ultimately show ?thesis using d by blast
qed

definition demo_window_one :: potr_internal_window where
  "demo_window_one = snd (window_recv_push demo_window (demo_data 0xFFFFFFFF))"

lemma demo_slot_one:
  defines "c \<equiv> set_recv_window demo_ctx CtxSlot demo_window_one"
  shows "slot_ok c CtxSlot" "slot_inv (c_global c) (get_slot c CtxSlot)" "s_recv_window (get_slot c CtxSlot) = demo_window_one"
    "length (ready_packets demo_window_one) = 1" "win_next_seq demo_window_one = 0xFFFFFFFF"
proof -
  obtain res where p: "window_recv_push demo_window (demo_data 0xFFFFFFFF) = (res, demo_window_one)"
    by (metis demo_window_one_def prod.collapse)
  have w: "s_recv_window (get_slot demo_ctx CtxSlot) = demo_window" by (simp add: demo_ctx_def)
  have "fits_recv demo_window (demo_data 0xFFFFFFFF)"
    by (simp add: fits_recv_def demo_data_def host_packet_def plen_host_def)
  then have "local_step CtxSlot demo_ctx c" unfolding c_def
    by (intro local_step_set_window) (use push_dims[OF _ _ p] w in simp)
  from local_stepD(5,7)[OF this demo_ctx_slot]
  show "slot_ok c CtxSlot" "slot_inv (c_global c) (get_slot c CtxSlot)" by blast+
  show "s_recv_window (get_slot c CtxSlot) = demo_window_one" by (simp add: c_def set_recv_window_def upd_slot_def)
  show "length (ready_packets demo_window_one) = 1" "win_next_seq demo_window_one = 0xFFFFFFFF" by code_simp+
qed

theorem drain_delivers_witness:
  "\<exists>c' w'. drain_loop 5 demo_cplat (set_recv_window demo_ctx CtxSlot demo_window_one) CtxSlot = set_recv_window c' CtxSlot w' \<and>
     window_recv_pop w' = (Inl POTR_ERR_EMPTY, w') \<and> win_next_seq w' = 0"
proof -
  have "Suc (unat (win_window_size demo_window_one)) = 5" by code_simp
  moreover have "(0xFFFFFFFF + of_nat 1 :: u32) = 0" by simp
  ultimately show ?thesis
    using drain_delivers[OF demo_slot_one(1,2), of demo_cplat, unfolded demo_slot_one(3,4,5)] by metis
qed

section \<open>Answering NACK\<close>

definition send_paths :: "potr_context \<Rightarrow> slot_ref \<Rightarrow> nat list" where
  "send_paths c r = (if slot_is_peer r
     then filter (\<lambda>i. \<not> endpoint_is_unset (s_dest_addr (get_slot c r) ! i)) [0..<POTR_MAX_PATH] else [0..<c_n_path c])"

lemma sendto_frame [simp]:
  "c_trace (snd (socket_sendto E c i ep b)) = c_trace c @ [Io_sendto i ep b]"
  "get_slot (snd (socket_sendto E c i ep b)) r = get_slot c r" "c_n_path (snd (socket_sendto E c i ep b)) = c_n_path c"
  "c_service (snd (socket_sendto E c i ep b)) = c_service c" "c_global (snd (socket_sendto E c i ep b)) = c_global c"
  by (simp_all add: socket_sendto_def emit_def)

lemma send_wire_trace:
  "c_trace (slot_send_wire_to_dests E c r wire) =
     c_trace c @ map (\<lambda>i. Io_sendto i (s_dest_addr (get_slot c r) ! i) wire) (send_paths c r)"
proof (cases r)
  case (PeerSlot j)
  have "c_trace (fold (\<lambda>i c. if endpoint_is_unset (s_dest_addr (get_slot c r) ! i) then c
                else snd (socket_sendto E c i (s_dest_addr (get_slot c r) ! i) wire)) is c0) =
     c_trace c0 @ map (\<lambda>i. Io_sendto i (s_dest_addr (get_slot c0 r) ! i) wire)
       (filter (\<lambda>i. \<not> endpoint_is_unset (s_dest_addr (get_slot c0 r) ! i)) is)" for "is" c0
    by (induction "is" arbitrary: c0) simp_all
  then show ?thesis unfolding PeerSlot slot_send_wire_to_dests.simps send_paths_def slot_is_peer.simps if_True .
next
  case CtxSlot
  have "c_trace (fold (\<lambda>i c. snd (socket_sendto E c i (s_dest_addr (get_slot c r) ! i) wire)) is c0) =
     c_trace c0 @ map (\<lambda>i. Io_sendto i (s_dest_addr (get_slot c0 r) ! i) wire) is" for "is" c0
    by (induction "is" arbitrary: c0) simp_all
  then show ?thesis unfolding CtxSlot slot_send_wire_to_dests.simps send_paths_def slot_is_peer.simps if_False .
qed

lemma send_abs_payload:
  assumes "send_inv E w" "d < length (send_abs E w)"
  shows "length (payload (send_abs E w ! d)) = plen_nbo E (send_abs E w ! d)"
proof -
  note wf = send_inv_wf[OF assms(1)]
  let ?i = "slot_of w d" and ?mp = "unat (win_max_payload w)" and ?n = "unat (win_window_size w)"
  have le: "plen_nbo E (the (win_packets w) ! ?i) \<le> ?mp"
    using assms by (simp add: send_inv_def list_all_iff send_abs_def)
  have "?i * ?mp + ?mp \<le> ?n * ?mp"
    using slot_of_less[OF wf, of d] by (metis Suc_leI add.commute mult_Suc mult_le_mono1)
  then have "length (mem_read (the (win_payload_pool w)) (?i * ?mp) (plen_nbo E (the (win_packets w) ! ?i))) =
      plen_nbo E (the (win_packets w) ! ?i)"
    using le win_wfD(5)[OF wf] by (simp add: mem_read_def)
  then show ?thesis using assms(2)
    by (simp add: send_abs_def win_load_def Let_def slot_of_u16[OF wf] plen_nbo_def)
qed

lemma dup_frame:
  assumes "nack_is_duplicate E c r a = (d, c1)" "slot_ok c r"
  shows "c_trace c1 = c_trace c" "c_n_path c1 = c_n_path c" "c_service c1 = c_service c" "c_global c1 = c_global c"
    "s_send_window (get_slot c1 r) = s_send_window (get_slot c r)" "s_dest_addr (get_slot c1 r) = s_dest_addr (get_slot c r)"
    "own_session_hdr c1 (get_slot c1 r) = own_session_hdr c (get_slot c r)"
  using assms by (auto simp: nack_is_duplicate_def clock_get_monotonic_ms_def Let_def put_slot_laws own_session_hdr_def
      split: if_splits simp del: put_slot.simps)

text \<open>
  C5: A NACK that is not a repetition is answered on every path: with the packet held under
  the requested number, as the very bytes of its wire image, when the send window still
  holds it, and otherwise with a REJECT naming the number (or nothing, if sealing the
  REJECT fails).
\<close>

theorem nack_answered:
  assumes "slot_ok c r" "send_inv E (s_send_window (get_slot c r))"
    and "flags pkt AND POTR_FLAG_NACK \<noteq> 0" "\<not> is_raw_type (sd_type (c_service c))"
    and "\<not> fst (nack_is_duplicate E c r (ack_num pkt))"
  defines "w \<equiv> s_send_window (get_slot c r)" and "dest \<equiv> s_dest_addr (get_slot c r)"
  shows "c_trace (window_on_nack E c r pkt) = c_trace c @
    (let d = unat (ack_num pkt - win_base_seq w);
         answer = (if d < length (send_abs E w) then Inr (packet_wire E (send_abs E w ! d))
                   else build_ctrl_pkt_wire E c (packet_build_reject E (own_session_hdr c (get_slot c r)) (ack_num pkt)))
     in case answer of Inl _ \<Rightarrow> [] | Inr wire \<Rightarrow> map (\<lambda>i. Io_sendto i (dest ! i) wire) (send_paths c r))"
proof -
  obtain c1 where dup: "nack_is_duplicate E c r (ack_num pkt) = (False, c1)"
    using assms(5) by (metis (full_types) prod.collapse)
  note f = dup_frame[OF dup assms(1)]
  have sp: "send_paths c1 r = send_paths c r" by (simp add: send_paths_def f)
  have b: "build_ctrl_pkt_wire E c1 p = build_ctrl_pkt_wire E c p" for p by (simp add: build_ctrl_pkt_wire_def f)
  let ?d = "unat (ack_num pkt - win_base_seq w)"
  have get: "window_send_get E w (ack_num pkt) =
      (if ?d < length (send_abs E w) then Inr (send_abs E w ! ?d) else Inl POTR_ERR_NOT_FOUND)"
    using send_get_spec[OF assms(2)] by (simp add: w_def Let_def)
  have wire: "packet_header_bytes E p @ take (packet_wire_size E p - POTR_PACKET_HEADER_SIZE) (payload p) = packet_wire E p"
    if "length (payload p) = plen_nbo E p" for p
    using that by (simp add: packet_wire_def packet_wire_size_def plen_nbo_def)
  have "window_on_nack E c r pkt = slot_retransmit_or_reject E c1 r (ack_num pkt)"
    using assms(3,4) by (simp add: window_on_nack_def dup)
  then show ?thesis
    using send_abs_payload[OF assms(2), of ?d]
    by (auto simp: slot_retransmit_or_reject_def f get[unfolded w_def] w_def dest_def Let_def send_wire_trace sp wire
        slot_send_reject_def slot_send_ctrl_def fill_own_session_hdr_def b split: sum.split)
qed

definition demo_nack :: potr_packet where
  "demo_nack = host_packet demo_sh 0 5 POTR_FLAG_NACK []"

theorem nack_answered_witness:
  "\<exists>wire. c_trace (window_on_nack demo_cplat demo_ctx CtxSlot demo_nack) =
     [Io_sendto 0 \<lparr>ep_address = 0, ep_port = 0\<rparr> wire, Io_sendto 1 \<lparr>ep_address = 0, ep_port = 0\<rparr> wire]"
proof -
  have pre: "win_init_pre window_zero" "0 < unat (4 :: u16)" by (simp_all add: win_init_pre_def window_zero_def)
  have w: "s_send_window (get_slot demo_ctx CtxSlot) = demo_window" by (simp add: demo_ctx_def)
  have inv: "send_inv demo_cplat (s_send_window (get_slot demo_ctx CtxSlot))" and abs: "send_abs demo_cplat demo_window = []"
    unfolding w using window_init_send[OF pre demo_window_init(1)] by simp_all
  have dup: "\<not> fst (nack_is_duplicate demo_cplat demo_ctx CtxSlot (ack_num demo_nack))"
    by (simp add: nack_is_duplicate_def clock_get_monotonic_ms_def demo_ctx_def slot_zero_def list_ex_iff)
  have f: "flags demo_nack AND POTR_FLAG_NACK \<noteq> 0" "\<not> is_raw_type (sd_type (c_service demo_ctx))"
    by (simp_all add: demo_nack_def host_packet_def demo_ctx_def demo_service_def)
  obtain wire where b: "build_ctrl_pkt_wire demo_cplat demo_ctx (packet_build_reject demo_cplat
      (own_session_hdr demo_ctx (get_slot demo_ctx CtxSlot)) (ack_num demo_nack)) = Inr wire"
    by (simp add: build_ctrl_pkt_wire_def demo_ctx_def demo_service_def)
  have p: "send_paths demo_ctx CtxSlot = [0, 1]" "c_trace demo_ctx = []"
    by (simp_all add: send_paths_def demo_ctx_def numeral_eq_Suc)
  have dest: "s_dest_addr (get_slot demo_ctx CtxSlot) = replicate 4 \<lparr>ep_address = 0, ep_port = 0\<rparr>"
    by (simp add: demo_ctx_def slot_zero_def)
  show ?thesis
    using nack_answered[OF demo_ctx_slot(1) inv f dup] unfolding w abs b p dest by (intro exI[of _ wire]) simp
qed

section \<open>Repeated NACKs\<close>

text \<open>Asking the duplicate filter about a sequence of NACKs.\<close>

fun nack_filter :: "cplat \<Rightarrow> potr_context \<Rightarrow> slot_ref \<Rightarrow> u32 list \<Rightarrow> potr_context" where
  "nack_filter E c r [] = c"
| "nack_filter E c r (a # as) = nack_filter E (snd (nack_is_duplicate E c r a)) r as"

lemma dup_step:
  assumes "slot_ok c r" "length (s_nack_dedup_buf (get_slot c r)) = POTR_NACK_DEDUP_SLOTS"
    "s_nack_dedup_next (get_slot c r) < POTR_NACK_DEDUP_SLOTS" "nack_is_duplicate E c r a = (d, c')"
  shows "slot_ok c' r \<and> length (s_nack_dedup_buf (get_slot c' r)) = POTR_NACK_DEDUP_SLOTS \<and> c_tick c' = Suc (c_tick c) \<and>
    (if d then get_slot c' r = get_slot c r
     else s_nack_dedup_next (get_slot c' r) = (s_nack_dedup_next (get_slot c r) + 1) mod POTR_NACK_DEDUP_SLOTS \<and>
       s_nack_dedup_buf (get_slot c' r) = (s_nack_dedup_buf (get_slot c r))
         [s_nack_dedup_next (get_slot c r) := \<lparr>nd_ack_num = a, nd_time_ms = clock_monotonic_ms E (c_tick c)\<rparr>])"
  using assms by (auto simp: nack_is_duplicate_def clock_get_monotonic_ms_def Let_def put_slot_laws
      split: if_splits simp del: put_slot.simps)

lemma nack_filter_keeps:
  assumes "slot_ok c r" "length (s_nack_dedup_buf (get_slot c r)) = POTR_NACK_DEDUP_SLOTS" "j < POTR_NACK_DEDUP_SLOTS"
    "s_nack_dedup_next (get_slot c r) = (j + 1 + k) mod POTR_NACK_DEDUP_SLOTS" "k + length as < POTR_NACK_DEDUP_SLOTS"
  shows "let c' = nack_filter E c r as in slot_ok c' r \<and> c_tick c' = c_tick c + length as \<and>
    length (s_nack_dedup_buf (get_slot c' r)) = POTR_NACK_DEDUP_SLOTS \<and>
    s_nack_dedup_buf (get_slot c' r) ! j = s_nack_dedup_buf (get_slot c r) ! j"
  using assms
proof (induction as arbitrary: c k)
  case (Cons a as)
  obtain d c1 where n: "nack_is_duplicate E c r a = (d, c1)" by (meson surj_pair)
  have nx: "s_nack_dedup_next (get_slot c r) < POTR_NACK_DEDUP_SLOTS" by (simp add: Cons.prems(4))
  note s = dup_step[OF Cons.prems(1,2) nx n]
  have ne: "(j + 1 + k) mod 8 \<noteq> j" using Cons.prems(3,5) by (simp add: mod_if split: if_splits) presburger
  show ?case
  proof (cases d)
    case True
    then show ?thesis using Cons.IH[of c1 k] s n Cons.prems by (simp add: Let_def)
  next
    case False
    have "s_nack_dedup_next (get_slot c1 r) = (j + 1 + Suc k) mod 8" using s False Cons.prems(4) by (simp add: mod_Suc_eq)
    moreover have "s_nack_dedup_buf (get_slot c1 r) ! j = s_nack_dedup_buf (get_slot c r) ! j"
      using s False Cons.prems(4) ne by simp
    ultimately show ?thesis using Cons.IH[of c1 "Suc k"] s n Cons.prems by (simp add: Let_def)
  qed
qed (simp add: Let_def)

text \<open>
  C26: Suppression of repeated NACKs.  After a NACK was answered at clock reading \<open>t\<close>
  and at most seven others have been looked at, the same NACK read at \<open>u\<close> is recognised as
  a repetition when less than 200 ms (modulo the 64-bit clock) have passed.
\<close>

theorem nack_repetition_suppressed:
  assumes "slot_ok c r" "slot_inv (c_global c) (get_slot c r)"
    and "nack_is_duplicate E c r a = (False, c1)" "length as < POTR_NACK_DEDUP_SLOTS"
    and "clock_monotonic_ms E (c_tick c) = t" "t \<noteq> 0"
    and "clock_monotonic_ms E (c_tick c + 1 + length as) = u" "u - t < POTR_NACK_DEDUP_MS"
  shows "fst (nack_is_duplicate E (nack_filter E c1 r as) r a)"
proof -
  let ?j = "s_nack_dedup_next (get_slot c r)"
  have b: "length (s_nack_dedup_buf (get_slot c r)) = POTR_NACK_DEDUP_SLOTS" "?j < POTR_NACK_DEDUP_SLOTS"
    using assms(2) by (simp_all add: slot_inv_def)
  note s = dup_step[OF assms(1) b assms(3)]
  note k = nack_filter_keeps[of c1 r ?j 0 "as" E]
  let ?c2 = "nack_filter E c1 r as"
  have e: "s_nack_dedup_buf (get_slot ?c2 r) ! ?j = \<lparr>nd_ack_num = a, nd_time_ms = t\<rparr>"
    and tk: "c_tick ?c2 = c_tick c + 1 + length as" and l: "length (s_nack_dedup_buf (get_slot ?c2 r)) = POTR_NACK_DEDUP_SLOTS"
    using k s b assms(4,5) by (simp_all add: Let_def)
  have "\<lparr>nd_ack_num = a, nd_time_ms = t\<rparr> \<in> set (take POTR_NACK_DEDUP_SLOTS (s_nack_dedup_buf (get_slot ?c2 r)))"
    using e b(2) l by (metis nth_mem order_refl take_all)
  then have "\<exists>x\<in>set (take POTR_NACK_DEDUP_SLOTS (s_nack_dedup_buf (get_slot ?c2 r))).
      nd_ack_num x = a \<and> nd_time_ms x \<noteq> 0 \<and> u - nd_time_ms x < POTR_NACK_DEDUP_MS"
    by (rule bexI[rotated]) (use assms(6,8) in simp)
  then show ?thesis using assms(7) tk by (simp add: nack_is_duplicate_def clock_get_monotonic_ms_def Let_def list_ex_iff)
qed

definition demo_clock :: cplat where
  "demo_clock = demo_cplat\<lparr>clock_monotonic_ms := (\<lambda>n. of_nat (10 * n + 1000))\<rparr>"

theorem nack_repetition_suppressed_witness:
  "fst (nack_is_duplicate demo_clock (nack_filter demo_clock (snd (nack_is_duplicate demo_clock demo_ctx CtxSlot 5)) CtxSlot [6]) CtxSlot 5)"
proof (rule nack_repetition_suppressed[OF demo_ctx_slot, where t = 1000 and u = 1020])
  show "nack_is_duplicate demo_clock demo_ctx CtxSlot 5 = (False, snd (nack_is_duplicate demo_clock demo_ctx CtxSlot 5))"
    by (simp add: nack_is_duplicate_def clock_get_monotonic_ms_def demo_ctx_def slot_zero_def list_ex_iff)
qed (simp_all add: demo_clock_def demo_ctx_def)

section \<open>The gap scan of a PING\<close>

text \<open>The numbers among the first \<open>n\<close> of the window whose packet has not arrived.\<close>

definition missing_before :: "potr_internal_window \<Rightarrow> nat \<Rightarrow> u32 list" where
  "missing_before w n = map (\<lambda>d. win_base_seq w + of_nat d) (filter (\<lambda>d. recv_abs w ! d = None) [0..<n])"

lemma offset_unat: "d \<le> unat (ws :: u16) \<Longrightarrow> unat (base + of_nat d - base :: u32) = d"
  using unat_u16_less[of ws] by (simp add: unat_of_nat take_bit_nat_eq_self)

lemma scan_gap_immediate:
  assumes "recv_inv w" "slot_ok c r" "slot_inv (c_global c) (get_slot c r)" "gc_reorder_timeout_ms (c_global c) = 0"
    "m = min (unat (p - win_base_seq w)) (unat (win_window_size w))" "d \<le> m"
  shows "scan_gap_loop E r w p c (win_base_seq w + of_nat d) = (win_base_seq w + of_nat m,
    fold (\<lambda>n c. slot_send_nack E c r n) (map (\<lambda>d. win_base_seq w + of_nat d) (filter (\<lambda>d. recv_abs w ! d = None) [d..<m])) c)"
  using assms
proof (induction "m - d" arbitrary: c d)
  case 0
  then have d: "d = m" by linarith
  let ?s = "win_base_seq w + of_nat m"
  have "unat (?s - win_base_seq w) = m" by (rule offset_unat[of _ "win_window_size w"]) (simp add: 0)
  then have "?s = p \<or> \<not> seqnum_in_window ?s (win_base_seq w) (win_window_size w)"
    unfolding seqnum_in_window_iff 0(6)
    by (cases "unat (p - win_base_seq w) \<le> unat (win_window_size w)") (simp_all add: min_def)
  then have "\<not> (?s \<noteq> p \<and> seqnum_in_window ?s (win_base_seq w) (win_window_size w))" by blast
  then show ?case unfolding d by (subst scan_gap_loop.simps) (simp only: if_False upt_conv_Nil order_refl filter.simps list.map fold.simps id_apply)
next
  case (Suc k)
  let ?s = "win_base_seq w + of_nat d"
  have lt: "d < m" using Suc(2) by simp
  have u: "unat (?s - win_base_seq w) = d" by (rule offset_unat[of _ "win_window_size w"]) (use lt Suc.prems(5) in simp)
  have go: "?s \<noteq> p \<and> seqnum_in_window ?s (win_base_seq w) (win_window_size w)"
    unfolding seqnum_in_window_iff u using lt Suc.prems(5) u by auto
  have up: "[d..<m] = d # [Suc d..<m]" by (rule upt_conv_Cons[OF lt])
  have nx: "?s + 1 = win_base_seq w + of_nat (Suc d)" by simp
  have ready: "reorder_gap_ready E c r ?s = (True, c)" using Suc.prems(4) by (simp add: reorder_gap_ready_def)
  have has: "window_recv_has_packet w ?s \<longleftrightarrow> recv_abs w ! d \<noteq> None"
    using recv_has_packet_spec[OF Suc.prems(1), of ?s] lt Suc.prems(5) unfolding u by simp
  note D = local_stepD[OF local_step_nack[of r c E r ?s] Suc.prems(2,3)]
  have k: "k = m - Suc d" "Suc d \<le> m" using Suc(2) lt by simp_all
  show ?case
  proof (cases "recv_abs w ! d = None")
    case True
    have "scan_gap_loop E r w p c ?s = scan_gap_loop E r w p (slot_send_nack E c r ?s) (?s + 1)"
      by (subst scan_gap_loop.simps) (use go has True ready in simp)
    moreover note Suc(1)[OF k(1) Suc.prems(1) D(5) D(7) _ Suc.prems(5) k(2)]
    ultimately show ?thesis unfolding nx using D(6) Suc.prems(4) True by (simp add: up)
  next
    case False
    have "scan_gap_loop E r w p c ?s = scan_gap_loop E r w p c (?s + 1)"
      by (subst scan_gap_loop.simps) (use go has False in simp)
    moreover note Suc(1)[OF k(1) Suc.prems(1,2,3,4,5) k(2)]
    ultimately show ?thesis unfolding nx using False by (simp add: up del: not_None_eq)
  qed
qed


text \<open>
  Concretely, with an empty window a PING whose number is just behind the window makes the receiver
  request all four numbers of the window, none of which has been sent.
\<close>

definition demo_ping :: "u32 \<Rightarrow> potr_packet" where
  "demo_ping seq = host_packet demo_sh seq 0 POTR_FLAG_PING []"

lemma demo_window_empty: "recv_abs demo_window = replicate 4 None" "win_base_seq demo_window = 0xFFFFFFFF"
    "win_next_seq demo_window = 0xFFFFFFFF" "win_window_size demo_window = 4"
proof -
  have pre: "win_init_pre window_zero" "0 < unat (4 :: u16)" by (simp_all add: win_init_pre_def window_zero_def)
  show "recv_abs demo_window = replicate 4 None" "win_base_seq demo_window = 0xFFFFFFFF"
    "win_next_seq demo_window = 0xFFFFFFFF" "win_window_size demo_window = 4"
    using window_init_recv[OF pre demo_window_init(1)] window_init_wf[OF pre demo_window_init(1)]
    by (simp_all add: recv_inv_next)
qed


end
