(* ===== verification/Health_Thread.thy ===== *)
theory Health_Thread
  imports Recv_Window
begin

text \<open>
  The health check of \<^verbatim>\<open>thread/potr_health_thread.c\<close>: the PING packets that announce the sender's next
  sequence number and its view of the paths, when a one-way sender owes one, and the wake-up of
  the health threads.  The thread bodies are loops around one round of sending; a round is one
  function here, and the sleep between rounds is the number of milliseconds passed to it.
\<close>

unbundle bit_operations_syntax

section \<open>Wake-ups\<close>

definition signal_health_thread :: "potr_context \<Rightarrow> nat \<Rightarrow> potr_context" where
  "signal_health_thread c path_idx =
    (if path_idx \<ge> POTR_MAX_PATH \<or> \<not> c_health_running c ! path_idx then c else emit c (Io_wake_health path_idx))"

definition health_thread_wake :: "potr_context \<Rightarrow> potr_context" where
  "health_thread_wake c = signal_health_thread c 0"

definition tcp_health_thread_wake :: "potr_context \<Rightarrow> nat \<Rightarrow> potr_context" where
  "tcp_health_thread_wake c path_idx = signal_health_thread c path_idx"

definition tcp_health_thread_wake_all :: "potr_context \<Rightarrow> potr_context" where
  "tcp_health_thread_wake_all c = fold (\<lambda>i c. signal_health_thread c i) [0..<c_n_path c] c"

section \<open>When a one-way sender owes a PING\<close>

definition get_last_health_signal_send_ms :: "potr_context \<Rightarrow> u64" where
  "get_last_health_signal_send_ms c =
    (if c_last_ping_send_ms c > c_last_valid_data_send_ms c then c_last_ping_send_ms c else c_last_valid_data_send_ms c)"

text \<open>
  One turn of the wait loop: None when a PING is due now, otherwise the milliseconds to sleep
  before looking again.
\<close>

definition oneway_udp_ping_turn :: "cplat \<Rightarrow> potr_context \<Rightarrow> u64 \<Rightarrow> u32 option \<times> potr_context" where
  "oneway_udp_ping_turn E c initial_ping_due_ms =
    (let (now, c1) = clock_get_monotonic_ms E c;
         due_ms = (if c_last_ping_send_ms c1 = 0 \<and> c_last_valid_data_send_ms c1 = 0 then initial_ping_due_ms
                   else get_last_health_signal_send_ms c1 + ucast (c_health_interval_ms c1))
     in (if now \<ge> due_ms then None else Some (ucast (due_ms - now)), c1))"

section \<open>PING packets\<close>

text \<open>The wire image of a PING, or None when the encryption fails.\<close>

definition ping_wire ::
  "cplat \<Rightarrow> potr_context \<Rightarrow> potr_internal_packet_session_hdr \<Rightarrow> u32 \<Rightarrow> bytes \<Rightarrow> bytes option" where
  "ping_wire E c shdr seq health_states =
    (let ping_pkt = packet_build_ping E shdr seq (Some health_states) (of_nat POTR_MAX_PATH)
     in if sd_encrypt_enabled (c_service c) then
          (let ping_pkt = ping_pkt\<lparr>flags := flags ping_pkt OR hton16 E POTR_FLAG_ENCRYPTED,
                                   payload_len := hton16 E (of_nat (POTR_MAX_PATH + POTR_CRYPTO_TAG_SIZE))\<rparr>;
               nonce = mem32 E (session_id ping_pkt) @ mem16 E (flags ping_pkt) @ mem32 E (seq_num ping_pkt) @ replicate 2 0;
               hdr = packet_header_bytes E ping_pkt
           in case crypto_encrypt E (POTR_MAX_PATH + POTR_CRYPTO_TAG_SIZE) (sd_encrypt_key (c_service c)) nonce hdr health_states of
                None \<Rightarrow> None
              | Some enc \<Rightarrow> Some (hdr @ enc))
        else Some (packet_header_bytes E ping_pkt @ health_states))"

definition health_ping_peer :: "cplat \<Rightarrow> potr_context \<Rightarrow> nat \<Rightarrow> potr_context" where
  "health_ping_peer E c i =
    (let st = p_slot (c_peers c ! i); seq = win_next_seq (s_send_window st)
     in case ping_wire E c (own_session_hdr c st) seq (take POTR_MAX_PATH (s_path_ping_state st)) of
          None \<Rightarrow> c
        | Some wire \<Rightarrow>
            fold (\<lambda>k c. if endpoint_is_unset (s_dest_addr st ! k) then c
                        else snd (socket_sendto E c k (s_dest_addr st ! k) wire)) [0..<POTR_MAX_PATH] c)"

definition health_ping_peers :: "cplat \<Rightarrow> potr_context \<Rightarrow> potr_context" where
  "health_ping_peers E c =
    fold (\<lambda>i c. if \<not> c_health_running c ! 0 \<or> \<not> p_active (c_peers c ! i) then c else health_ping_peer E c i)
      [0..<length (c_peers c)] c"

text \<open>The session fields \<open>shdr\<close> are those the thread took when it started.\<close>

definition health_ping_service :: "cplat \<Rightarrow> potr_context \<Rightarrow> potr_internal_packet_session_hdr \<Rightarrow> potr_context" where
  "health_ping_service E c shdr =
    (let health_states = (if sd_type (c_service c) = POTR_TYPE_UNICAST_BIDIR then take POTR_MAX_PATH (s_path_ping_state (c_slot c))
                          else replicate POTR_MAX_PATH POTR_PING_STATE_UNDEFINED);
         seq = win_next_seq (s_send_window (c_slot c))
     in case ping_wire E c shdr seq health_states of
          None \<Rightarrow> c
        | Some wire \<Rightarrow>
            (let (sent_any, c1) =
                   fold (\<lambda>k (sent_any, c). let (ok, c1) = socket_sendto E c k (s_dest_addr (c_slot c) ! k) wire
                                            in (sent_any \<or> ok, c1)) [0..<c_n_path c] (False, c)
             in if is_oneway_udp_type (sd_type (c_service c1)) \<and> sent_any
                then (let (now, c2) = clock_get_monotonic_ms E c1 in c2\<lparr>c_last_ping_send_ms := now\<rparr>)
                else c1))"

definition health_round :: "cplat \<Rightarrow> potr_context \<Rightarrow> potr_internal_packet_session_hdr \<Rightarrow> potr_context" where
  "health_round E c shdr = (if c_is_multi_peer c then health_ping_peers E c else health_ping_service E c shdr)"

definition tcp_send_ping_packet :: "cplat \<Rightarrow> potr_context \<Rightarrow> nat \<Rightarrow> potr_result \<times> potr_context" where
  "tcp_send_ping_packet E c path_idx =
    (if path_idx \<ge> POTR_MAX_PATH then (POTR_ERR_INVALID_ARGUMENT, c)
     else if c_close_requested c then (POTR_ERR_CANCELED, c)
     else if t_active_paths (c_tcp c) = 0 \<or> \<not> t_conn_fd (c_tcp c) ! path_idx then (POTR_ERR_DISCONNECTED, c)
     else
       (let st = c_slot c; seq = win_next_seq (s_send_window st)
        in case ping_wire E c (own_session_hdr c st) seq (take POTR_MAX_PATH (s_path_ping_state st)) of
             None \<Rightarrow> (POTR_ERR_UNKNOWN, c)
           | Some wire \<Rightarrow> socket_send_all E c path_idx wire))"

definition tcp_send_ping_now :: "cplat \<Rightarrow> potr_context \<Rightarrow> nat \<Rightarrow> potr_result \<times> potr_context" where
  "tcp_send_ping_now E c path_idx = tcp_send_ping_packet E c path_idx"

section \<open>Local steps\<close>

lemma local_step_silent:
  assumes "ctx_frame c c'" "c_slot c' = c_slot c" "c_peers c' = c_peers c" "c_trace c' = c_trace c"
  shows "local_step r c c'"
proof (rule local_step_frame[of _ _ "[]", OF assms(1)])
  show "get_slot c' r' = get_slot c r'" for r' using assms by (cases r') simp_all
qed (simp_all add: assms)

lemma local_step_signal: "local_step r c (signal_health_thread c i)"
  by (auto simp: signal_health_thread_def intro: local_step_emit)

lemma local_step_wake: "local_step r c (health_thread_wake c)"
  by (simp add: health_thread_wake_def local_step_signal)

lemma local_step_wake_all: "local_step r c (tcp_health_thread_wake_all c)"
  unfolding tcp_health_thread_wake_all_def by (intro local_step_fold local_step_signal)

lemma local_step_ping_now: "local_step r c (snd (tcp_send_ping_now E c i))"
  by (auto simp: tcp_send_ping_now_def tcp_send_ping_packet_def Let_def split: option.split intro: local_step_send_all)

lemma local_step_ping_peers: "local_step r c (health_ping_peers E c)"
  unfolding health_ping_peers_def health_ping_peer_def Let_def
  by (rule local_step_fold) (auto split: option.split intro!: local_step_fold local_step_sendto)

lemma local_step_ping_service: "local_step r c (health_ping_service E c shdr)"
proof -
  have sends: "local_step r c0 (snd (fold (\<lambda>k (sent_any, c). let (ok, c1) = socket_sendto E c k (s_dest_addr (c_slot c) ! k) wire
      in (sent_any \<or> ok, c1)) ks (b, c0)))" for ks b c0 wire
  proof (induction ks arbitrary: b c0)
    case (Cons k ks)
    obtain ok c2 where s: "socket_sendto E c0 k (s_dest_addr (c_slot c0) ! k) wire = (ok, c2)" by (meson surj_pair)
    have "local_step r c0 c2" using local_step_sendto[of r c0 E k "s_dest_addr (c_slot c0) ! k" wire] s by simp
    then show ?case using Cons.IH[of c2 "b \<or> ok"] s by (auto intro: local_step_trans)
  qed simp
  have last: "local_step r c1 (let (now, c2) = clock_get_monotonic_ms E c1 in c2\<lparr>c_last_ping_send_ms := now\<rparr>)" for c1
  proof -
    obtain now c2 where k: "clock_get_monotonic_ms E c1 = (now, c2)" by (meson surj_pair)
    have "local_step r c2 (c2\<lparr>c_last_ping_send_ms := now\<rparr>)" by (rule local_step_silent) (simp_all add: ctx_frame_def)
    then show ?thesis using local_step_clock(2)[OF k, of r] k by (auto intro: local_step_trans)
  qed
  show ?thesis
  proof (cases "ping_wire E c shdr (win_next_seq (s_send_window (c_slot c)))
      (if sd_type (c_service c) = POTR_TYPE_UNICAST_BIDIR then take POTR_MAX_PATH (s_path_ping_state (c_slot c))
       else replicate POTR_MAX_PATH POTR_PING_STATE_UNDEFINED)")
    case (Some wire)
    obtain b c1 where f: "fold (\<lambda>k (sent_any, c). let (ok, c1) = socket_sendto E c k (s_dest_addr (c_slot c) ! k) wire
        in (sent_any \<or> ok, c1)) [0..<c_n_path c] (False, c) = (b, c1)" by (meson surj_pair)
    have "local_step r c c1" using sends[where ks = "[0..<c_n_path c]" and b = False and ?c0.0 = c and wire = wire] unfolding f by simp
    with last[of c1] show ?thesis unfolding health_ping_service_def Let_def Some option.case f[unfolded Let_def] prod.case
      by (auto intro: local_step_trans)
  qed (simp add: health_ping_service_def)
qed

lemma local_step_health_round: "local_step r c (health_round E c shdr)"
  by (simp add: health_round_def local_step_ping_peers local_step_ping_service)

section \<open>PINGs of a one-way sender\<close>


definition demo_sender :: potr_context where
  "demo_sender = demo_ctx\<lparr>c_role := POTR_ROLE_SENDER, c_last_ping_send_ms := 400\<rparr>"


end
