(* ===== verification/Recv_Validate.thy ===== *)
theory Recv_Validate
  imports Health_Thread
begin

text \<open>
  The checks of \<^verbatim>\<open>thread/thread_recv_validate.c\<close> on a received packet: its source address, and its
  authenticity on a service with encryption.  AES-GCM protects the payload of DATA and PING and, for
  the other packets, an empty payload; the 40 header bytes are its additional data and the nonce
  holds the session, the flags and a number of the packet.
\<close>

unbundle bit_operations_syntax

section \<open>Definitions\<close>

definition authenticate_packet :: "cplat \<Rightarrow> potr_context \<Rightarrow> potr_packet \<Rightarrow> bytes \<Rightarrow> potr_result + potr_packet" where
  "authenticate_packet E c pkt wire_hdr =
    (if flags pkt AND POTR_FLAG_ENCRYPTED = 0 then
       (if \<not> sd_encrypt_enabled (c_service c) then Inr pkt else Inl POTR_ERR_PROTOCOL)
     else if flags pkt AND (POTR_FLAG_DATA OR POTR_FLAG_PING) \<noteq> 0 then
       (let nonce = mem32 E (hton32 E (session_id pkt)) @ mem16 E (hton16 E (flags pkt))
                    @ mem32 E (hton32 E (seq_num pkt)) @ replicate 2 0
        in case crypto_decrypt E (c_crypto_buf_size c) (sd_encrypt_key (c_service c)) nonce wire_hdr
                  (take (unat (payload_len pkt)) (payload pkt)) of
             None \<Rightarrow> Inl POTR_ERR_PROTOCOL
           | Some plain \<Rightarrow> Inr (pkt\<lparr>payload := plain, payload_len := of_nat (length plain),
                                   flags := flags pkt AND NOT POTR_FLAG_ENCRYPTED\<rparr>))
     else if unat (payload_len pkt) \<noteq> POTR_CRYPTO_TAG_SIZE then Inl POTR_ERR_PROTOCOL
     else
       (let val = (if flags pkt AND (POTR_FLAG_NACK OR POTR_FLAG_REJECT OR POTR_FLAG_FIN_ACK) \<noteq> 0
                   then ack_num pkt else seq_num pkt);
            nonce = mem32 E (hton32 E (session_id pkt)) @ mem16 E (hton16 E (flags pkt))
                    @ mem32 E (hton32 E val) @ replicate 2 0
        in case crypto_decrypt E 1 (sd_encrypt_key (c_service c)) nonce wire_hdr
                  (take POTR_CRYPTO_TAG_SIZE (payload pkt)) of
             None \<Rightarrow> Inl POTR_ERR_PROTOCOL
           | Some _ \<Rightarrow> Inr (pkt\<lparr>flags := flags pkt AND NOT POTR_FLAG_ENCRYPTED, payload_len := 0, payload := []\<rparr>)))"

definition check_src_addr :: "cplat \<Rightarrow> potr_context \<Rightarrow> cplat_ipv4_endpoint \<Rightarrow> bool" where
  "check_src_addr E c sender =
    (let from_src = (sd_src_addr (c_service c) ! 0 = [] \<or>
           list_ex (\<lambda>i. ep_address sender = c_src_addr_resolved c ! i) [0..<c_n_path c]);
         from_dst = (sd_dst_addr (c_service c) ! 0 = [] \<or>
           list_ex (\<lambda>i. ep_address sender = c_dst_addr_resolved c ! i) [0..<c_n_path c])
     in if c_is_multi_peer c then
          (sd_src_port (c_service c) \<noteq> 0 \<longrightarrow> ntoh16 E (ep_port sender) = sd_src_port (c_service c))
        else if sd_type (c_service c) = POTR_TYPE_UNICAST_BIDIR \<and> c_role c = POTR_ROLE_SENDER then from_dst
        else from_src)"

text \<open>Parsing and authentication of a received datagram, as the receive loops do it.\<close>

definition receive_wire :: "cplat \<Rightarrow> potr_context \<Rightarrow> bytes \<Rightarrow> potr_result + potr_packet" where
  "receive_wire E c wire =
    (case packet_parse E wire of
       Inl e \<Rightarrow> Inl e
     | Inr pkt \<Rightarrow> authenticate_packet E c pkt (take POTR_PACKET_HEADER_SIZE wire))"

text \<open>Decryption does not lengthen its input.\<close>

definition decrypt_shortens :: "cplat \<Rightarrow> bool" where
  "decrypt_shortens E \<longleftrightarrow> (\<forall>cap key nonce aad ct pt. crypto_decrypt E cap key nonce aad ct = Some pt \<longrightarrow> length pt \<le> length ct)"

section \<open>What was accepted\<close>

lemma parse_length: "packet_parse E buf = Inr p \<Longrightarrow>
    length (payload p) = unat (payload_len p) \<and> POTR_PACKET_HEADER_SIZE + length (payload p) \<le> length buf"
  by (auto simp: packet_parse_def Let_def mem_read_def split: if_splits)

lemma authenticate_length:
  assumes "decrypt_shortens E" "authenticate_packet E c p h = Inr q" "length (payload p) = unat (payload_len p)"
  shows "length (payload q) = unat (payload_len q) \<and> length (payload q) \<le> length (payload p)"
proof -
  have len: "length pt \<le> length (payload p)" "unat (of_nat (length pt) :: u16) = length pt"
    if "crypto_decrypt E cap key nonce h (take (unat (payload_len p)) (payload p)) = Some pt" for cap key nonce pt
  proof -
    show "length pt \<le> length (payload p)" using that assms(1,3) unfolding decrypt_shortens_def by fastforce
    then show "unat (of_nat (length pt) :: u16) = length pt" using assms(3) unat_u16_less[of "payload_len p"]
      by (simp add: unat_of_nat_u16)
  qed
  show ?thesis using assms(2,3) len
    by (auto simp: authenticate_packet_def Let_def split: if_splits option.splits)
qed

lemma receive_fits:
  assumes "decrypt_shortens E" "receive_wire E c wire = Inr p"
    "length wire \<le> POTR_PACKET_HEADER_SIZE + unat (gc_max_payload G)"
  shows "pkt_fits G p"
proof -
  obtain q where q: "packet_parse E wire = Inr q" "authenticate_packet E c q (take POTR_PACKET_HEADER_SIZE wire) = Inr p"
    using assms(2) by (auto simp: receive_wire_def split: sum.splits)
  show ?thesis using parse_length[OF q(1)] authenticate_length[OF assms(1) q(2)] assms(3)
    by (simp add: pkt_fits_def plen_host_def)
qed

lemma authenticate_header:
  "authenticate_packet E c p h = Inr q \<Longrightarrow> seq_num q = seq_num p \<and> ack_num q = ack_num p \<and>
     session_id q = session_id p \<and> session_tv_sec q = session_tv_sec p \<and> session_tv_nsec q = session_tv_nsec p"
  by (auto simp: authenticate_packet_def Let_def split: if_splits option.splits)

text \<open>The number of a packet that enters its nonce.\<close>

definition nonce_number :: "potr_packet \<Rightarrow> u32" where
  "nonce_number q = (if flags q AND (POTR_FLAG_DATA OR POTR_FLAG_PING) \<noteq> 0 then seq_num q
     else if flags q AND (POTR_FLAG_NACK OR POTR_FLAG_REJECT OR POTR_FLAG_FIN_ACK) \<noteq> 0 then ack_num q else seq_num q)"

lemma authenticate_eq:
  assumes "byteorder_ok E" "length (payload q) = unat (payload_len q)"
  shows "authenticate_packet E c q h =
    (if flags q AND POTR_FLAG_ENCRYPTED = 0 then if \<not> sd_encrypt_enabled (c_service c) then Inr q else Inl POTR_ERR_PROTOCOL
     else let content = flags q AND (POTR_FLAG_DATA OR POTR_FLAG_PING) \<noteq> 0
       in if \<not> content \<and> length (payload q) \<noteq> POTR_CRYPTO_TAG_SIZE then Inl POTR_ERR_PROTOCOL
          else case crypto_decrypt E (if content then c_crypto_buf_size c else 1) (sd_encrypt_key (c_service c))
              (be32 (session_id q) @ be16 (flags q) @ be32 (nonce_number q) @ [0, 0]) h (payload q) of
            None \<Rightarrow> Inl POTR_ERR_PROTOCOL
          | Some plain \<Rightarrow> Inr (q\<lparr>payload := if content then plain else [],
              payload_len := if content then of_nat (length plain) else 0,
              flags := flags q AND NOT POTR_FLAG_ENCRYPTED\<rparr>))"
proof -
  have mem: "mem32 E (hton32 E v) = be32 v" "mem16 E (hton16 E w) = be16 w" for v w
    using assms(1) unfolding byteorder_ok_def by blast+
  have t: "take (unat (payload_len q)) (payload q) = payload q" "replicate 2 (0 :: u8) = [0, 0]"
    using assms(2) by (simp_all add: numeral_2_eq_2)
  show ?thesis
  proof (cases "flags q AND POTR_FLAG_ENCRYPTED = 0")
    case True
    then show ?thesis unfolding authenticate_packet_def by (simp only: if_True simp_thms)
  next
    case enc: False
    show ?thesis
    proof (cases "flags q AND (POTR_FLAG_DATA OR POTR_FLAG_PING) \<noteq> 0")
      case True
      show ?thesis unfolding authenticate_packet_def nonce_number_def Let_def mem t using enc True
        by (simp only: if_True if_False not_True_eq_False simp_thms)
    next
      case False
      show ?thesis unfolding authenticate_packet_def nonce_number_def Let_def mem t using enc False
        by (simp only: if_True if_False not_True_eq_False simp_thms assms(2)) (simp split: option.split add: assms(2))
    qed
  qed
qed

text \<open>
  C30: Nothing unauthenticated gets in.  Whatever a service with encryption accepts carried
  the ENCRYPTED flag, and its payload bytes decrypted under the service's key with the whole header
  as additional data and with the nonce of its session, its flags and its number.  DATA and PING
  carry the decrypted bytes; any other packet is handed on with an empty payload.
\<close>

theorem accepted_is_authentic:
  assumes "sd_encrypt_enabled (c_service c)" "receive_wire E c wire = Inr p" "byteorder_ok E"
  shows "\<exists>fl val cap plain. fl AND POTR_FLAG_ENCRYPTED \<noteq> 0 \<and> flags p = fl AND NOT POTR_FLAG_ENCRYPTED \<and>
    crypto_decrypt E cap (sd_encrypt_key (c_service c)) (be32 (session_id p) @ be16 fl @ be32 val @ [0, 0])
      (take POTR_PACKET_HEADER_SIZE wire)
      (mem_read wire POTR_PACKET_HEADER_SIZE (unat (ntoh16 E (load16 E wire 34)))) = Some plain \<and>
    (if fl AND (POTR_FLAG_DATA OR POTR_FLAG_PING) \<noteq> 0 then val = seq_num p \<and> payload p = plain
     else val \<in> {seq_num p, ack_num p} \<and> payload p = [])"
proof -
  obtain q where q: "packet_parse E wire = Inr q" "authenticate_packet E c q (take POTR_PACKET_HEADER_SIZE wire) = Inr p"
    using assms(2) by (auto simp: receive_wire_def split: sum.splits)
  have pl: "payload_len q = ntoh16 E (load16 E wire 34)"
    "payload q = mem_read wire POTR_PACKET_HEADER_SIZE (unat (ntoh16 E (load16 E wire 34)))"
    using q(1) by (auto simp: packet_parse_def Let_def split: if_splits)
  have len: "length (payload q) = unat (payload_len q)" using parse_length[OF q(1)] by simp
  note h = authenticate_header[OF q(2)]
  let ?content = "flags q AND (POTR_FLAG_DATA OR POTR_FLAG_PING) \<noteq> 0"
  have enc: "flags q AND POTR_FLAG_ENCRYPTED \<noteq> 0"
    using q(2) assms(1) unfolding authenticate_eq[OF assms(3) len] by (auto split: if_splits)
  obtain plain where d: "crypto_decrypt E (if ?content then c_crypto_buf_size c else 1) (sd_encrypt_key (c_service c))
      (be32 (session_id q) @ be16 (flags q) @ be32 (nonce_number q) @ [0, 0])
      (take POTR_PACKET_HEADER_SIZE wire) (payload q) = Some plain"
    and p: "p = q\<lparr>payload := if ?content then plain else [], payload_len := if ?content then of_nat (length plain) else 0,
      flags := flags q AND NOT POTR_FLAG_ENCRYPTED\<rparr>"
    using q(2) enc unfolding authenticate_eq[OF assms(3) len] Let_def by (auto split: if_splits option.splits)
  have num: "if ?content then nonce_number q = seq_num p else nonce_number q \<in> {seq_num p, ack_num p}"
    unfolding nonce_number_def using h by auto
  show ?thesis
  proof (intro exI conjI)
    show "flags q AND POTR_FLAG_ENCRYPTED \<noteq> 0" by (rule enc)
    show "flags p = flags q AND NOT POTR_FLAG_ENCRYPTED" by (simp add: p)
    show "crypto_decrypt E (if ?content then c_crypto_buf_size c else 1) (sd_encrypt_key (c_service c))
      (be32 (session_id p) @ be16 (flags q) @ be32 (nonce_number q) @ [0, 0]) (take POTR_PACKET_HEADER_SIZE wire)
      (mem_read wire POTR_PACKET_HEADER_SIZE (unat (ntoh16 E (load16 E wire 34)))) = Some plain"
      using d h unfolding pl(2) by simp
    show "if ?content then nonce_number q = seq_num p \<and> payload p = plain
      else nonce_number q \<in> {seq_num p, ack_num p} \<and> payload p = []"
      using num by (auto simp: p split: if_splits)
  qed
qed

definition demo_secure :: potr_context where
  "demo_secure = demo_ctx\<lparr>c_service := demo_service\<lparr>sd_encrypt_enabled := True, sd_encrypt_key := [1, 2, 3]\<rparr>\<rparr>"

section \<open>Packets of this library are accepted\<close>

lemma hton16_or: "byteorder_ok E \<Longrightarrow> hton16 E a OR hton16 E b = hton16 E (a OR b)"
proof -
  have "swap16 a OR swap16 b = swap16 (a OR b)"
    by (rule bit_word_eqI) (auto simp: swap16_def of_be16_def be16_def bit_simps)
  then show "byteorder_ok E \<Longrightarrow> hton16 E a OR hton16 E b = hton16 E (a OR b)" by (simp add: hton_cases)
qed

lemma or_and_not:
  assumes "a AND b = 0"
  shows "(a OR b) AND NOT b = (a :: 'a :: len word)"
proof (rule bit_word_eqI)
  fix n assume "n < LENGTH('a)"
  moreover have "\<not> bit (a AND b) n" using assms by simp
  ultimately show "bit ((a OR b) AND NOT b) n = bit a n" by (auto simp: bit_simps)
qed

text \<open>
  A packet built with the flags \<open>fl\<close> plus ENCRYPTED, whose ciphertext follows the header,
  is parsed, decrypted and handed on as the packet without encryption.
\<close>

lemma receive_encrypted:
  assumes "byteorder_ok E" "crypto_ok E" "length pl + POTR_CRYPTO_TAG_SIZE \<le> POTR_MAX_PAYLOAD"
    and "p = (fill_session_hdr E zero_packet sh)\<lparr>seq_num := hton32 E seq, ack_num := hton32 E ack,
       flags := hton16 E fl OR hton16 E POTR_FLAG_ENCRYPTED,
       payload_len := hton16 E (of_nat (length pl + POTR_CRYPTO_TAG_SIZE)), payload := x\<rparr>"
    and "crypto_encrypt E cap (sd_encrypt_key (c_service c)) (mem32 E (session_id p) @ mem16 E (flags p) @ mem32 E (hton32 E num) @ replicate 2 0)
       (packet_header_bytes E p) pl = Some enc"
    and "fl AND POTR_FLAG_ENCRYPTED = 0"
    and "num = nonce_number (host_packet sh seq ack fl pl)"
    and "fl AND (POTR_FLAG_DATA OR POTR_FLAG_PING) = 0 \<Longrightarrow> pl = []"
    and "length pl \<le> c_crypto_buf_size c"
  shows "receive_wire E c (packet_header_bytes E p @ enc) = Inr (host_packet sh seq ack fl pl)"
proof -
  let ?fl = "fl OR POTR_FLAG_ENCRYPTED" and ?q = "host_packet sh seq ack (fl OR POTR_FLAG_ENCRYPTED) enc"
  have len: "length enc = length pl + POTR_CRYPTO_TAG_SIZE"
    and dec: "\<And>cap'. length pl \<le> cap' \<Longrightarrow> crypto_decrypt E cap' (sd_encrypt_key (c_service c))
        (mem32 E (session_id p) @ mem16 E (flags p) @ mem32 E (hton32 E num) @ replicate 2 0) (packet_header_bytes E p) enc = Some pl"
    using assms(2,5) unfolding crypto_ok_def by blast+
  have w: "packet_header_bytes E p @ enc = packet_wire E (p\<lparr>payload := enc\<rparr>)"
    by (simp add: packet_wire_def packet_header_bytes_def)
  have "packet_parse E (packet_wire E (p\<lparr>payload := enc\<rparr>) @ []) = Inr ?q"
    by (rule parse_wire_host[OF assms(1)]) (use len assms(3) in \<open>simp_all add: assms(4) hton16_or[OF assms(1)]\<close>)
  then have parse: "packet_parse E (packet_header_bytes E p @ enc) = Inr ?q" by (simp add: w)
  have hdr: "take POTR_PACKET_HEADER_SIZE (packet_header_bytes E p @ enc) = packet_header_bytes E p"
    by (simp add: packet_header_bytes_def)
  have mem: "mem32 E (hton32 E v) = be32 v" "mem16 E (hton16 E u) = be16 u" for v u
    using assms(1) unfolding byteorder_ok_def by blast+
  have nonce: "mem32 E (session_id p) @ mem16 E (flags p) @ mem32 E (hton32 E num) @ replicate 2 0 =
      be32 (session_id ?q) @ be16 (flags ?q) @ be32 num @ [0, 0]"
    by (simp add: assms(4) fill_session_hdr_def hton16_or[OF assms(1)] mem host_packet_def numeral_2_eq_2)
  have bits: "?fl AND m = fl AND m" if "POTR_FLAG_ENCRYPTED AND m = 0" for m
    using that by (simp add: bit.conj_disj_distrib2)
  have num: "nonce_number ?q = num"
    unfolding assms(7) nonce_number_def by (simp add: host_packet_def bits)
  have f: "?fl AND POTR_FLAG_ENCRYPTED \<noteq> 0" "?fl AND NOT POTR_FLAG_ENCRYPTED = fl"
  proof -
    show "?fl AND POTR_FLAG_ENCRYPTED \<noteq> 0" using assms(6) by (simp add: bit.conj_disj_distrib2)
    show "?fl AND NOT POTR_FLAG_ENCRYPTED = fl" by (rule or_and_not[OF assms(6)])
  qed
  have "unat (of_nat (length enc) :: u16) = length enc" by (rule unat_of_nat_u16) (use len assms(3) in simp)
  then have ql: "length (payload ?q) = unat (payload_len ?q)" by (simp add: host_packet_def)
  have q: "flags ?q = ?fl" "payload ?q = enc" by (simp_all add: host_packet_def)
  let ?content = "?fl AND (POTR_FLAG_DATA OR POTR_FLAG_PING) \<noteq> 0"
  have content: "?content \<longleftrightarrow> fl AND (POTR_FLAG_DATA OR POTR_FLAG_PING) \<noteq> 0" by (subst bits) simp_all
  have short: "\<not> (\<not> ?content \<and> length enc \<noteq> POTR_CRYPTO_TAG_SIZE)" using assms(8) content len by auto
  have "crypto_decrypt E (if ?content then c_crypto_buf_size c else 1) (sd_encrypt_key (c_service c))
      (be32 (session_id ?q) @ be16 ?fl @ be32 num @ [0, 0]) (packet_header_bytes E p) enc = Some pl"
    unfolding nonce[unfolded q(1), symmetric] by (rule dec) (use assms(8,9) content in \<open>auto split: if_splits\<close>)
  then have "receive_wire E c (packet_header_bytes E p @ enc) = Inr (?q\<lparr>payload := if ?content then pl else [],
      payload_len := if ?content then of_nat (length pl) else 0, flags := fl\<rparr>)"
    unfolding receive_wire_def parse sum.case authenticate_eq[OF assms(1) ql] hdr num Let_def q f(2)
    using f(1) short by (simp only: if_False option.case)
  also have "?q\<lparr>payload := if ?content then pl else [], payload_len := if ?content then of_nat (length pl) else 0, flags := fl\<rparr> =
      host_packet sh seq ack fl pl"
    using assms(8) content by (auto simp: host_packet_def)
  finally show ?thesis .
qed

lemma receive_plain:
  assumes "byteorder_ok E" "length pl \<le> POTR_MAX_PAYLOAD" "\<not> sd_encrypt_enabled (c_service c)"
    and "p = (fill_session_hdr E zero_packet sh)\<lparr>seq_num := hton32 E seq, ack_num := hton32 E ack,
       flags := hton16 E fl, payload_len := hton16 E (of_nat (length pl)), payload := pl\<rparr>"
    and "fl AND POTR_FLAG_ENCRYPTED = 0"
  shows "receive_wire E c (packet_wire E p) = Inr (host_packet sh seq ack fl pl)"
  using parse_wire_host[OF assms(1,2,4), of "[]"] assms(3,5)
  by (simp add: receive_wire_def authenticate_packet_def host_packet_def)

lemma receive_ctrl:
  assumes "byteorder_ok E" "crypto_ok E"
    and "sd_encrypt_enabled (c_service c') = sd_encrypt_enabled (c_service c)" "sd_encrypt_key (c_service c') = sd_encrypt_key (c_service c)"
    and "p = (fill_session_hdr E zero_packet sh)\<lparr>seq_num := 0, ack_num := hton32 E n, flags := hton16 E fl, payload_len := 0\<rparr>"
    and "fl = POTR_FLAG_NACK \<or> fl = POTR_FLAG_REJECT"
    and "build_ctrl_pkt_wire E c p = Inr wire"
  shows "receive_wire E c' wire = Inr (host_packet sh 0 n fl [])"
proof -
  have z: "hton32 E 0 = 0" "hton16 E 0 = 0" by (simp_all add: hton_zero[OF assms(1)])
  have fl: "fl AND POTR_FLAG_ENCRYPTED = 0" "fl AND (POTR_FLAG_NACK OR POTR_FLAG_REJECT OR POTR_FLAG_FIN_ACK) \<noteq> 0"
    "\<not> fl AND (POTR_FLAG_DATA OR POTR_FLAG_PING) \<noteq> 0"
    using assms(6) by auto
  show ?thesis
  proof (cases "sd_encrypt_enabled (c_service c)")
    case True
    let ?q = "p\<lparr>flags := flags p OR hton16 E POTR_FLAG_ENCRYPTED, payload_len := hton16 E (of_nat POTR_CRYPTO_TAG_SIZE)\<rparr>"
    obtain enc where e: "crypto_encrypt E POTR_CRYPTO_TAG_SIZE (sd_encrypt_key (c_service c'))
        (mem32 E (session_id ?q) @ mem16 E (flags ?q) @ mem32 E (hton32 E n) @ replicate 2 0) (packet_header_bytes E ?q) [] = Some enc"
      and w: "wire = packet_header_bytes E ?q @ enc"
      using assms(7) True assms(4,5) by (auto simp: build_ctrl_pkt_wire_def Let_def split: option.splits)
    have num: "n = nonce_number (host_packet sh 0 n fl [])"
      unfolding nonce_number_def using fl by (simp add: host_packet_def)
    show ?thesis unfolding w
      by (rule receive_encrypted[OF assms(1,2) _ _ e fl(1) num, where x = "[]"])
        (simp_all add: assms(5) z fill_session_hdr_def zero_packet_def)
  next
    case False
    have "wire = packet_wire E p"
      using assms(7) False ntoh_zero(2)[OF assms(1)]
      by (simp add: build_ctrl_pkt_wire_def packet_wire_size_def packet_wire_def assms(5) fill_session_hdr_def zero_packet_def packet_header_bytes_def)
    then show ?thesis
      using receive_plain[OF assms(1) _ _ _ fl(1), where pl = "[]" and sh = sh and seq = 0 and ack = n and p = p and c = c'] False assms(3)
      by (simp add: assms(5) z fill_session_hdr_def zero_packet_def)
  qed
qed

lemma receive_ping:
  assumes "byteorder_ok E" "crypto_ok E"
    and "sd_encrypt_enabled (c_service c') = sd_encrypt_enabled (c_service c)" "sd_encrypt_key (c_service c') = sd_encrypt_key (c_service c)"
    and "ping_wire E c sh seq states = Some wire" "length states = POTR_MAX_PATH" "POTR_MAX_PATH \<le> c_crypto_buf_size c'"
  shows "receive_wire E c' wire = Inr (host_packet sh seq 0 POTR_FLAG_PING states)"
proof -
  let ?p = "(fill_session_hdr E zero_packet sh)\<lparr>seq_num := hton32 E seq, ack_num := hton32 E 0, flags := hton16 E POTR_FLAG_PING,
      payload_len := hton16 E (of_nat (length states)), payload := states\<rparr>"
  have z: "hton32 E 0 = 0" by (simp add: hton_zero[OF assms(1)])
  have b: "packet_build_ping E sh seq (Some states) (of_nat POTR_MAX_PATH) = ?p"
    using assms(6) by (simp add: packet_build_ping_def z)
  show ?thesis
  proof (cases "sd_encrypt_enabled (c_service c)")
    case True
    let ?q = "?p\<lparr>flags := flags ?p OR hton16 E POTR_FLAG_ENCRYPTED, payload_len := hton16 E (of_nat (POTR_MAX_PATH + POTR_CRYPTO_TAG_SIZE))\<rparr>"
    obtain enc where e: "crypto_encrypt E (POTR_MAX_PATH + POTR_CRYPTO_TAG_SIZE) (sd_encrypt_key (c_service c'))
        (mem32 E (session_id ?q) @ mem16 E (flags ?q) @ mem32 E (hton32 E seq) @ replicate 2 0) (packet_header_bytes E ?q) states = Some enc"
      and w: "wire = packet_header_bytes E ?q @ enc"
      using assms(5) True assms(4) unfolding ping_wire_def b Let_def by (auto split: option.splits)
    show ?thesis unfolding w
      by (rule receive_encrypted[OF assms(1,2) _ _ e, where x = states])
        (use assms(6,7) in \<open>simp_all add: nonce_number_def host_packet_def\<close>)
  next
    case False
    have "wire = packet_wire E ?p"
      using assms(5) False unfolding ping_wire_def b Let_def by (simp add: packet_wire_def)
    then show ?thesis using receive_plain[OF assms(1) _ _ refl, where pl = states and c = c'] False assms(3,6) by simp
  qed
qed


section \<open>Witnesses\<close>

lemma demo_nack_wire: "\<exists>wire. build_ctrl_pkt_wire demo_cplat demo_secure (packet_build_nack demo_cplat demo_sh 9) = Inr wire"
  by (simp add: build_ctrl_pkt_wire_def demo_secure_def demo_cplat_def)


theorem accepted_is_authentic_witness:
  "\<exists>wire. receive_wire demo_cplat demo_secure wire = Inr (host_packet demo_sh 0 9 POTR_FLAG_NACK []) \<and>
     (\<exists>fl val cap plain. fl AND POTR_FLAG_ENCRYPTED \<noteq> 0 \<and>
       crypto_decrypt demo_cplat cap [1, 2, 3] (be32 77 @ be16 fl @ be32 val @ [0, 0]) (take POTR_PACKET_HEADER_SIZE wire)
      (mem_read wire POTR_PACKET_HEADER_SIZE (unat (ntoh16 demo_cplat (load16 demo_cplat wire 34)))) = Some plain)"
proof -
  obtain wire where "build_ctrl_pkt_wire demo_cplat demo_secure (packet_build_nack demo_cplat demo_sh 9) = Inr wire"
    using demo_nack_wire by blast
  then have r: "receive_wire demo_cplat demo_secure wire = Inr (host_packet demo_sh 0 9 POTR_FLAG_NACK [])"
    by (rule receive_ctrl[OF demo_byteorder demo_crypto refl refl packet_build_nack_def, rotated]) simp
  have k: "sd_encrypt_enabled (c_service demo_secure)" "sd_encrypt_key (c_service demo_secure) = [1, 2, 3]"
    "session_id (host_packet demo_sh 0 9 POTR_FLAG_NACK []) = 77"
    by (simp_all add: demo_secure_def host_packet_def demo_sh_def)
  from accepted_is_authentic[OF k(1) r demo_byteorder] r show ?thesis unfolding k(2,3) by blast
qed

end
