(* ===== verification/Send_Thread.thy ===== *)
theory Send_Thread
  imports Recv_Validate
begin

text \<open>
  The send thread of \<^verbatim>\<open>thread/potr_send_thread.c\<close>: it takes elements from the send queue, packs as
  many as fit into one container, seals the container (with encryption or without), stores it in
  the send window and sends it on every path.

  Other threads push while this one packs.  What they did to the queue before the \<open>k\<close>-th look at
  it is the argument \<open>env k\<close> of the packing loops; the theorems let it be any sequence of pushes.
  The filled part of \<^verbatim>\<open>send_wire_buf\<close> behind the header is the byte list that the loops extend.
\<close>

unbundle bit_operations_syntax

section \<open>Packing\<close>

definition should_track_valid_data_send_time :: "potr_context \<Rightarrow> bool" where
  "should_track_valid_data_send_time c = (\<not> c_is_multi_peer c \<and> is_oneway_udp_type (sd_type (c_service c)))"

definition append_payload_elem ::
  "cplat \<Rightarrow> potr_internal_send_queue \<Rightarrow> bytes \<Rightarrow> potr_internal_payload_elem \<Rightarrow> bytes" where
  "append_payload_elem E q packed entry =
    packed @ mem16 E (hton16 E (pe_flags entry)) @ mem32 E (hton32 E (ucast (pe_payload_len entry))) @ sq_read q entry"

text \<open>The bytes that a container may hold: \<^verbatim>\<open>max_payload\<close> less the authentication tag.\<close>

definition pack_limit :: "potr_context \<Rightarrow> nat" where
  "pack_limit c = unat (gc_max_payload (c_global c)) - (if sd_encrypt_enabled (c_service c) then POTR_CRYPTO_TAG_SIZE else 0)"

text \<open>
  The loop that packs what is queued already, and the one that waits for more until a
  deadline.  \<open>skip\<close> tells the elements that belong to another peer.  Both return the queue, the
  packed bytes and the number of elements taken.
\<close>

type_synonym queue_env = "nat \<Rightarrow> potr_internal_send_queue \<Rightarrow> potr_internal_send_queue"

function pack_queued ::
  "cplat \<Rightarrow> queue_env \<Rightarrow> nat \<Rightarrow> (potr_internal_payload_elem \<Rightarrow> bool) \<Rightarrow> nat \<Rightarrow> potr_internal_send_queue \<Rightarrow> bytes \<Rightarrow> nat \<Rightarrow>
   potr_internal_send_queue \<times> bytes \<times> nat" where
  "pack_queued E env limit skip k q packed n =
    (let q1 = env k q
     in case send_queue_peek q1 of
          Inl _ \<Rightarrow> (q1, packed, n)
        | Inr nxt \<Rightarrow>
            if skip nxt \<or> pe_flags nxt AND POTR_FLAG_MORE_FRAG \<noteq> 0
               \<or> length packed + (POTR_PAYLOAD_ELEM_HDR_SIZE + unat (pe_payload_len nxt)) > limit
            then (q1, packed, n)
            else (case send_queue_try_pop q1 of
                    (Inl _, q2) \<Rightarrow> (q2, packed, n)
                  | (Inr e, q2) \<Rightarrow> pack_queued E env limit skip (Suc k) q2 (append_payload_elem E q2 packed e) (Suc n)))"
  by pat_completeness auto
termination
  by (relation "measure (\<lambda>(E, env, limit, skip, k, q, packed, n). Suc limit - length packed)")
    (auto simp: append_payload_elem_def split: if_splits)

function pack_waiting ::
  "cplat \<Rightarrow> queue_env \<Rightarrow> nat \<Rightarrow> u64 \<Rightarrow> nat \<Rightarrow> potr_context \<Rightarrow> bytes \<Rightarrow> nat \<Rightarrow> potr_context \<times> bytes \<times> nat" where
  "pack_waiting E env limit deadline k c packed n =
    (let (now, c1) = clock_get_monotonic_ms E c; q = c_send_queue c1
     in if now \<ge> deadline then (c1, packed, n)
        else case send_queue_peek_timed q (env k q) of
               Inl _ \<Rightarrow> (c1\<lparr>c_send_queue := env k q\<rparr>, packed, n)
             | Inr nxt \<Rightarrow>
                 (let q1 = env k q
                  in if pe_flags nxt AND POTR_FLAG_MORE_FRAG \<noteq> 0
                        \<or> length packed + (POTR_PAYLOAD_ELEM_HDR_SIZE + unat (pe_payload_len nxt)) > limit
                     then (c1\<lparr>c_send_queue := q1\<rparr>, packed, n)
                     else (case send_queue_try_pop q1 of
                             (Inl _, q2) \<Rightarrow> (c1\<lparr>c_send_queue := q2\<rparr>, packed, n)
                           | (Inr e, q2) \<Rightarrow>
                               pack_waiting E env limit deadline (Suc k) (c1\<lparr>c_send_queue := q2\<rparr>)
                                 (append_payload_elem E q2 packed e) (Suc n))))"
  by pat_completeness auto
termination
  by (relation "measure (\<lambda>(E, env, limit, deadline, k, c, packed, n). Suc limit - length packed)")
    (auto simp: append_payload_elem_def split: if_splits)

declare pack_queued.simps [simp del] pack_waiting.simps [simp del]

section \<open>Flushing\<close>

text \<open>
  The outer packet of a container with the payload that the send window stores: the packed
  bytes, or the ciphertext and its tag.  None when the builder refuses the length or the
  encryption fails.  Its wire image is \<open>packet_wire\<close>.
\<close>

definition build_outer ::
  "cplat \<Rightarrow> potr_context \<Rightarrow> potr_internal_packet_session_hdr \<Rightarrow> u32 \<Rightarrow> bytes \<Rightarrow> potr_packet option" where
  "build_outer E c shdr seq packed =
    (case packet_build_packed E shdr seq packed (length packed) of
       Inl _ \<Rightarrow> None
     | Inr outer \<Rightarrow>
         if sd_encrypt_enabled (c_service c) then
           (let outer = outer\<lparr>flags := flags outer OR hton16 E POTR_FLAG_ENCRYPTED,
                              payload_len := hton16 E (of_nat (length packed + POTR_CRYPTO_TAG_SIZE))\<rparr>;
                nonce = mem32 E (session_id outer) @ mem16 E (flags outer) @ mem32 E (seq_num outer) @ replicate 2 0
            in case crypto_encrypt E (c_crypto_buf_size c) (sd_encrypt_key (c_service c)) nonce (packet_header_bytes E outer) packed of
                 None \<Rightarrow> None
               | Some enc \<Rightarrow> Some (outer\<lparr>payload := enc\<rparr>))
         else Some outer)"

text \<open>One TCP path: skip it while its send buffer is full, and count the full buffers.\<close>

definition flush_tcp_path :: "cplat \<Rightarrow> bytes \<Rightarrow> nat \<Rightarrow> potr_context \<Rightarrow> potr_context" where
  "flush_tcp_path E wire i c =
    (if \<not> t_conn_fd (c_tcp c) ! i then c
     else (let (writable, c1) = socket_wait_writable E c;
               cnt = t_buf_full_suppress_cnt (c_tcp c1);
               set_cnt = (\<lambda>v. c1\<lparr>c_tcp := (c_tcp c1)\<lparr>t_buf_full_suppress_cnt := cnt[i := v]\<rparr>\<rparr>)
           in if writable
              then snd (socket_send_all E (if cnt ! i > 0 then set_cnt (if cnt ! i + 1 > 10 then 0 else cnt ! i + 1) else c1) i wire)
              else if cnt ! i = 0 then set_cnt 1 else c1))"

text \<open>Sending a datagram on the first paths of the context; whether any send succeeded.\<close>

definition sendto_paths :: "cplat \<Rightarrow> bytes \<Rightarrow> nat list \<Rightarrow> potr_context \<Rightarrow> bool \<times> potr_context" where
  "sendto_paths E wire ks c =
    fold (\<lambda>k (sent_any, c). let (ok, c1) = socket_sendto E c k (s_dest_addr (c_slot c) ! k) wire in (sent_any \<or> ok, c1)) ks (False, c)"

definition flush_packed :: "cplat \<Rightarrow> potr_context \<Rightarrow> bytes \<Rightarrow> potr_context" where
  "flush_packed E c packed =
    (case build_outer E c (own_session_hdr c (c_slot c)) (win_next_seq (s_send_window (c_slot c))) packed of
       None \<Rightarrow> c
     | Some outer \<Rightarrow>
         if is_tcp_type (sd_type (c_service c)) then
           (let c1 = upd_slot c CtxSlot (\<lambda>st. st\<lparr>s_send_window := (s_send_window st)\<lparr>win_next_seq := win_next_seq (s_send_window st) + 1\<rparr>,
                                                 s_send_has_data := True\<rparr>)
            in if t_active_paths (c_tcp c1) > 0 then fold (flush_tcp_path E (packet_wire E outer)) [0..<c_n_path c1] c1 else c1)
         else
           (let c1 = upd_slot c CtxSlot (\<lambda>st. st\<lparr>s_send_window := snd (window_send_push E (s_send_window st) outer), s_send_has_data := True\<rparr>);
                (sent_any, c2) = sendto_paths E (packet_wire E outer) [0..<c_n_path c1] c1
            in if sent_any \<and> should_track_valid_data_send_time c2
               then (let (now, c3) = clock_get_monotonic_ms E c2 in health_thread_wake (c3\<lparr>c_last_valid_data_send_ms := now\<rparr>))
               else c2))"

definition flush_packed_peer :: "cplat \<Rightarrow> potr_context \<Rightarrow> nat \<Rightarrow> bytes \<Rightarrow> potr_context" where
  "flush_packed_peer E c i packed =
    (let st = get_slot c (PeerSlot i)
     in case build_outer E c (own_session_hdr c st) (win_next_seq (s_send_window st)) packed of
          None \<Rightarrow> c
        | Some outer \<Rightarrow>
            (let c1 = upd_slot c (PeerSlot i) (\<lambda>st. st\<lparr>s_send_window := snd (window_send_push E (s_send_window st) outer), s_send_has_data := True\<rparr>)
             in fold (\<lambda>k c. if endpoint_is_unset (s_dest_addr st ! k) then c
                            else snd (socket_sendto E c k (s_dest_addr st ! k) (packet_wire E outer))) [0..<POTR_MAX_PATH] c1))"

section \<open>Turns of the thread\<close>

definition complete_n :: "nat \<Rightarrow> potr_context \<Rightarrow> potr_context" where
  "complete_n n c = c\<lparr>c_send_queue := ((\<lambda>q. snd (send_queue_complete q)) ^^ n) (c_send_queue c)\<rparr>"

definition send_packed_peer_mode :: "cplat \<Rightarrow> queue_env \<Rightarrow> potr_context \<Rightarrow> potr_internal_payload_elem \<Rightarrow> potr_context" where
  "send_packed_peer_mode E env c first =
    (case peer_find_by_id c (pe_peer_id first) of
       None \<Rightarrow> complete_n 1 c
     | Some i \<Rightarrow>
         (let packed = append_payload_elem E (c_send_queue c) [] first;
              (q, packed, n) =
                (if pe_flags first AND POTR_FLAG_MORE_FRAG = 0
                 then pack_queued E env (pack_limit c) (\<lambda>nxt. pe_peer_id nxt \<noteq> pe_peer_id first) 0 (c_send_queue c) packed 1
                 else (c_send_queue c, packed, 1))
          in complete_n n (flush_packed_peer E (c\<lparr>c_send_queue := q\<rparr>) i packed)))"

definition send_packed_service :: "cplat \<Rightarrow> queue_env \<Rightarrow> potr_context \<Rightarrow> potr_internal_payload_elem \<Rightarrow> potr_context" where
  "send_packed_service E env c first =
    (let packed = append_payload_elem E (c_send_queue c) [] first;
         (c1, packed, n) =
           (if pe_flags first AND POTR_FLAG_MORE_FRAG \<noteq> 0 then (c, packed, 1)
            else if sd_pack_wait_ms (c_service c) > 0
            then (let (now, c1) = clock_get_monotonic_ms E c
                  in pack_waiting E env (pack_limit c) (now + ucast (sd_pack_wait_ms (c_service c))) 0 c1 packed 1)
            else (let (q, packed, n) = pack_queued E env (pack_limit c) (\<lambda>_. False) 0 (c_send_queue c) packed 1
                  in (c\<lparr>c_send_queue := q\<rparr>, packed, n)))
     in complete_n n (flush_packed E c1 packed))"

text \<open>One turn of the thread: \<open>Wait\<close> while the queue is empty, None when the thread ends.\<close>

definition send_turn :: "cplat \<Rightarrow> queue_env \<Rightarrow> potr_context \<Rightarrow> potr_context option wait" where
  "send_turn E env c =
    (case send_queue_pop (c_send_queue c) (c_send_thread_running c) of
       (Wait, q) \<Rightarrow> Wait
     | (Done (Inl _), q) \<Rightarrow> Done None
     | (Done (Inr first), q) \<Rightarrow>
         (let c1 = c\<lparr>c_send_queue := q\<rparr>
          in Done (Some (if c_is_multi_peer c1 then send_packed_peer_mode E env c1 first
                         else send_packed_service E env c1 first))))"

section \<open>What packing does\<close>

text \<open>
  An item of the queue with its element image, and what other threads may do to the queue
  while the send thread packs: push any number of items that satisfy \<open>ok\<close>.
\<close>

definition item_bytes :: "cplat \<Rightarrow> potr_peer_id \<times> u16 \<times> bytes \<Rightarrow> bytes" where
  "item_bytes E x = elem_bytes E (fst (snd x)) (snd (snd x))"

definition env_pushes :: "nat \<Rightarrow> (potr_peer_id \<times> u16 \<times> bytes \<Rightarrow> bool) \<Rightarrow> queue_env \<Rightarrow> bool" where
  "env_pushes mp ok env \<longleftrightarrow> (\<forall>k q. sq_inv mp q \<longrightarrow> sq_inv mp (env k q) \<and> sq_flying (env k q) = sq_flying q \<and>
     (\<exists>ys. (\<forall>y\<in>set ys. ok y) \<and> sq_waiting (env k q) = sq_waiting q @ ys))"

lemma env_pushesE:
  assumes "env_pushes mp ok env" "sq_inv mp q"
  obtains ys where "sq_inv mp (env k q)" "sq_flying (env k q) = sq_flying q" "\<forall>y\<in>set ys. ok y"
    "sq_waiting (env k q) = sq_waiting q @ ys"
  using assms unfolding env_pushes_def by blast

lemma length_item_bytes [simp]: "length (item_bytes E x) = POTR_PAYLOAD_ELEM_HDR_SIZE + length (snd (snd x))"
  by (simp add: item_bytes_def)

lemma sq_head_item:
  assumes "sq_inv mp q" "0 < sq_count q"
  shows "hd (sq_waiting q) = (let e = the (sq_entries q) ! sq_head q in (pe_peer_id e, pe_flags e, sq_read q e))"
    "length (snd (snd (hd (sq_waiting q)))) = unat (pe_payload_len (the (sq_entries q) ! sq_head q))"
proof -
  let ?e = "the (sq_entries q) ! sq_head q"
  show h: "hd (sq_waiting q) = (let e = ?e in (pe_peer_id e, pe_flags e, sq_read q e))"
    using sq_dequeue_spec[OF assms, of ?e] by (simp add: send_queue_dequeue_def Let_def)
  have "pe_payload ?e + unat (pe_payload_len ?e) \<le> length (the (sq_payload_pool q))"
    using sq_inv_elem[OF assms(1) sq_invD(4)[OF assms(1)]] sq_block_le[OF assms(1) sq_invD(4)[OF assms(1)]] by simp
  then show "length (snd (snd (hd (sq_waiting q)))) = unat (pe_payload_len ?e)"
    by (simp add: h Let_def sq_read_def mem_read_def)
qed

lemma append_popped:
  assumes "sq_inv mp q" "0 < sq_count q" "send_queue_dequeue q = (e, q')"
  shows "append_payload_elem E q' packed e = packed @ item_bytes E (hd (sq_waiting q))"
proof -
  have e: "e = the (sq_entries q) ! sq_head q" and r: "sq_read q' x = sq_read q x" for x
    using assms(3) by (auto simp: send_queue_dequeue_def sq_read_def)
  have "(of_nat (length (sq_read q e)) :: u32) = ucast (pe_payload_len e)"
    using sq_head_item[OF assms(1,2)] e by (simp add: Let_def)
  then show ?thesis using sq_head_item(1)[OF assms(1,2)] e
    by (simp add: append_payload_elem_def item_bytes_def elem_bytes_def r Let_def)
qed

text \<open>
  The outcome of packing: the items \<open>xs\<close> were taken from the front of what waited and what
  was pushed meanwhile, they are in flight, their images were appended, and the limit holds.
\<close>

definition packed_items ::
  "cplat \<Rightarrow> nat \<Rightarrow> nat \<Rightarrow> (potr_peer_id \<times> u16 \<times> bytes \<Rightarrow> bool) \<Rightarrow> potr_internal_send_queue \<Rightarrow> bytes \<Rightarrow> nat \<Rightarrow>
   (potr_peer_id \<times> u16 \<times> bytes) list \<Rightarrow> potr_internal_send_queue \<Rightarrow> bytes \<Rightarrow> nat \<Rightarrow> bool" where
  "packed_items E mp limit ok q packed n xs q' packed' n' \<longleftrightarrow>
     sq_inv mp q' \<and> n' = n + length xs \<and> sq_flying q' = sq_flying q @ xs \<and>
     (\<exists>ys. (\<forall>y\<in>set ys. ok y) \<and> sq_waiting q @ ys = xs @ sq_waiting q') \<and>
     packed' = packed @ concat (map (item_bytes E) xs) \<and> (length packed \<le> limit \<longrightarrow> length packed' \<le> limit)"

definition unfragmented :: "(potr_peer_id \<times> u16 \<times> bytes) list \<Rightarrow> bool" where
  "unfragmented xs \<longleftrightarrow> (\<forall>x\<in>set xs. fst (snd x) AND POTR_FLAG_MORE_FRAG = 0)"

lemma packed_items_refl:
  "sq_inv mp q' \<Longrightarrow> sq_flying q' = sq_flying q \<Longrightarrow> \<forall>y\<in>set ys. ok y \<Longrightarrow> sq_waiting q' = sq_waiting q @ ys \<Longrightarrow>
   packed_items E mp limit ok q packed n [] q' packed n"
  by (auto simp: packed_items_def)

lemma packed_items_step:
  assumes "sq_inv mp q1" "sq_flying q1 = sq_flying q" "\<forall>y\<in>set ys. ok y" "sq_waiting q1 = sq_waiting q @ ys" "0 < sq_count q1"
    and "send_queue_dequeue q1 = (e, q2)"
    and "length packed + (POTR_PAYLOAD_ELEM_HDR_SIZE + unat (pe_payload_len (the (sq_entries q1) ! sq_head q1))) \<le> limit"
    and "packed_items E mp limit ok q2 (append_payload_elem E q2 packed e) (Suc n) xs q' packed' n'"
  shows "packed_items E mp limit ok q packed n (hd (sq_waiting q1) # xs) q' packed' n'"
proof -
  note d = sq_dequeue_spec[OF assms(1,5,6)]
  note h = sq_head_item[OF assms(1,5)]
  have w: "sq_waiting q1 = hd (sq_waiting q1) # sq_waiting q2"
    using d assms(5) by (cases "sq_waiting q1") (auto simp: sq_count_waiting)
  obtain zs where zs: "\<forall>y\<in>set zs. ok y" "sq_waiting q2 @ zs = xs @ sq_waiting q'"
    using assms(8) by (auto simp: packed_items_def)
  have "sq_waiting q @ ys @ zs = (hd (sq_waiting q1) # xs) @ sq_waiting q'"
    using assms(4) w zs(2) by (metis append_Cons append_assoc)
  then have ex: "\<exists>ys. (\<forall>y\<in>set ys. ok y) \<and> sq_waiting q @ ys = (hd (sq_waiting q1) # xs) @ sq_waiting q'"
    using assms(3) zs(1) by (intro exI[of _ "ys @ zs"]) auto
  have app: "append_payload_elem E q2 packed e = packed @ item_bytes E (hd (sq_waiting q1))"
    by (rule append_popped[OF assms(1,5,6)])
  show ?thesis using assms(2,7,8) d h ex unfolding packed_items_def app by (auto simp: Let_def)
qed

lemma queue_head:
  assumes "0 < sq_count q"
  obtains e q' where "send_queue_dequeue q = (e, q')" "send_queue_peek q = Inr (the (sq_entries q) ! sq_head q)"
    "send_queue_try_pop q = (Inr e, q')"
proof -
  obtain e q' where d: "send_queue_dequeue q = (e, q')" by (meson surj_pair)
  then show ?thesis using that assms by (simp add: send_queue_peek_def send_queue_try_pop_def)
qed

lemma pack_queued_items:
  assumes "env_pushes mp ok env" "sq_inv mp q" "pack_queued E env limit skip k q packed n = (q', packed', n')"
  shows "\<exists>xs. packed_items E mp limit ok q packed n xs q' packed' n' \<and> unfragmented xs \<and>
    (\<forall>pid. skip = (\<lambda>e. pe_peer_id e \<noteq> pid) \<longrightarrow> (\<forall>x\<in>set xs. fst x = pid))"
  using assms
proof (induction E env limit skip k q packed n rule: pack_queued.induct)
  case (1 E env limit skip k q packed n)
  let ?q1 = "env k q" and ?e = "the (sq_entries (env k q)) ! sq_head (env k q)"
  obtain ys where env: "sq_inv mp ?q1" "sq_flying ?q1 = sq_flying q" "\<forall>y\<in>set ys. ok y" "sq_waiting ?q1 = sq_waiting q @ ys"
    by (rule env_pushesE[OF 1(2,3)])
  have stop: "\<exists>xs. packed_items E mp limit ok q packed n xs ?q1 packed n \<and> unfragmented xs \<and>
      (\<forall>pid. skip = (\<lambda>e. pe_peer_id e \<noteq> pid) \<longrightarrow> (\<forall>x\<in>set xs. fst x = pid))"
    using packed_items_refl[OF env, of E limit packed n] by (intro exI[of _ "[]"]) (simp add: unfragmented_def)
  show ?case
  proof (cases "sq_count ?q1 = 0")
    case True
    then show ?thesis using 1(4) stop by (subst (asm) pack_queued.simps) (simp add: send_queue_peek_def)
  next
    case False
    then have pos: "0 < sq_count ?q1" by simp
    obtain e q2 where d: "send_queue_dequeue ?q1 = (e, q2)" and pk: "send_queue_peek ?q1 = Inr ?e"
      and tp: "send_queue_try_pop ?q1 = (Inr e, q2)" by (rule queue_head[OF pos])
    let ?stop = "skip ?e \<or> pe_flags ?e AND POTR_FLAG_MORE_FRAG \<noteq> 0
      \<or> length packed + (POTR_PAYLOAD_ELEM_HDR_SIZE + unat (pe_payload_len ?e)) > limit"
    show ?thesis
    proof (cases ?stop)
      case True
      then show ?thesis using 1(4) stop pk by (subst (asm) pack_queued.simps) (simp add: Let_def)
    next
      case go: False
      have rest: "pack_queued E env limit skip (Suc k) q2 (append_payload_elem E q2 packed e) (Suc n) = (q', packed', n')"
        using 1(4) go pk tp by (subst (asm) pack_queued.simps) (simp add: Let_def)
      have inv2: "sq_inv mp q2" using sq_dequeue_spec[OF env(1) pos d] by simp
      obtain xs where xs: "packed_items E mp limit ok q2 (append_payload_elem E q2 packed e) (Suc n) xs q' packed' n'" "unfragmented xs"
        "\<forall>pid. skip = (\<lambda>e. pe_peer_id e \<noteq> pid) \<longrightarrow> (\<forall>x\<in>set xs. fst x = pid)"
        using 1(1)[OF refl pk go tp[symmetric] refl 1(2) inv2 rest] by blast
      have "packed_items E mp limit ok q packed n (hd (sq_waiting ?q1) # xs) q' packed' n'"
        by (rule packed_items_step[OF env pos d _ xs(1)]) (use go in auto)
      moreover have "unfragmented (hd (sq_waiting ?q1) # xs)"
        using xs(2) go sq_head_item(1)[OF env(1) pos] by (simp add: unfragmented_def Let_def)
      moreover have "fst (hd (sq_waiting ?q1)) = pid" if "skip = (\<lambda>e. pe_peer_id e \<noteq> pid)" for pid
        using that go sq_head_item(1)[OF env(1) pos] by (simp add: Let_def)
      ultimately show ?thesis using xs(3) by (intro exI[of _ "hd (sq_waiting ?q1) # xs"]) auto
    qed
  qed
qed

lemma pack_waiting_items:
  assumes "env_pushes mp ok env" "sq_inv mp (c_send_queue c)" "pack_waiting E env limit deadline k c packed n = (c', packed', n')"
  shows "\<exists>xs t. packed_items E mp limit ok (c_send_queue c) packed n xs (c_send_queue c') packed' n' \<and> unfragmented xs \<and>
    c' = c\<lparr>c_tick := t, c_send_queue := c_send_queue c'\<rparr>"
  using assms
proof (induction E env limit deadline k c packed n rule: pack_waiting.induct)
  case (1 E env limit deadline k c packed n)
  let ?q = "c_send_queue c" and ?c1 = "c\<lparr>c_tick := Suc (c_tick c)\<rparr>"
  let ?q1 = "env k ?q" and ?e = "the (sq_entries (env k ?q)) ! sq_head (env k ?q)"
  obtain ys where env: "sq_inv mp ?q1" "sq_flying ?q1 = sq_flying ?q" "\<forall>y\<in>set ys. ok y" "sq_waiting ?q1 = sq_waiting ?q @ ys"
    by (rule env_pushesE[OF 1(2,3)])
  have clk: "clock_get_monotonic_ms E c = (clock_monotonic_ms E (c_tick c), ?c1)" by (simp add: clock_get_monotonic_ms_def)
  have stop: "\<exists>xs t. packed_items E mp limit ok ?q packed n xs (c_send_queue d) packed n \<and> unfragmented xs \<and> d = c\<lparr>c_tick := t, c_send_queue := c_send_queue d\<rparr>"
    if "d = ?c1 \<or> d = ?c1\<lparr>c_send_queue := ?q1\<rparr>" for d
    using that
  proof
    assume "d = ?c1"
    then show ?thesis using packed_items_refl[OF 1(3), of ?q "[]" ok] by (intro exI[of _ "[]"] exI[of _ "Suc (c_tick c)"]) (simp add: unfragmented_def)
  next
    assume "d = ?c1\<lparr>c_send_queue := ?q1\<rparr>"
    then show ?thesis using packed_items_refl[OF env] by (intro exI[of _ "[]"] exI[of _ "Suc (c_tick c)"]) (simp add: unfragmented_def)
  qed
  show ?case
  proof (cases "clock_monotonic_ms E (c_tick c) \<ge> deadline")
    case True
    then show ?thesis using 1(4) stop[of c'] clk by (subst (asm) pack_waiting.simps) (simp add: Let_def)
  next
    case early: False
    show ?thesis
    proof (cases "sq_count ?q1 = 0")
      case True
      then have "sq_count ?q = 0" using env(4) by (simp add: sq_count_waiting)
      then show ?thesis using 1(4) stop[of c'] clk early True
        by (subst (asm) pack_waiting.simps) (simp add: Let_def send_queue_peek_timed_def)
    next
      case False
      then have pos: "0 < sq_count ?q1" by simp
      obtain e q2 where d: "send_queue_dequeue ?q1 = (e, q2)" and tp: "send_queue_try_pop ?q1 = (Inr e, q2)"
        by (rule queue_head[OF pos])
      obtain x where pk: "send_queue_peek_timed ?q ?q1 = Inr x"
        and same: "pe_flags x = pe_flags ?e" "unat (pe_payload_len x) = unat (pe_payload_len ?e)"
      proof (cases "sq_count ?q = 0")
        case True
        then show ?thesis using that[of ?e] False by (simp add: send_queue_peek_timed_def Let_def)
      next
        case nz: False
        then have "hd (sq_waiting ?q1) = hd (sq_waiting ?q)" using env(4) by (simp add: sq_count_waiting)
        then show ?thesis using nz that[of "the (sq_entries ?q) ! sq_head ?q"] sq_head_item[OF env(1) pos] sq_head_item[OF 1(3)]
          by (simp add: Let_def send_queue_peek_timed_def)
      qed
      let ?stop = "pe_flags ?e AND POTR_FLAG_MORE_FRAG \<noteq> 0
        \<or> length packed + (POTR_PAYLOAD_ELEM_HDR_SIZE + unat (pe_payload_len ?e)) > limit"
      have eq: "pack_waiting E env limit deadline k c packed n =
          (if ?stop then (?c1\<lparr>c_send_queue := ?q1\<rparr>, packed, n)
           else pack_waiting E env limit deadline (Suc k) (?c1\<lparr>c_send_queue := q2\<rparr>) (append_payload_elem E q2 packed e) (Suc n))"
        by (subst pack_waiting.simps) (simp add: clk early Let_def pk tp same)
      show ?thesis
      proof (cases ?stop)
        case True
        then show ?thesis using 1(4) stop[of c'] eq by simp
      next
        case go: False
        have rest: "pack_waiting E env limit deadline (Suc k) (?c1\<lparr>c_send_queue := q2\<rparr>) (append_payload_elem E q2 packed e) (Suc n)
            = (c', packed', n')" using 1(4) go eq by simp
        have inv2: "sq_inv mp (c_send_queue (?c1\<lparr>c_send_queue := q2\<rparr>))" using sq_dequeue_spec[OF env(1) pos d] by simp
        have q: "c_send_queue ?c1 = ?q" by simp
        obtain xs t where xs: "packed_items E mp limit ok q2 (append_payload_elem E q2 packed e) (Suc n) xs (c_send_queue c') packed' n'" "unfragmented xs"
          "c' = ?c1\<lparr>c_send_queue := q2, c_tick := t, c_send_queue := c_send_queue c'\<rparr>"
          using 1(1)[OF refl clk[symmetric] refl _ pk[folded q] refl _ tp[folded q, symmetric] refl 1(2) inv2[folded q] rest[folded q]] early go same
          by auto
        have "packed_items E mp limit ok ?q packed n (hd (sq_waiting ?q1) # xs) (c_send_queue c') packed' n'"
          by (rule packed_items_step[OF env pos d _ xs(1)]) (use go in auto)
        moreover have "unfragmented (hd (sq_waiting ?q1) # xs)"
          using xs(2) go sq_head_item(1)[OF env(1) pos] by (simp add: unfragmented_def Let_def)
        moreover have "c' = c\<lparr>c_tick := t, c_send_queue := c_send_queue c'\<rparr>" by (rule trans[OF xs(3)]) simp
        ultimately show ?thesis by (intro exI conjI)
      qed
    qed
  qed
qed

section \<open>What a flush sends\<close>

text \<open>
  \<open>encrypt_total\<close>: encryption succeeds when the output buffer has room for the ciphertext and
  the tag.  \<open>tag_room\<close> is what a container loses to the tag, and \<open>sealed_by\<close> says that two ends
  agree on encryption and key.
\<close>

definition encrypt_total :: "cplat \<Rightarrow> bool" where
  "encrypt_total E \<longleftrightarrow> (\<forall>cap key nonce aad pt. length pt + POTR_CRYPTO_TAG_SIZE \<le> cap \<longrightarrow> crypto_encrypt E cap key nonce aad pt \<noteq> None)"

definition tag_room :: "potr_context \<Rightarrow> nat" where
  "tag_room c = (if sd_encrypt_enabled (c_service c) then POTR_CRYPTO_TAG_SIZE else 0)"

definition sealed_by :: "potr_context \<Rightarrow> potr_context \<Rightarrow> bool" where
  "sealed_by c c' \<longleftrightarrow> sd_encrypt_enabled (c_service c') = sd_encrypt_enabled (c_service c) \<and>
     sd_encrypt_key (c_service c') = sd_encrypt_key (c_service c)"

lemma build_outer_cong:
  assumes "c_service c' = c_service c" "c_crypto_buf_size c' = c_crypto_buf_size c"
  shows "build_outer E c' = build_outer E c"
  by (intro ext) (simp only: build_outer_def assms)

lemma build_outer_total:
  assumes "encrypt_total E" "packed \<noteq> []" "length packed + tag_room c \<le> POTR_MAX_PAYLOAD" "length packed + tag_room c \<le> c_crypto_buf_size c"
  shows "\<exists>p. build_outer E c sh seq packed = Some p"
proof -
  have build: "packet_build_packed E sh seq packed (length packed) = Inr ((fill_session_hdr E zero_packet sh)
       \<lparr>seq_num := hton32 E seq, ack_num := 0, flags := hton16 E POTR_FLAG_DATA,
        payload_len := hton16 E (of_nat (length packed)), payload := packed\<rparr>)"
    using assms(2,3) by (simp add: packet_build_packed_def tag_room_def split: if_splits)
  show ?thesis
  proof (cases "sd_encrypt_enabled (c_service c)")
    case True
    then have "crypto_encrypt E (c_crypto_buf_size c) key nonce aad packed \<noteq> None" for key nonce aad
      using assms(1,4) by (simp add: encrypt_total_def tag_room_def)
    then show ?thesis using True unfolding build_outer_def build sum.case Let_def by (auto split: option.split)
  qed (simp add: build_outer_def build)
qed

lemma build_outer_received:
  assumes "byteorder_ok E" "crypto_ok E" "build_outer E c sh seq packed = Some p"
    and "length packed + tag_room c \<le> POTR_MAX_PAYLOAD"
  shows "length (payload p) = plen_nbo E p \<and> length (payload p) = length packed + tag_room c \<and>
    (\<forall>c'. sealed_by c c' \<and> length packed \<le> c_crypto_buf_size c' \<longrightarrow>
       receive_wire E c' (packet_wire E p) = Inr (host_packet sh seq 0 POTR_FLAG_DATA packed))"
proof -
  let ?p = "(fill_session_hdr E zero_packet sh)\<lparr>seq_num := hton32 E seq, ack_num := hton32 E 0,
       flags := hton16 E POTR_FLAG_DATA, payload_len := hton16 E (of_nat (length packed)), payload := packed\<rparr>"
  have z: "hton32 E 0 = 0" by (simp add: hton_zero[OF assms(1)])
  have build: "packet_build_packed E sh seq packed (length packed) = Inr ?p"
    using assms(3) by (auto simp: build_outer_def packet_build_packed_def z split: if_splits)
  show ?thesis
  proof (cases "sd_encrypt_enabled (c_service c)")
    case True
    let ?q = "?p\<lparr>flags := flags ?p OR hton16 E POTR_FLAG_ENCRYPTED, payload_len := hton16 E (of_nat (length packed + POTR_CRYPTO_TAG_SIZE))\<rparr>"
    obtain enc where e: "crypto_encrypt E (c_crypto_buf_size c) (sd_encrypt_key (c_service c))
        (mem32 E (session_id ?q) @ mem16 E (flags ?q) @ mem32 E (hton32 E seq) @ replicate 2 0) (packet_header_bytes E ?q) packed = Some enc"
      and p: "p = ?q\<lparr>payload := enc\<rparr>"
      using assms(3) True unfolding build_outer_def build sum.case Let_def by (auto split: option.splits)
    have len: "length enc = length packed + POTR_CRYPTO_TAG_SIZE" using assms(2) e unfolding crypto_ok_def by blast
    have room: "length packed + POTR_CRYPTO_TAG_SIZE \<le> POTR_MAX_PAYLOAD" using assms(4) True by (simp add: tag_room_def)
    have hl: "payload_len p = hton16 E (of_nat (length packed + POTR_CRYPTO_TAG_SIZE))" by (simp add: p)
    have plen: "plen_nbo E p = length packed + POTR_CRYPTO_TAG_SIZE" unfolding plen_nbo_def hl ntoh_hton(2)[OF assms(1)]
      by (rule unat_of_nat_u16) (use room in simp)
    have wire: "packet_wire E p = packet_header_bytes E ?q @ enc" by (simp add: p packet_wire_def packet_header_bytes_def)
    have "receive_wire E c' (packet_wire E p) = Inr (host_packet sh seq 0 POTR_FLAG_DATA packed)"
      if "sealed_by c c'" "length packed \<le> c_crypto_buf_size c'" for c'
      unfolding wire
    proof (rule receive_encrypted[OF assms(1,2) room, where x = packed])
      show "crypto_encrypt E (c_crypto_buf_size c) (sd_encrypt_key (c_service c'))
        (mem32 E (session_id ?q) @ mem16 E (flags ?q) @ mem32 E (hton32 E seq) @ replicate 2 0) (packet_header_bytes E ?q) packed = Some enc"
        using e that(1) by (simp add: sealed_by_def)
    qed (use that(2) in \<open>simp_all add: nonce_number_def host_packet_def\<close>)
    then show ?thesis using plen len True by (simp add: tag_room_def p)
  next
    case False
    then have p: "p = ?p" using assms(3) by (simp add: build_outer_def build)
    have room: "length packed \<le> POTR_MAX_PAYLOAD" using assms(4) by simp
    have hl: "payload_len p = hton16 E (of_nat (length packed))" by (simp add: p)
    have plen: "plen_nbo E p = length packed" unfolding plen_nbo_def hl ntoh_hton(2)[OF assms(1)]
      by (rule unat_of_nat_u16) (use room in simp)
    have "receive_wire E c' (packet_wire E p) = Inr (host_packet sh seq 0 POTR_FLAG_DATA packed)" if "sealed_by c c'" for c'
      by (rule receive_plain[OF assms(1) room _ p]) (use that False in \<open>simp_all add: sealed_by_def\<close>)
    then show ?thesis using plen False by (simp add: tag_room_def p)
  qed
qed

lemma sendto_paths_eq:
  "snd (sendto_paths E wire ks c) = c\<lparr>c_trace := c_trace c @ map (\<lambda>k. Io_sendto k (s_dest_addr (c_slot c) ! k) wire) ks,
     c_tick := c_tick c + length ks\<rparr>"
proof -
  have "snd (fold (\<lambda>k (sent_any, c). let (ok, c1) = socket_sendto E c k (s_dest_addr (c_slot c) ! k) wire in (sent_any \<or> ok, c1)) ks (b, c)) =
    c\<lparr>c_trace := c_trace c @ map (\<lambda>k. Io_sendto k (s_dest_addr (c_slot c) ! k) wire) ks, c_tick := c_tick c + length ks\<rparr>" for b
    by (induction ks arbitrary: b c) (simp_all add: socket_sendto_def emit_def)
  then show ?thesis by (simp add: sendto_paths_def)
qed

text \<open>The part of the context that is fixed when the service opens.\<close>

definition opened_as :: "potr_context \<Rightarrow> potr_global_config \<times> potr_service_def \<times> nat \<times> nat \<times> bool" where
  "opened_as c = (c_global c, c_service c, c_crypto_buf_size c, c_n_path c, c_is_multi_peer c)"

lemma opened_asD:
  "opened_as c' = opened_as c \<Longrightarrow> c_global c' = c_global c \<and> c_service c' = c_service c \<and>
     c_crypto_buf_size c' = c_crypto_buf_size c \<and> c_n_path c' = c_n_path c \<and> c_is_multi_peer c' = c_is_multi_peer c"
  by (simp add: opened_as_def)

lemma opened_as_flush: "opened_as (flush_packed E c packed) = opened_as c"
proof -
  have path: "opened_as (flush_tcp_path E wire i c) = opened_as c" for wire i c
    by (simp add: flush_tcp_path_def Let_def socket_wait_writable_def socket_send_all_def emit_def opened_as_def)
  have paths: "opened_as (fold (flush_tcp_path E wire) ks c) = opened_as c" for wire ks c
    by (induction ks arbitrary: c) (simp_all add: path)
  have udp: "opened_as d = opened_as c" if "sendto_paths E wire ks c = (b, d)" for wire ks c b d
    using sendto_paths_eq[of E wire ks c] that by (simp add: opened_as_def)
  have upd: "opened_as (upd_slot c CtxSlot f) = opened_as c" for c f by (simp add: opened_as_def upd_slot_def)
  show ?thesis
    by (auto simp: flush_packed_def Let_def paths upd clock_get_monotonic_ms_def dest!: udp split: option.split prod.splits)
      (simp_all add: opened_as_def health_thread_wake_def signal_health_thread_def emit_def upd_slot_def)
qed

lemmas flush_frame [simp] = opened_asD[OF opened_as_flush, THEN conjunct1]
  opened_asD[OF opened_as_flush, THEN conjunct2, THEN conjunct1]
  opened_asD[OF opened_as_flush, THEN conjunct2, THEN conjunct2, THEN conjunct1]
  opened_asD[OF opened_as_flush, THEN conjunct2, THEN conjunct2, THEN conjunct2, THEN conjunct1]
  opened_asD[OF opened_as_flush, THEN conjunct2, THEN conjunct2, THEN conjunct2, THEN conjunct2]

text \<open>A flush over UDP: the window stores the packet, every path gets it, and the health thread may be woken.\<close>

lemma flush_packed_udp:
  assumes "build_outer E c (own_session_hdr c (c_slot c)) (win_next_seq (s_send_window (c_slot c))) packed = Some p"
    and "\<not> is_tcp_type (sd_type (c_service c))"
  shows "\<exists>wake. set wake \<subseteq> {Io_wake_health 0} \<and>
    c_trace (flush_packed E c packed) =
      c_trace c @ map (\<lambda>k. Io_sendto k (s_dest_addr (c_slot c) ! k) (packet_wire E p)) [0..<c_n_path c] @ wake \<and>
    c_slot (flush_packed E c packed) =
      (c_slot c)\<lparr>s_send_window := snd (window_send_push E (s_send_window (c_slot c)) p), s_send_has_data := True\<rparr> \<and>
    c_send_queue (flush_packed E c packed) = c_send_queue c"
proof -
  let ?c1 = "upd_slot c CtxSlot (\<lambda>st. st\<lparr>s_send_window := snd (window_send_push E (s_send_window st) p), s_send_has_data := True\<rparr>)"
  obtain b c2 where s: "sendto_paths E (packet_wire E p) [0..<c_n_path ?c1] ?c1 = (b, c2)" by (meson surj_pair)
  have c2: "c2 = ?c1\<lparr>c_trace := c_trace ?c1 @ map (\<lambda>k. Io_sendto k (s_dest_addr (c_slot ?c1) ! k) (packet_wire E p)) [0..<c_n_path ?c1],
      c_tick := c_tick ?c1 + length [0..<c_n_path ?c1]\<rparr>"
    using sendto_paths_eq[of E "packet_wire E p" "[0..<c_n_path ?c1]" ?c1] s by simp
  have f: "flush_packed E c packed = (if b \<and> should_track_valid_data_send_time c2
      then (let (now, c3) = clock_get_monotonic_ms E c2 in health_thread_wake (c3\<lparr>c_last_valid_data_send_ms := now\<rparr>)) else c2)"
    unfolding flush_packed_def assms(1) option.case Let_def using assms(2) s by (simp add: Let_def)
  show ?thesis unfolding f c2
    by (auto simp: upd_slot_def health_thread_wake_def signal_health_thread_def clock_get_monotonic_ms_def emit_def Let_def)
qed

end
