(* ===== verification/Send_Turn.thy ===== *)
theory Send_Turn
  imports Send_Thread
begin

text \<open>
  What a turn of the send thread achieves, from the elements that wait in the queue to the elements
  that the other end unpacks: for a 1:1 UDP service and for the peers of an N:1 service.
\<close>

unbundle bit_operations_syntax

section \<open>One turn of the send thread\<close>

lemma complete_n_queue:
  assumes "sq_inv mp (c_send_queue c)"
  shows "sq_inv mp (c_send_queue (complete_n n c)) \<and> sq_waiting (c_send_queue (complete_n n c)) = sq_waiting (c_send_queue c) \<and>
    sq_flying (c_send_queue (complete_n n c)) = drop n (sq_flying (c_send_queue c))"
proof -
  let ?f = "\<lambda>q. snd (send_queue_complete q)"
  have "sq_inv mp ((?f ^^ n) q) \<and> sq_waiting ((?f ^^ n) q) = sq_waiting q \<and> sq_flying ((?f ^^ n) q) = drop n (sq_flying q)"
    if "sq_inv mp q" for q
    using that by (induction n) (auto simp: sq_complete_spec drop_Suc tl_drop)
  then show ?thesis using assms by (simp add: complete_n_def)
qed

text \<open>The first element of a turn, and how it joins the elements packed after it.\<close>

lemma first_popped:
  assumes "sq_inv mp q" "sq_waiting q = x # rest" "POTR_PAYLOAD_ELEM_HDR_SIZE + length (snd (snd x)) \<le> limit"
  obtains e q1 where "send_queue_pop q running = (Done (Inr e), q1)" "pe_peer_id e = fst x" "pe_flags e = fst (snd x)"
    "append_payload_elem E q1 [] e = item_bytes E x" "sq_inv mp q1" "sq_flying q1 = sq_flying q @ [x]" "sq_waiting q1 = rest"
    "\<And>xs q' packed n. packed_items E mp limit ok q1 (item_bytes E x) 1 xs q' packed n \<Longrightarrow>
       packed_items E mp limit ok q [] 0 (x # xs) q' packed (Suc (length xs)) \<and> n = Suc (length xs)"
proof -
  have pos: "0 < sq_count q" using assms(2) by (simp add: sq_count_waiting)
  obtain e q1 where d: "send_queue_dequeue q = (e, q1)" by (meson surj_pair)
  note ds = sq_dequeue_spec[OF assms(1) pos d]
  note h = sq_head_item[OF assms(1) pos]
  have app: "append_payload_elem E q1 [] e = item_bytes E x" using append_popped[OF assms(1) pos d, of E "[]"] assms(2) by simp
  have join: "packed_items E mp limit ok q [] 0 (x # xs) q' packed (Suc (length xs)) \<and> n = Suc (length xs)"
    if "packed_items E mp limit ok q1 (item_bytes E x) 1 xs q' packed n" for xs q' packed n
  proof -
    have n: "n = Suc (length xs)" using that by (simp add: packed_items_def)
    then show ?thesis
      using packed_items_step[OF assms(1) refl _ _ pos d, of "[]" ok "[]" limit E 0 xs q' packed n] that assms(2,3) h app by simp
  qed
  have x: "(pe_peer_id e, pe_flags e, sq_read q e) = x" using ds assms(2) by simp
  show ?thesis
    by (rule that[OF _ _ _ app _ _ _ join]) (use pos d ds x assms(2) in \<open>auto simp: send_queue_pop_def\<close>)
qed

text \<open>
  The state between packing and flushing in a 1:1 service: the items \<open>xs\<close>, the first of which
  headed the queue, fill the container, and nothing but the queue and the clock has moved.
\<close>

lemma send_turn_service:
  assumes "env_pushes mp ok env" "sq_inv mp (c_send_queue c)" "sq_waiting (c_send_queue c) = x # rest"
    and "\<not> c_is_multi_peer c" "POTR_PAYLOAD_ELEM_HDR_SIZE + length (snd (snd x)) \<le> pack_limit c"
  shows "\<exists>xs q t packed. send_turn E env c = Done (Some (complete_n (length xs) (flush_packed E (c\<lparr>c_tick := t, c_send_queue := q\<rparr>) packed))) \<and>
    packed_items E mp (pack_limit c) ok (c_send_queue c) [] 0 xs q packed (length xs) \<and> xs \<noteq> [] \<and> hd xs = x \<and>
    unfragmented (tl xs) \<and> (fst (snd x) AND POTR_FLAG_MORE_FRAG \<noteq> 0 \<longrightarrow> xs = [x])"
proof -
  obtain e q1 where pop: "send_queue_pop (c_send_queue c) (c_send_thread_running c) = (Done (Inr e), q1)"
    and fl: "pe_flags e = fst (snd x)" and app: "append_payload_elem E q1 [] e = item_bytes E x" and ds: "sq_inv mp q1"
    and join: "\<And>xs q' packed n. packed_items E mp (pack_limit c) ok q1 (item_bytes E x) 1 xs q' packed n \<Longrightarrow>
       packed_items E mp (pack_limit c) ok (c_send_queue c) [] 0 (x # xs) q' packed (Suc (length xs)) \<and> n = Suc (length xs)"
    by (rule first_popped[OF assms(2,3,5)]) blast
  have one: "packed_items E mp (pack_limit c) ok q1 (item_bytes E x) 1 [] q1 (item_bytes E x) 1"
    by (rule packed_items_refl[of _ _ _ "[]"]) (use ds in simp_all)
  let ?c1 = "c\<lparr>c_send_queue := q1\<rparr>"
  have turn: "send_turn E env c = Done (Some (send_packed_service E env ?c1 e))"
    using assms(4) by (simp add: send_turn_def pop)
  have lim: "pack_limit ?c1 = pack_limit c" by (simp add: pack_limit_def)
  show ?thesis
  proof (cases "fst (snd x) AND POTR_FLAG_MORE_FRAG = 0")
    case False
    then have "send_packed_service E env ?c1 e = complete_n 1 (flush_packed E ?c1 (item_bytes E x))"
      by (simp add: send_packed_service_def fl app)
    then show ?thesis using turn join[OF one] False
      by (intro exI[of _ "[x]"] exI[of _ q1] exI[of _ "c_tick c"] exI[of _ "item_bytes E x"]) (simp add: unfragmented_def)
  next
    case True
    show ?thesis
    proof (cases "sd_pack_wait_ms (c_service c) > 0")
      case wait: True
      let ?dl = "clock_monotonic_ms E (c_tick c) + ucast (sd_pack_wait_ms (c_service c))"
      obtain c2 packed n where p: "pack_waiting E env (pack_limit c) ?dl 0 (?c1\<lparr>c_tick := Suc (c_tick c)\<rparr>) (item_bytes E x) 1 = (c2, packed, n)"
        by (rule prod_cases3)
      obtain xs t where xs: "packed_items E mp (pack_limit c) ok q1 (item_bytes E x) 1 xs (c_send_queue c2) packed n" "unfragmented xs"
        "c2 = ?c1\<lparr>c_tick := Suc (c_tick c), c_tick := t, c_send_queue := c_send_queue c2\<rparr>"
        using pack_waiting_items[OF assms(1) _ p] ds by auto
      have c2: "c2 = c\<lparr>c_tick := t, c_send_queue := c_send_queue c2\<rparr>" by (rule trans[OF xs(3)]) simp
      have "send_packed_service E env ?c1 e = complete_n n (flush_packed E c2 packed)"
        using True wait p by (simp add: send_packed_service_def fl app lim clock_get_monotonic_ms_def)
      then have "send_packed_service E env ?c1 e = complete_n n (flush_packed E (c\<lparr>c_tick := t, c_send_queue := c_send_queue c2\<rparr>) packed)"
        using c2 by simp
      then show ?thesis using turn join[OF xs(1)] xs(2) True
        by (intro exI[of _ "x # xs"] exI[of _ "c_send_queue c2"] exI[of _ t] exI[of _ packed]) simp
    next
      case nowait: False
      obtain q packed n where p: "pack_queued E env (pack_limit c) (\<lambda>_. False) 0 q1 (item_bytes E x) 1 = (q, packed, n)"
        by (rule prod_cases3)
      obtain xs where xs: "packed_items E mp (pack_limit c) ok q1 (item_bytes E x) 1 xs q packed n" "unfragmented xs"
        using pack_queued_items[OF assms(1) _ p] ds by auto
      have "send_packed_service E env ?c1 e = complete_n n (flush_packed E (?c1\<lparr>c_send_queue := q\<rparr>) packed)"
        using True nowait p by (simp add: send_packed_service_def fl app lim)
      then show ?thesis using turn join[OF xs(1)] xs(2) True
        by (intro exI[of _ "x # xs"] exI[of _ q] exI[of _ "c_tick c"] exI[of _ packed]) simp
    qed
  qed
qed

text \<open>
  The invariant of a sending service: the sizes that \<^verbatim>\<open>potr_service_open\<close> accepts and allocates,
  a well-formed queue without elements in flight whose items fit a container, and a well-formed
  send window.
\<close>

definition item_fits :: "potr_context \<Rightarrow> potr_peer_id \<times> u16 \<times> bytes \<Rightarrow> bool" where
  "item_fits c x \<longleftrightarrow> POTR_PAYLOAD_ELEM_HDR_SIZE + length (snd (snd x)) \<le> pack_limit c"

definition sender_inv :: "cplat \<Rightarrow> potr_context \<Rightarrow> bool" where
  "sender_inv E c \<longleftrightarrow>
     64 \<le> unat (gc_max_payload (c_global c)) \<and> unat (gc_max_payload (c_global c)) \<le> POTR_MAX_PAYLOAD \<and>
     c_crypto_buf_size c = unat (gc_max_payload (c_global c)) + POTR_CRYPTO_TAG_SIZE \<and>
     sq_inv (unat (gc_max_payload (c_global c))) (c_send_queue c) \<and> sq_flying (c_send_queue c) = [] \<and>
     (\<forall>x\<in>set (sq_waiting (c_send_queue c)). item_fits c x) \<and>
     send_inv E (s_send_window (c_slot c)) \<and> win_max_payload (s_send_window (c_slot c)) = gc_max_payload (c_global c)"

lemma pack_limit_room: "sender_inv E c \<Longrightarrow> pack_limit c + tag_room c = unat (gc_max_payload (c_global c))"
  by (simp add: sender_inv_def pack_limit_def tag_room_def)

lemma send_push_stored:
  assumes "send_inv E w" "fits_send E w p" "window_send_push E w p = (r, w')"
  shows "window_send_get E w' (win_next_seq w) = Inr p \<and> win_max_payload w' = win_max_payload w"
proof -
  note r = send_push_refines[OF assms]
  let ?n = "length (send_abs E w')"
  have n: "0 < ?n" "?n < 65536" using r hb.held_bound[of E w'] by auto
  have eq: "win_next_seq w - (win_next_seq w' - of_nat ?n) = of_nat (?n - 1)" using r n(1) by (simp add: of_nat_diff)
  have "unat (win_next_seq w - (win_next_seq w' - of_nat ?n)) = ?n - 1"
    unfolding eq by (rule unat_of_nat_u32) (use n(2) in linarith)
  moreover have "send_abs E w' ! (?n - 1) = p" using r by (simp add: nth_append)
  ultimately have "window_send_get E w' (win_next_seq w) = Inr p" using hb.get_held[of E w' "win_next_seq w"] r n(1) by (simp add: Let_def)
  moreover have "win_max_payload w' = win_max_payload w"
    using assms(3) by (auto simp: window_send_push_def Let_def win_store_def win_set_valid_def win_advance_base_def)
  ultimately show ?thesis ..
qed

text \<open>A container of fitting items can be sealed, fits the window and the wire, and is unpacked by the peer.\<close>

lemma container_sealed:
  assumes "byteorder_ok E" "crypto_ok E" "encrypt_total E" "sender_inv E c"
    and "packed = concat (map (item_bytes E) xs)" "length packed \<le> pack_limit c" "xs \<noteq> []"
  obtains p where "build_outer E c sh seq packed = Some p" "length (payload p) = plen_nbo E p"
    "length (payload p) \<le> unat (gc_max_payload (c_global c))"
    "\<And>d. sealed_by c d \<Longrightarrow> unat (gc_max_payload (c_global c)) \<le> c_crypto_buf_size d \<Longrightarrow>
       receive_wire E d (packet_wire E p) = Inr (host_packet sh seq 0 POTR_FLAG_DATA packed)"
    "map (\<lambda>e. (flags e, payload e)) (unpack_all E (host_packet sh seq 0 POTR_FLAG_DATA packed) 0) = map snd xs"
    "\<forall>e\<in>set (unpack_all E (host_packet sh seq 0 POTR_FLAG_DATA packed) 0). unat (payload_len e) = length (payload e)"
proof -
  let ?h = "host_packet sh seq 0 POTR_FLAG_DATA packed" and ?es = "map snd xs"
  note inv = assms(4)[unfolded sender_inv_def]
  have ne: "packed \<noteq> []" using assms(5,7) by (cases xs) (auto simp: item_bytes_def elem_bytes_def mem16_def be16_def)
  have room: "length packed + tag_room c \<le> unat (gc_max_payload (c_global c))"
    using assms(6) pack_limit_room[OF assms(4)] by simp
  obtain p where p: "build_outer E c sh seq packed = Some p"
    using build_outer_total[OF assms(3) ne] room inv by fastforce
  have len: "length packed \<le> POTR_MAX_PAYLOAD" using room inv by simp
  have pl: "payload ?h = [] @ concat (map (\<lambda>(fl, d). elem_bytes E fl d) ?es)"
    by (simp add: host_packet_def assms(5) item_bytes_def[abs_def] comp_def case_prod_beta)
  have "unat (payload_len ?h) = length (payload ?h)" unfolding host_packet_def
    using unat_of_nat_u16[of "length packed"] len by simp
  then have "unpack_all E ?h (length ([] :: bytes)) = map (\<lambda>(fl, d). elem_of ?h fl d) ?es"
    by (rule unpack_all_elems[OF assms(1) pl]) (use len in \<open>simp add: host_packet_def\<close>)
  then have es: "unpack_all E ?h 0 = map (\<lambda>(fl, d). elem_of ?h fl d) ?es" by simp
  then have unp: "map (\<lambda>e. (flags e, payload e)) (unpack_all E ?h 0) = map snd xs"
    by (simp add: elem_of_def comp_def case_prod_beta zero_packet_def)
  have "length (snd (snd x)) < 65536" if "x \<in> set xs" for x
  proof -
    have "length (item_bytes E x) \<le> length packed"
      unfolding assms(5) length_concat map_map by (rule member_le_sum_list) (use that in auto)
    then show ?thesis using len by simp
  qed
  then have "unat (payload_len e) = length (payload e)" if "e \<in> set (unpack_all E ?h 0)" for e
    using that unfolding es by (auto simp: elem_of_def unat_of_nat_u16)
  then have pls: "\<forall>e\<in>set (unpack_all E ?h 0). unat (payload_len e) = length (payload e)" by blast
  show ?thesis using that[OF p _ _ _ unp pls] build_outer_received[OF assms(1,2) p] room inv by fastforce
qed

text \<open>The turn of a 1:1 UDP service, whatever other threads push meanwhile.\<close>

lemma send_turn_container:
  assumes "byteorder_ok E" "crypto_ok E" "encrypt_total E" "sender_inv E c"
    and "env_pushes (unat (gc_max_payload (c_global c))) ok env" "\<forall>y. ok y \<longrightarrow> item_fits c y"
    and "\<not> c_is_multi_peer c" "\<not> is_tcp_type (sd_type (c_service c))" "sq_waiting (c_send_queue c) = x # rest"
  shows "\<exists>c' xs ys wire wake p. send_turn E env c = Done (Some c') \<and> sender_inv E c' \<and>
    xs \<noteq> [] \<and> sq_waiting (c_send_queue c) @ ys = xs @ sq_waiting (c_send_queue c') \<and>
    (fst (snd x) AND POTR_FLAG_MORE_FRAG \<noteq> 0 \<longrightarrow> length xs = 1) \<and>
    c_trace c' = c_trace c @ map (\<lambda>k. Io_sendto k (s_dest_addr (c_slot c) ! k) wire) [0..<c_n_path c] @ wake \<and>
    set wake \<subseteq> {Io_wake_health 0} \<and>
    win_next_seq (s_send_window (c_slot c')) = win_next_seq (s_send_window (c_slot c)) + 1 \<and>
    window_send_get E (s_send_window (c_slot c')) (win_next_seq (s_send_window (c_slot c))) = Inr p \<and> packet_wire E p = wire \<and>
    (\<forall>d. sealed_by c d \<and> unat (gc_max_payload (c_global c)) \<le> c_crypto_buf_size d \<longrightarrow>
       (\<exists>pkt. receive_wire E d wire = Inr pkt \<and> flags pkt = POTR_FLAG_DATA \<and> seq_num pkt = win_next_seq (s_send_window (c_slot c)) \<and>
          map (\<lambda>e. (flags e, payload e)) (unpack_all E pkt 0) = map snd xs \<and>
          (\<forall>e\<in>set (unpack_all E pkt 0). unat (payload_len e) = length (payload e)))) \<and>
    (\<forall>y\<in>set ys. ok y) \<and> c_global c' = c_global c \<and> c_service c' = c_service c \<and> c_n_path c' = c_n_path c \<and>
    c_is_multi_peer c' = c_is_multi_peer c"
proof -
  let ?mp = "unat (gc_max_payload (c_global c))" and ?w = "s_send_window (c_slot c)"
  note inv = assms(4)[unfolded sender_inv_def]
  obtain xs q t packed where turn: "send_turn E env c = Done (Some (complete_n (length xs) (flush_packed E (c\<lparr>c_tick := t, c_send_queue := q\<rparr>) packed)))"
    and items: "packed_items E ?mp (pack_limit c) ok (c_send_queue c) [] 0 xs q packed (length xs)"
    and xs: "xs \<noteq> []" "fst (snd x) AND POTR_FLAG_MORE_FRAG \<noteq> 0 \<longrightarrow> xs = [x]"
    using send_turn_service[OF assms(5) _ assms(9,7)] inv assms(9) by (fastforce simp: item_fits_def)
  let ?c1 = "c\<lparr>c_tick := t, c_send_queue := q\<rparr>"
  obtain ys where ys: "\<forall>y\<in>set ys. ok y" "sq_waiting (c_send_queue c) @ ys = xs @ sq_waiting q"
    and q: "sq_inv ?mp q" "sq_flying q = xs" and packed: "packed = concat (map (item_bytes E) xs)" "length packed \<le> pack_limit c"
    using items inv by (auto simp: packed_items_def)
  obtain p where p: "build_outer E c (own_session_hdr c (c_slot c)) (win_next_seq ?w) packed = Some p"
    and rcv: "length (payload p) = plen_nbo E p" "length (payload p) \<le> ?mp"
    "\<And>d. sealed_by c d \<Longrightarrow> ?mp \<le> c_crypto_buf_size d \<Longrightarrow>
       receive_wire E d (packet_wire E p) = Inr (host_packet (own_session_hdr c (c_slot c)) (win_next_seq ?w) 0 POTR_FLAG_DATA packed)"
    and unp: "map (\<lambda>e. (flags e, payload e)) (unpack_all E (host_packet (own_session_hdr c (c_slot c)) (win_next_seq ?w) 0 POTR_FLAG_DATA packed) 0) = map snd xs"
    "\<forall>e\<in>set (unpack_all E (host_packet (own_session_hdr c (c_slot c)) (win_next_seq ?w) 0 POTR_FLAG_DATA packed) 0). unat (payload_len e) = length (payload e)"
    by (rule container_sealed[OF assms(1-4) packed xs(1), of "own_session_hdr c (c_slot c)" "win_next_seq ?w"]) blast
  have eq1: "build_outer E ?c1 = build_outer E c" "own_session_hdr ?c1 = own_session_hdr c"
    by (rule build_outer_cong) (simp_all add: own_session_hdr_def fun_eq_iff)
  have fits: "fits_send E ?w p" using rcv(1,2) inv by (simp add: fits_send_def)
  obtain r w' where push: "window_send_push E ?w p = (r, w')" by (meson surj_pair)
  note win = send_push_refines[OF _ fits push] send_push_stored[OF _ fits push]
  obtain wake where fl: "set wake \<subseteq> {Io_wake_health 0}"
    "c_trace (flush_packed E ?c1 packed) = c_trace c @ map (\<lambda>k. Io_sendto k (s_dest_addr (c_slot c) ! k) (packet_wire E p)) [0..<c_n_path c] @ wake"
    "c_slot (flush_packed E ?c1 packed) = (c_slot c)\<lparr>s_send_window := w', s_send_has_data := True\<rparr>"
    "c_send_queue (flush_packed E ?c1 packed) = q"
    using flush_packed_udp[of E ?c1 packed p] p assms(8) eq1 push by auto
  let ?c' = "complete_n (length xs) (flush_packed E ?c1 packed)"
  have cq: "sq_inv ?mp (c_send_queue ?c')" "sq_waiting (c_send_queue ?c') = sq_waiting q" "sq_flying (c_send_queue ?c') = []"
    using complete_n_queue[of ?mp "flush_packed E ?c1 packed" "length xs"] fl(4) q by simp_all
  have same: "c_global ?c' = c_global c" "c_service ?c' = c_service c" "c_crypto_buf_size ?c' = c_crypto_buf_size c"
    "c_n_path ?c' = c_n_path c" "c_is_multi_peer ?c' = c_is_multi_peer c"
    by (simp_all add: complete_n_def flush_frame)
  have inv': "sender_inv E ?c'"
  proof -
    have fit: "item_fits ?c' = item_fits c" by (simp add: fun_eq_iff item_fits_def pack_limit_def same)
    have "set (sq_waiting q) \<subseteq> set (sq_waiting (c_send_queue c)) \<union> set ys" using arg_cong[OF ys(2), of set] by auto
    then have "\<forall>x\<in>set (sq_waiting q). item_fits c x" using inv ys(1) assms(6) by blast
    moreover have "c_slot ?c' = (c_slot c)\<lparr>s_send_window := w', s_send_has_data := True\<rparr>" by (simp add: complete_n_def fl(3))
    ultimately show ?thesis unfolding sender_inv_def fit same cq(2,3) using inv cq(1) win by simp
  qed
  have seq: "win_next_seq (s_send_window (c_slot ?c')) = win_next_seq ?w + 1"
    "window_send_get E (s_send_window (c_slot ?c')) (win_next_seq ?w) = Inr p"
    "c_trace ?c' = c_trace (flush_packed E ?c1 packed)"
    using win inv by (simp_all add: complete_n_def fl(3))
  have acc: "\<forall>d. sealed_by c d \<and> ?mp \<le> c_crypto_buf_size d \<longrightarrow>
      (\<exists>pkt. receive_wire E d (packet_wire E p) = Inr pkt \<and> flags pkt = POTR_FLAG_DATA \<and> seq_num pkt = win_next_seq ?w \<and>
        map (\<lambda>e. (flags e, payload e)) (unpack_all E pkt 0) = map snd xs \<and>
        (\<forall>e\<in>set (unpack_all E pkt 0). unat (payload_len e) = length (payload e)))"
    using rcv(3) unp by (auto simp: host_packet_def)
  show ?thesis
  proof (rule exI[of _ ?c'], rule exI[of _ xs], rule exI[of _ ys], rule exI[of _ "packet_wire E p"], rule exI[of _ wake],
      rule exI[of _ p], intro conjI)
    show "fst (snd x) AND POTR_FLAG_MORE_FRAG \<noteq> 0 \<longrightarrow> length xs = 1" using xs(2) by auto
  qed (use turn inv' xs(1) ys(2) cq(2) seq fl(1,2) acc ys(1) same in \<open>simp_all only: refl simp_thms\<close>)
qed

text \<open>
  C6: From the queue to the peer.  A turn of the send thread of a 1:1 UDP service, whatever
  other threads push meanwhile, takes a non-empty front of the queued elements, assigns them the
  next sequence number, sends one identical datagram on every path and stores exactly that
  datagram for retransmission under its number.  A receiver with the same encryption settings
  accepts the datagram and unpacks from it exactly those elements, in order.  A fragment that is
  not the last of its message travels alone, and the invariant of the service holds again.
\<close>

theorem send_turn_reaches_receiver:
  assumes "byteorder_ok E" "crypto_ok E" "encrypt_total E" "sender_inv E c"
    and "env_pushes (unat (gc_max_payload (c_global c))) (item_fits c) env"
    and "\<not> c_is_multi_peer c" "\<not> is_tcp_type (sd_type (c_service c))" "sq_waiting (c_send_queue c) = x # rest"
  shows "\<exists>c' xs ys wire wake p. send_turn E env c = Done (Some c') \<and> sender_inv E c' \<and>
    xs \<noteq> [] \<and> sq_waiting (c_send_queue c) @ ys = xs @ sq_waiting (c_send_queue c') \<and>
    (fst (snd x) AND POTR_FLAG_MORE_FRAG \<noteq> 0 \<longrightarrow> length xs = 1) \<and>
    c_trace c' = c_trace c @ map (\<lambda>k. Io_sendto k (s_dest_addr (c_slot c) ! k) wire) [0..<c_n_path c] @ wake \<and>
    set wake \<subseteq> {Io_wake_health 0} \<and>
    win_next_seq (s_send_window (c_slot c')) = win_next_seq (s_send_window (c_slot c)) + 1 \<and>
    window_send_get E (s_send_window (c_slot c')) (win_next_seq (s_send_window (c_slot c))) = Inr p \<and> packet_wire E p = wire \<and>
    (\<forall>d. sealed_by c d \<and> unat (gc_max_payload (c_global c)) \<le> c_crypto_buf_size d \<longrightarrow>
       (\<exists>pkt. receive_wire E d wire = Inr pkt \<and> flags pkt = POTR_FLAG_DATA \<and> seq_num pkt = win_next_seq (s_send_window (c_slot c)) \<and>
          map (\<lambda>e. (flags e, payload e)) (unpack_all E pkt 0) = map snd xs))"
proof -
  have "\<forall>y. item_fits c y \<longrightarrow> item_fits c y" by simp
  from send_turn_container[OF assms(1-5) this assms(6-8)] show ?thesis
    by (elim ex_forward conjE) (intro conjI; (assumption | blast))
qed

section \<open>N:1 services\<close>

text \<open>The destinations of a peer that are set.\<close>

definition peer_dests :: "slot_state \<Rightarrow> nat list" where
  "peer_dests st = filter (\<lambda>k. \<not> endpoint_is_unset (s_dest_addr st ! k)) [0..<POTR_MAX_PATH]"

lemma sendto_set_paths:
  "fold (\<lambda>k c. if endpoint_is_unset (d ! k) then c else snd (socket_sendto E c k (d ! k) wire)) ks c =
    (let ps = filter (\<lambda>k. \<not> endpoint_is_unset (d ! k)) ks
     in c\<lparr>c_trace := c_trace c @ map (\<lambda>k. Io_sendto k (d ! k) wire) ps, c_tick := c_tick c + length ps\<rparr>)"
  by (induction ks arbitrary: c) (auto simp: socket_sendto_def emit_def Let_def)

lemma flush_packed_peer_eq:
  assumes "build_outer E c (own_session_hdr c (p_slot (c_peers c ! i))) (win_next_seq (s_send_window (p_slot (c_peers c ! i)))) packed = Some p"
  shows "flush_packed_peer E c i packed =
    (let st = p_slot (c_peers c ! i); ks = peer_dests st
     in c\<lparr>c_peers := (c_peers c)[i := (c_peers c ! i)\<lparr>p_slot := st\<lparr>s_send_window := snd (window_send_push E (s_send_window st) p),
            s_send_has_data := True\<rparr>\<rparr>],
          c_trace := c_trace c @ map (\<lambda>k. Io_sendto k (s_dest_addr st ! k) (packet_wire E p)) ks, c_tick := c_tick c + length ks\<rparr>)"
  unfolding flush_packed_peer_def get_slot.simps Let_def assms option.case sendto_set_paths
  by (simp add: upd_slot_def peer_dests_def Let_def)

lemma send_turn_peer:
  assumes "env_pushes mp ok env" "sq_inv mp (c_send_queue c)" "sq_waiting (c_send_queue c) = x # rest"
    and "c_is_multi_peer c" "POTR_PAYLOAD_ELEM_HDR_SIZE + length (snd (snd x)) \<le> pack_limit c" "peer_find_by_id c (fst x) = Some i"
  shows "\<exists>xs q packed. send_turn E env c = Done (Some (complete_n (length xs) (flush_packed_peer E (c\<lparr>c_send_queue := q\<rparr>) i packed))) \<and>
    packed_items E mp (pack_limit c) ok (c_send_queue c) [] 0 xs q packed (length xs) \<and> xs \<noteq> [] \<and>
    (\<forall>y\<in>set xs. fst y = fst x)"
proof -
  obtain e q1 where pop: "send_queue_pop (c_send_queue c) (c_send_thread_running c) = (Done (Inr e), q1)"
    and id: "pe_peer_id e = fst x" and app: "append_payload_elem E q1 [] e = item_bytes E x" and ds: "sq_inv mp q1"
    and join: "\<And>xs q' packed n. packed_items E mp (pack_limit c) ok q1 (item_bytes E x) 1 xs q' packed n \<Longrightarrow>
       packed_items E mp (pack_limit c) ok (c_send_queue c) [] 0 (x # xs) q' packed (Suc (length xs)) \<and> n = Suc (length xs)"
    by (rule first_popped[OF assms(2,3,5)]) blast
  let ?c1 = "c\<lparr>c_send_queue := q1\<rparr>"
  have find: "peer_find_by_id ?c1 (pe_peer_id e) = Some i" using assms(6) id by (simp add: peer_find_by_id_def)
  have lim: "pack_limit ?c1 = pack_limit c" by (simp add: pack_limit_def)
  obtain q packed n where p: "(if pe_flags e AND POTR_FLAG_MORE_FRAG = 0
      then pack_queued E env (pack_limit c) (\<lambda>nxt. pe_peer_id nxt \<noteq> fst x) 0 q1 (item_bytes E x) 1
      else (q1, item_bytes E x, 1)) = (q, packed, n)" by (rule prod_cases3)
  have "\<exists>xs. packed_items E mp (pack_limit c) ok q1 (item_bytes E x) 1 xs q packed n \<and> (\<forall>y\<in>set xs. fst y = fst x)"
  proof (cases "pe_flags e AND POTR_FLAG_MORE_FRAG = 0")
    case True
    then show ?thesis using p pack_queued_items[OF assms(1), of q1 E "pack_limit c" "\<lambda>nxt. pe_peer_id nxt \<noteq> fst x"] ds by fastforce
  next
    case False
    then show ?thesis using p packed_items_refl[of mp q1 q1 "[]" ok E "pack_limit c" "item_bytes E x" 1] ds by (intro exI[of _ "[]"]) simp
  qed
  then obtain xs where xs: "packed_items E mp (pack_limit c) ok q1 (item_bytes E x) 1 xs q packed n" "\<forall>y\<in>set xs. fst y = fst x" by blast
  have "send_turn E env c = Done (Some (complete_n n (flush_packed_peer E (c\<lparr>c_send_queue := q\<rparr>) i packed)))"
    using assms(4) find p id by (auto simp: send_turn_def pop send_packed_peer_mode_def app lim Let_def split: if_splits)
  then show ?thesis using join[OF xs(1)] xs(2) by (intro exI[of _ "x # xs"] exI[of _ q] exI[of _ packed]) simp
qed

text \<open>
  C8: Peers do not receive each other's messages.  A turn of the send thread of an N:1 service
  takes a front of the queue that is addressed to one peer, and sends one datagram to the
  addresses of that peer only, in its session and with its next sequence number; a receiver with
  the same encryption settings unpacks from it exactly those elements.  No other peer's state
  changes.  An element for a peer that has gone is dropped without sending anything.
\<close>

theorem peer_turn_isolated:
  assumes "byteorder_ok E" "crypto_ok E" "encrypt_total E" "sender_inv E c"
    and "env_pushes (unat (gc_max_payload (c_global c))) (item_fits c) env"
    and "c_is_multi_peer c" "sq_waiting (c_send_queue c) = x # rest"
  shows "case peer_find_by_id c (fst x) of
      None \<Rightarrow> \<exists>c'. send_turn E env c = Done (Some c') \<and> c_trace c' = c_trace c \<and> c_peers c' = c_peers c \<and> sq_waiting (c_send_queue c') = rest
    | Some i \<Rightarrow> \<exists>c' xs ys wire. send_turn E env c = Done (Some c') \<and> xs \<noteq> [] \<and> (\<forall>y\<in>set xs. fst y = fst x) \<and>
        sq_waiting (c_send_queue c) @ ys = xs @ sq_waiting (c_send_queue c') \<and>
        c_trace c' = c_trace c @ map (\<lambda>k. Io_sendto k (s_dest_addr (p_slot (c_peers c ! i)) ! k) wire) (peer_dests (p_slot (c_peers c ! i))) \<and>
        (\<forall>j. j \<noteq> i \<longrightarrow> c_peers c' ! j = c_peers c ! j) \<and>
        (\<forall>d. sealed_by c d \<and> unat (gc_max_payload (c_global c)) \<le> c_crypto_buf_size d \<longrightarrow>
           (\<exists>pkt. receive_wire E d wire = Inr pkt \<and> session_id pkt = s_session_id (p_slot (c_peers c ! i)) \<and>
              seq_num pkt = win_next_seq (s_send_window (p_slot (c_peers c ! i))) \<and>
              map (\<lambda>e. (flags e, payload e)) (unpack_all E pkt 0) = map snd xs))"
proof (cases "peer_find_by_id c (fst x)")
  case None
  let ?mp = "unat (gc_max_payload (c_global c))"
  note inv = assms(4)[unfolded sender_inv_def]
  have fit: "POTR_PAYLOAD_ELEM_HDR_SIZE + length (snd (snd x)) \<le> pack_limit c" using inv assms(7) by (auto simp: item_fits_def)
  obtain e q1 where pop: "send_queue_pop (c_send_queue c) (c_send_thread_running c) = (Done (Inr e), q1)"
    and id: "pe_peer_id e = fst x" and q1: "sq_inv ?mp q1" "sq_waiting q1 = rest"
    using first_popped[OF _ assms(7) fit, of ?mp] inv by blast
  have "send_turn E env c = Done (Some (complete_n 1 (c\<lparr>c_send_queue := q1\<rparr>)))"
    using None assms(6) id by (simp add: send_turn_def pop send_packed_peer_mode_def peer_find_by_id_def Let_def)
  moreover have "sq_waiting (c_send_queue (complete_n 1 (c\<lparr>c_send_queue := q1\<rparr>))) = rest"
    using complete_n_queue[of ?mp "c\<lparr>c_send_queue := q1\<rparr>" 1] q1 by simp
  ultimately show ?thesis using None by (simp add: complete_n_def)
next
  case (Some i)
  let ?mp = "unat (gc_max_payload (c_global c))" and ?st = "p_slot (c_peers c ! i)"
  let ?w = "s_send_window ?st"
  note inv = assms(4)[unfolded sender_inv_def]
  have fit: "POTR_PAYLOAD_ELEM_HDR_SIZE + length (snd (snd x)) \<le> pack_limit c" using inv assms(7) by (auto simp: item_fits_def)
  obtain xs q packed where turn: "send_turn E env c = Done (Some (complete_n (length xs) (flush_packed_peer E (c\<lparr>c_send_queue := q\<rparr>) i packed)))"
    and items: "packed_items E ?mp (pack_limit c) (item_fits c) (c_send_queue c) [] 0 xs q packed (length xs)"
    and xs: "xs \<noteq> []" "\<forall>y\<in>set xs. fst y = fst x"
    using send_turn_peer[OF assms(5) _ assms(7,6) fit Some] inv by blast
  let ?c1 = "c\<lparr>c_send_queue := q\<rparr>"
  obtain ys where ys: "sq_waiting (c_send_queue c) @ ys = xs @ sq_waiting q"
    and q: "sq_inv ?mp q" and packed: "packed = concat (map (item_bytes E) xs)" "length packed \<le> pack_limit c"
    using items by (auto simp: packed_items_def)
  obtain p where p: "build_outer E c (own_session_hdr c ?st) (win_next_seq ?w) packed = Some p"
    and rcv: "\<And>d. sealed_by c d \<Longrightarrow> ?mp \<le> c_crypto_buf_size d \<Longrightarrow>
       receive_wire E d (packet_wire E p) = Inr (host_packet (own_session_hdr c ?st) (win_next_seq ?w) 0 POTR_FLAG_DATA packed)"
    and unp: "map (\<lambda>e. (flags e, payload e)) (unpack_all E (host_packet (own_session_hdr c ?st) (win_next_seq ?w) 0 POTR_FLAG_DATA packed) 0) = map snd xs"
    by (rule container_sealed[OF assms(1-4) packed xs(1), of "own_session_hdr c ?st" "win_next_seq ?w"]) blast
  have eq1: "build_outer E ?c1 = build_outer E c" "own_session_hdr ?c1 = own_session_hdr c"
    by (rule build_outer_cong) (simp_all add: own_session_hdr_def fun_eq_iff)
  have p1: "build_outer E ?c1 (own_session_hdr ?c1 (p_slot (c_peers ?c1 ! i))) (win_next_seq (s_send_window (p_slot (c_peers ?c1 ! i)))) packed = Some p"
    using p by (simp add: eq1)
  note fl = flush_packed_peer_eq[OF p1]
  let ?c' = "complete_n (length xs) (flush_packed_peer E ?c1 i packed)"
  have wt: "sq_waiting (c_send_queue ?c') = sq_waiting q"
    using complete_n_queue[of ?mp "flush_packed_peer E ?c1 i packed" "length xs"] q by (simp add: fl Let_def)
  have sid: "sh_session_id (own_session_hdr c ?st) = s_session_id ?st" by (simp add: own_session_hdr_def split: prod.split)
  have acc: "\<forall>d. sealed_by c d \<and> ?mp \<le> c_crypto_buf_size d \<longrightarrow>
      (\<exists>pkt. receive_wire E d (packet_wire E p) = Inr pkt \<and> session_id pkt = s_session_id ?st \<and> seq_num pkt = win_next_seq ?w \<and>
        map (\<lambda>e. (flags e, payload e)) (unpack_all E pkt 0) = map snd xs)"
    using rcv unp sid by (auto simp: host_packet_def)
  have tr: "c_trace ?c' = c_trace c @ map (\<lambda>k. Io_sendto k (s_dest_addr ?st ! k) (packet_wire E p)) (peer_dests ?st)"
    "\<forall>j. j \<noteq> i \<longrightarrow> c_peers ?c' ! j = c_peers c ! j"
    by (simp_all add: complete_n_def fl Let_def)
  show ?thesis unfolding Some option.case
    by (rule exI[of _ ?c'], rule exI[of _ xs], rule exI[of _ ys], rule exI[of _ "packet_wire E p"], intro conjI)
      (use turn xs ys wt tr acc in \<open>simp_all only: simp_thms\<close>)
qed

section \<open>Witnesses\<close>

text \<open>An encrypting sender with two paths, one queued element, and windows for payloads of 64 bytes.\<close>

definition demo_send_window :: potr_internal_window where
  "demo_send_window = snd (window_init demo_cplat window_zero 7 4 64)"

definition demo_send_queue :: potr_internal_send_queue where
  "demo_send_queue = send_queue_enqueue (snd (send_queue_init demo_cplat (\<lambda>_. True) 2 64)) 3 0 [5, 6]"

definition demo_sending :: potr_context where
  "demo_sending = demo_secure\<lparr>c_global := demo_global\<lparr>gc_max_payload := 64\<rparr>, c_crypto_buf_size := 80,
     c_send_queue := demo_send_queue, c_slot := (c_slot demo_secure)\<lparr>s_send_window := demo_send_window\<rparr>\<rparr>"

lemma demo_encrypt [simp]: "encrypt_total demo_cplat"
  by (simp add: encrypt_total_def demo_cplat_def)

lemma demo_env [simp]: "env_pushes mp ok (\<lambda>k q. q)"
  by (auto simp: env_pushes_def intro!: exI[of _ "[]"])

lemma demo_sending_inv: "sender_inv demo_cplat demo_sending" "sq_waiting (c_send_queue demo_sending) = [(3, 0, [5, 6])]"
proof -
  let ?q = "snd (send_queue_init demo_cplat (\<lambda>_. True) 2 64)"
  have "send_queue_init demo_cplat (\<lambda>_. True) 2 64 = (POTR_OK, ?q)" by (simp add: send_queue_init_def demo_cplat_def Let_def)
  then have q: "sq_inv (unat (64 :: u16)) ?q" "sq_waiting ?q = []" "sq_flying ?q = []" "sq_depth ?q = 2"
    using sq_init_spec[of demo_cplat "\<lambda>_. True" 2 64 ?q] by simp_all
  then have room: "sq_count ?q + sq_inflight ?q < sq_depth ?q" by (simp add: sq_count_waiting)
  have q': "sq_inv 64 demo_send_queue" "sq_waiting demo_send_queue = [(3, 0, [5, 6])]" "sq_flying demo_send_queue = []"
    using sq_enqueue_inv[OF q(1) _ room, of "[5, 6]" 3 0] sq_enqueue_abs[OF q(1) _ room, of "[5, 6]" 3 0] q
    by (simp_all add: demo_send_queue_def)
  have "window_init demo_cplat window_zero 7 4 64 = (POTR_OK, demo_send_window)"
    by (simp add: demo_send_window_def window_init_def window_zero_def demo_cplat_def)
  then have w: "send_inv demo_cplat demo_send_window" "win_max_payload demo_send_window = 64"
    using window_init_send[OF demo_window_init(2), of 4 demo_cplat 7 64] window_init_wf[OF demo_window_init(2), of 4 demo_cplat 7 64] by simp_all
  have d: "c_global demo_sending = demo_global\<lparr>gc_max_payload := 64\<rparr>" "c_send_queue demo_sending = demo_send_queue"
    "s_send_window (c_slot demo_sending) = demo_send_window" "c_crypto_buf_size demo_sending = 80"
    "sd_encrypt_enabled (c_service demo_sending)"
    by (simp_all add: demo_sending_def demo_secure_def)
  show "sq_waiting (c_send_queue demo_sending) = [(3, 0, [5, 6])]" by (simp add: d q')
  show "sender_inv demo_cplat demo_sending"
    by (simp add: sender_inv_def d q' w item_fits_def pack_limit_def)
qed

theorem send_turn_reaches_receiver_witness:
  "\<exists>c' wire pkt. send_turn demo_cplat (\<lambda>k q. q) demo_sending = Done (Some c') \<and>
     take 2 (c_trace c') = [Io_sendto 0 \<lparr>ep_address = 0, ep_port = 0\<rparr> wire, Io_sendto 1 \<lparr>ep_address = 0, ep_port = 0\<rparr> wire] \<and>
     receive_wire demo_cplat demo_sending wire = Inr pkt \<and>
     hd (map (\<lambda>e. (flags e, payload e)) (unpack_all demo_cplat pkt 0)) = (0, [5, 6])"
proof -
  have f: "\<not> c_is_multi_peer demo_sending" "\<not> is_tcp_type (sd_type (c_service demo_sending))" "c_trace demo_sending = []"
    "c_n_path demo_sending = 2" "s_dest_addr (c_slot demo_sending) = replicate 4 \<lparr>ep_address = 0, ep_port = 0\<rparr>"
    "unat (gc_max_payload (c_global demo_sending)) \<le> c_crypto_buf_size demo_sending"
    by (simp_all add: demo_sending_def demo_secure_def demo_ctx_def demo_service_def slot_zero_def)
  let ?c = demo_sending
  obtain c' xs ys wire wake where t: "send_turn demo_cplat (\<lambda>k q. q) ?c = Done (Some c')" "xs \<noteq> []"
    "sq_waiting (c_send_queue ?c) @ ys = xs @ sq_waiting (c_send_queue c')"
    "c_trace c' = c_trace ?c @ map (\<lambda>k. Io_sendto k (s_dest_addr (c_slot ?c) ! k) wire) [0..<c_n_path ?c] @ wake"
    and r: "\<forall>d. sealed_by ?c d \<and> unat (gc_max_payload (c_global ?c)) \<le> c_crypto_buf_size d \<longrightarrow>
       (\<exists>pkt. receive_wire demo_cplat d wire = Inr pkt \<and> flags pkt = POTR_FLAG_DATA \<and> seq_num pkt = win_next_seq (s_send_window (c_slot ?c)) \<and>
          map (\<lambda>e. (flags e, payload e)) (unpack_all demo_cplat pkt 0) = map snd xs)"
    using send_turn_reaches_receiver[OF demo_byteorder demo_crypto demo_encrypt demo_sending_inv(1) demo_env f(1,2) demo_sending_inv(2)]
    by (elim exE conjE) (rule that; assumption)
  obtain pkt where pkt: "receive_wire demo_cplat ?c wire = Inr pkt" "map (\<lambda>e. (flags e, payload e)) (unpack_all demo_cplat pkt 0) = map snd xs"
    using r f(6) unfolding sealed_by_def by blast
  have "hd xs = (3, 0, [5, 6])" using t(2,3) demo_sending_inv(2) by (cases xs) auto
  then have "hd (map snd xs) = (0, [5, 6])" using t(2) by (cases xs) auto
  then have h: "hd (map (\<lambda>e. (flags e, payload e)) (unpack_all demo_cplat pkt 0)) = (0, [5, 6])" by (simp only: pkt(2))
  have "take 2 (c_trace c') = [Io_sendto 0 \<lparr>ep_address = 0, ep_port = 0\<rparr> wire, Io_sendto 1 \<lparr>ep_address = 0, ep_port = 0\<rparr> wire]"
    unfolding t(4) f(3-5) by (simp add: numeral_2_eq_2 upt_rec)
  with t(1) pkt(1) h show ?thesis by blast
qed

definition demo_hub :: potr_context where
  "demo_hub = demo_sending\<lparr>c_is_multi_peer := True, c_peers := [\<lparr>p_peer_id = 3, p_active = True,
     p_slot = (c_slot demo_sending)\<lparr>s_dest_addr := [\<lparr>ep_address = 1, ep_port = 2\<rparr>, \<lparr>ep_address = 0, ep_port = 0\<rparr>,
       \<lparr>ep_address = 0, ep_port = 0\<rparr>, \<lparr>ep_address = 0, ep_port = 0\<rparr>]\<rparr>, p_frag_alloc = True, p_n_paths = 1\<rparr>]\<rparr>"

theorem peer_turn_isolated_witness:
  "\<exists>c' wire. send_turn demo_cplat (\<lambda>k q. q) demo_hub = Done (Some c') \<and> c_trace c' = [Io_sendto 0 \<lparr>ep_address = 1, ep_port = 2\<rparr> wire]"
proof -
  have inv: "sender_inv demo_cplat demo_hub" "sq_waiting (c_send_queue demo_hub) = [(3, 0, [5, 6])]"
    using demo_sending_inv by (simp_all add: demo_hub_def sender_inv_def item_fits_def pack_limit_def)
  have f: "c_is_multi_peer demo_hub" "c_trace demo_hub = []"
    "peer_dests (p_slot (c_peers demo_hub ! 0)) = [0]" "s_dest_addr (p_slot (c_peers demo_hub ! 0)) ! 0 = \<lparr>ep_address = 1, ep_port = 2\<rparr>"
    by (simp_all add: demo_hub_def demo_sending_def demo_secure_def demo_ctx_def peer_dests_def upt_rec endpoint_is_unset_def)
  have find: "peer_find_by_id demo_hub (fst (3, 0 :: u16, [5, 6 :: u8])) = Some 0"
    by (simp add: peer_find_by_id_def find_peer_def demo_hub_def)
  from peer_turn_isolated[OF demo_byteorder demo_crypto demo_encrypt inv(1) demo_env f(1) inv(2)]
  obtain c' wire where "send_turn demo_cplat (\<lambda>k q. q) demo_hub = Done (Some c')"
    "c_trace c' = c_trace demo_hub @ map (\<lambda>k. Io_sendto k (s_dest_addr (p_slot (c_peers demo_hub ! 0)) ! k) wire) (peer_dests (p_slot (c_peers demo_hub ! 0)))"
    unfolding find option.case by blast
  then show ?thesis using f by auto
qed

end
