(* ===== verification/Service_Send.thy ===== *)
theory Service_Send
  imports Send_Turn
begin

text \<open>
  The send call of the application (\<^verbatim>\<open>api/potr_service_send.c\<close>): it checks the request, compresses
  the message when that is asked for and helps, splits it into elements and queues them, for one
  receiver or for every connected peer.

  The send thread takes elements while the call runs.  The queue that the \<open>k\<close>-th push finds when
  it may go on is \<open>env k q\<close>, and the one that ends the \<open>i\<close>-th wait for an empty queue is
  \<open>drain i q\<close>.  A result \<open>Wait\<close> means that the call has not returned.
\<close>

unbundle bit_operations_syntax

section \<open>Queueing the elements of a message\<close>

text \<open>The room for message bytes in an element.\<close>

definition frag_limit :: "potr_context \<Rightarrow> nat" where
  "frag_limit c = unat (gc_max_payload (c_global c)) - POTR_PAYLOAD_ELEM_HDR_SIZE
     - (if sd_encrypt_enabled (c_service c) then POTR_CRYPTO_TAG_SIZE else 0)"

text \<open>The loop over the remaining bytes.  Without room for a single byte it would not end.\<close>

function push_fragments ::
  "queue_env \<Rightarrow> bool \<Rightarrow> potr_peer_id \<Rightarrow> nat \<Rightarrow> u16 \<Rightarrow> nat \<Rightarrow> potr_internal_send_queue \<Rightarrow> bytes \<Rightarrow>
   potr_result wait \<times> potr_internal_send_queue" where
  "push_fragments env running peer_id max_payload base_flags k q ptr =
    (if ptr = [] then (Done POTR_OK, q)
     else if max_payload = 0 then (Wait, q)
     else
       (let remaining = length ptr;
            chunk = (if remaining > max_payload then max_payload else remaining);
            elem_flags = (if remaining > chunk then base_flags OR POTR_FLAG_MORE_FRAG else base_flags);
            (result, _, q') = send_queue_push_wait (env k q) peer_id elem_flags (take chunk ptr) running
        in if result \<noteq> Done POTR_OK then (result, q')
           else push_fragments env running peer_id max_payload base_flags (Suc k) q' (drop chunk ptr)))"
  by pat_completeness auto
termination
  by (relation "measure (\<lambda>(env, running, peer_id, max_payload, base_flags, k, q, ptr). length ptr)") auto

declare push_fragments.simps [simp del]

definition send_to_peer ::
  "queue_env \<Rightarrow> queue_env \<Rightarrow> potr_context \<Rightarrow> potr_peer_id \<Rightarrow> bytes \<Rightarrow> u32 \<Rightarrow> u16 \<Rightarrow> potr_result wait \<times> potr_context" where
  "send_to_peer drain env c peer_id ptr fl base_flags =
    (let blocking = (fl AND POTR_SEND_BLOCKING \<noteq> 0);
         q0 = (if blocking then drain 0 (c_send_queue c) else c_send_queue c)
     in if blocking \<and> send_queue_wait_drained q0 = Wait then (Wait, c\<lparr>c_send_queue := q0\<rparr>)
        else
          (case push_fragments env (c_send_thread_running c) peer_id (frag_limit c) base_flags 0 q0 ptr of
             (result, q1) \<Rightarrow>
               if result \<noteq> Done POTR_OK then (result, c\<lparr>c_send_queue := q1\<rparr>)
               else
                 (let q2 = (if blocking then drain 1 q1 else q1)
                  in if blocking \<and> send_queue_wait_drained q2 = Wait then (Wait, c\<lparr>c_send_queue := q2\<rparr>)
                     else (Done POTR_OK, c\<lparr>c_send_queue := q2\<rparr>))))"

section \<open>The call\<close>

text \<open>The bytes that travel and the flag of their elements, or None when compression fails.\<close>

definition send_encoding :: "cplat \<Rightarrow> potr_context \<Rightarrow> bytes \<Rightarrow> u32 \<Rightarrow> (u16 \<times> bytes) option" where
  "send_encoding E c data fl =
    (if fl AND POTR_SEND_COMPRESS \<noteq> 0 then
       (case compress E (c_compress_buf_size c) data of
          None \<Rightarrow> None
        | Some z \<Rightarrow> Some (if length z < length data then (POTR_FLAG_COMPRESSED, z) else (0, data)))
     else Some (0, data))"

text \<open>
  Sending to each of the collected peers; the first failure is the result.  The environments
  of the \<open>i\<close>-th peer are \<open>drain i\<close> and \<open>env i\<close>.
\<close>

fun send_to_all ::
  "(nat \<Rightarrow> queue_env) \<Rightarrow> (nat \<Rightarrow> queue_env) \<Rightarrow> nat \<Rightarrow> potr_peer_id list \<Rightarrow> bytes \<Rightarrow> u32 \<Rightarrow> u16 \<Rightarrow> potr_result \<Rightarrow>
   potr_context \<Rightarrow> potr_result wait \<times> potr_context" where
  "send_to_all drain env i [] ptr fl base_flags result c = (Done result, c)"
| "send_to_all drain env i (pid # ids) ptr fl base_flags result c =
    (case send_to_peer (drain i) (env i) c pid ptr fl base_flags of
       (Wait, c') \<Rightarrow> (Wait, c')
     | (Done r, c') \<Rightarrow> send_to_all drain env (Suc i) ids ptr fl base_flags (if result = POTR_OK \<and> r \<noteq> POTR_OK then r else result) c')"

definition connected_ids :: "potr_context \<Rightarrow> potr_peer_id list" where
  "connected_ids c = map p_peer_id (filter (\<lambda>p. p_active p \<and> s_health_alive (p_slot p)) (c_peers c))"

text \<open>\<open>data\<close> is None for a null pointer; the handle is that of an open service.\<close>

definition potr_service_send ::
  "cplat \<Rightarrow> (nat \<Rightarrow> queue_env) \<Rightarrow> (nat \<Rightarrow> queue_env) \<Rightarrow> potr_context \<Rightarrow> potr_peer_id \<Rightarrow> bytes option \<Rightarrow> u32 \<Rightarrow>
   potr_result wait \<times> potr_context" where
  "potr_service_send E drain env c peer_id data fl =
    (case data of
       None \<Rightarrow> (Done POTR_ERR_INVALID_ARGUMENT, c)
     | Some ptr \<Rightarrow>
         if length ptr = 0 \<or> length ptr > unat (gc_max_message_size (c_global c)) then (Done POTR_ERR_INVALID_ARGUMENT, c)
         else if c_close_requested c then (Done POTR_ERR_CANCELED, c)
         else if is_tcp_type (sd_type (c_service c)) \<and> (t_active_paths (c_tcp c) = 0 \<or> \<not> s_health_alive (c_slot c))
         then (Done POTR_ERR_DISCONNECTED, c)
         else if sd_type (c_service c) = POTR_TYPE_UNICAST_BIDIR \<and> \<not> s_health_alive (c_slot c)
         then (Done POTR_ERR_DISCONNECTED, c)
         else
           (let fl = (if is_raw_type (sd_type (c_service c)) then fl OR POTR_SEND_BLOCKING else fl)
            in case send_encoding E c ptr fl of
                 None \<Rightarrow> (Done POTR_ERR_UNKNOWN, c)
               | Some (base_flags, ptr) \<Rightarrow>
                   if \<not> c_is_multi_peer c then send_to_peer (drain 0) (env 0) c POTR_PEER_NA ptr fl base_flags
                   else if peer_id = POTR_PEER_NA then (Done POTR_ERR_INVALID_ARGUMENT, c)
                   else if peer_id = POTR_PEER_ALL then
                     (if \<not> calloc_ok E (length (c_peers c)) 4 then (Done POTR_ERR_OUT_OF_MEMORY, c)
                      else if connected_ids c = [] then (Done POTR_ERR_DISCONNECTED, c)
                      else send_to_all drain env 0 (connected_ids c) ptr fl base_flags POTR_OK c)
                   else
                     (case peer_find_by_id c peer_id of
                        None \<Rightarrow> (Done POTR_ERR_NOT_FOUND, c)
                      | Some i \<Rightarrow>
                          if \<not> s_health_alive (p_slot (c_peers c ! i)) then (Done POTR_ERR_DISCONNECTED, c)
                          else send_to_peer (drain 0) (env 0) c peer_id ptr fl base_flags)))"

section \<open>The elements of a message\<close>

text \<open>The elements in closed form: \<open>n\<close> slices of the message, all but the last marked.\<close>

definition fragments :: "nat \<Rightarrow> u16 \<Rightarrow> bytes \<Rightarrow> (u16 \<times> bytes) list" where
  "fragments limit base d =
    (let n = (length d + limit - 1) div limit
     in map (\<lambda>i. (if Suc i < n then base OR POTR_FLAG_MORE_FRAG else base, take limit (drop (i * limit) d))) [0..<n])"

lemma fragments_Nil [simp]: "0 < limit \<Longrightarrow> fragments limit base [] = []"
  by (simp add: fragments_def)

lemma fragments_last: "d \<noteq> [] \<Longrightarrow> length d \<le> limit \<Longrightarrow> fragments limit base d = [(base, d)]"
proof -
  assume d: "d \<noteq> []" "length d \<le> limit"
  then have "0 < length d" by simp
  then have n: "length d + limit - 1 = limit + (length d - 1)" "length d - 1 < limit" using d(2) by linarith+
  have "(length d + limit - 1) div limit = 1" unfolding n(1) using n(2) by (simp only: div_add_self1) simp
  then show ?thesis using d by (simp add: fragments_def)
qed

lemma fragments_more:
  assumes "0 < limit" "limit < length d"
  shows "fragments limit base d = (base OR POTR_FLAG_MORE_FRAG, take limit d) # fragments limit base (drop limit d)"
proof -
  define m where "m = (length (drop limit d) + limit - 1) div limit"
  have eq: "length d + limit - 1 = limit + (length (drop limit d) + limit - 1)" using assms by simp
  have n: "(length d + limit - 1) div limit = Suc m" unfolding eq m_def using assms(1) by (simp only: div_add_self1)
  have "limit * 1 \<le> length (drop limit d) + limit - 1" using assms by simp
  then have pos: "0 < m" unfolding m_def using assms(1) by (simp add: div_greater_zero_iff)
  show ?thesis
    unfolding fragments_def Let_def n m_def[symmetric] upt_conv_Cons[OF zero_less_Suc]
    by (simp add: map_Suc_upt[symmetric] pos add.commute del: upt_Suc map_Suc_upt)
qed

lemma fragments_induct [consumes 1, case_names Nil last more]:
  assumes "0 < limit" "P []" "\<And>d. d \<noteq> [] \<Longrightarrow> length d \<le> limit \<Longrightarrow> P d"
    and "\<And>d. limit < length d \<Longrightarrow> P (drop limit d) \<Longrightarrow> P d"
  shows "P (d :: bytes)"
proof (induction "length d" arbitrary: d rule: less_induct)
  case less
  then show ?case using assms by (cases "d = []"; cases "length d \<le> limit") auto
qed

lemma fragments_concat:
  assumes "0 < limit"
  shows "concat (map snd (fragments limit base d)) = d"
  using assms by (induction d rule: fragments_induct) (simp_all add: assms fragments_last fragments_more)

lemma fragments_bound:
  assumes "0 < limit"
  shows "\<forall>x\<in>set (fragments limit base d). snd x \<noteq> [] \<and> length (snd x) \<le> limit"
  using assms by (induction d rule: fragments_induct) (auto simp: assms fragments_last fragments_more)

lemma fragments_marks:
  assumes "0 < limit"
  shows "d \<noteq> [] \<Longrightarrow> base AND POTR_FLAG_MORE_FRAG = 0 \<Longrightarrow>
    map (\<lambda>x. fst x AND POTR_FLAG_MORE_FRAG \<noteq> 0) (fragments limit base d) = replicate (length (fragments limit base d) - 1) True @ [False]"
  using assms
proof (induction d rule: fragments_induct)
  case (more d)
  then have ne: "drop limit d \<noteq> []" by simp
  have "(base OR POTR_FLAG_MORE_FRAG) AND POTR_FLAG_MORE_FRAG \<noteq> 0" by (simp add: bit.conj_disj_distrib2)
  moreover have "fragments limit base (drop limit d) \<noteq> []"
    using fragments_concat[OF assms, of base "drop limit d"] ne by auto
  then obtain n where "length (fragments limit base (drop limit d)) = Suc n" by (cases "fragments limit base (drop limit d)") auto
  ultimately show ?case using more ne assms by (simp add: fragments_more)
qed (simp_all add: fragments_last)

text \<open>The compressor does not turn bytes into nothing.\<close>

definition compress_solid :: "cplat \<Rightarrow> bool" where
  "compress_solid E \<longleftrightarrow> (\<forall>cap pt ct. compress E cap pt = Some ct \<longrightarrow> pt \<noteq> [] \<longrightarrow> ct \<noteq> [])"

lemma send_encoding_cases:
  assumes "send_encoding E c d fl = Some (base, z)" "d \<noteq> []" "compress_solid E"
  shows "z \<noteq> [] \<and> base AND POTR_FLAG_MORE_FRAG = 0 \<and> length z \<le> length d \<and>
    (base AND POTR_FLAG_COMPRESSED = 0 \<and> z = d \<or> base AND POTR_FLAG_COMPRESSED \<noteq> 0 \<and> compress E (c_compress_buf_size c) d = Some z)"
  using assms by (auto simp: send_encoding_def compress_solid_def split: if_splits option.splits)

section \<open>What the send thread may do meanwhile\<close>

text \<open>
  \<open>env_takes\<close>: it takes elements from the front of the queue.  \<open>env_serves\<close>: it also makes room
  before each push goes on.  \<open>env_drains\<close>: it empties the queue before each wait for that ends.
\<close>

definition env_takes :: "nat \<Rightarrow> queue_env \<Rightarrow> bool" where
  "env_takes mp env \<longleftrightarrow> (\<forall>k q. sq_inv mp q \<longrightarrow> sq_inv mp (env k q) \<and> (\<exists>taken. sq_waiting q = taken @ sq_waiting (env k q)))"

definition env_serves :: "nat \<Rightarrow> queue_env \<Rightarrow> bool" where
  "env_serves mp env \<longleftrightarrow> env_takes mp env \<and>
     (\<forall>k q. sq_inv mp q \<longrightarrow> sq_count (env k q) + sq_inflight (env k q) < sq_depth (env k q))"

definition env_drains :: "nat \<Rightarrow> queue_env \<Rightarrow> bool" where
  "env_drains mp drain \<longleftrightarrow> (\<forall>k q. sq_inv mp q \<longrightarrow> sq_inv mp (drain k q) \<and> sq_waiting (drain k q) = [] \<and> sq_flying (drain k q) = [])"

lemma env_takesE:
  assumes "env_takes mp env" "sq_inv mp q"
  obtains taken where "sq_inv mp (env k q)" "sq_waiting q = taken @ sq_waiting (env k q)"
  using assms unfolding env_takes_def by blast

lemma push_wait_cases:
  assumes "send_queue_push_wait q pid fl d running = (r, sg, q')"
  shows "r = Done POTR_OK \<and> q' = send_queue_enqueue q pid fl d \<and> sq_count q + sq_inflight q < sq_depth q \<or>
    r = Done POTR_ERR_CANCELED \<and> \<not> running \<and> q' = q \<and> sq_depth q \<le> sq_count q + sq_inflight q \<or>
    r = Wait \<and> running \<and> q' = q \<and> sq_depth q \<le> sq_count q + sq_inflight q"
  using assms by (auto simp: send_queue_push_wait_def split: if_splits)

text \<open>
  The loop queues the elements in order.  Without a full queue it queues all; it gives up only
  when the send thread has stopped.
\<close>

lemma push_fragments_queues:
  assumes "env_takes mp env" "0 < limit" "limit \<le> mp" "sq_inv mp q"
    and "push_fragments env running pid limit base k q d = (r, q')"
  shows "sq_inv mp q' \<and> (\<exists>j taken. sq_waiting q @ map (Pair pid) (take j (fragments limit base d)) = taken @ sq_waiting q' \<and>
      (r = Done POTR_OK \<longrightarrow> j = length (fragments limit base d))) \<and> (env_serves mp env \<longrightarrow> r = Done POTR_OK)"
  using assms
proof (induction env running pid limit base k q d rule: push_fragments.induct)
  case (1 env running pid limit base k q d)
  let ?chunk = "if length d > limit then limit else length d"
  let ?fl = "if length d > ?chunk then base OR POTR_FLAG_MORE_FRAG else base"
  show ?case
  proof (cases "d = []")
    case True
    then show ?thesis using 1 by (auto simp: push_fragments.simps)
  next
    case False
    obtain t where t: "sq_inv mp (env k q)" "sq_waiting q = t @ sq_waiting (env k q)" by (rule env_takesE[OF 1(2,5)])
    obtain r1 sg q1 where p: "send_queue_push_wait (env k q) pid ?fl (take ?chunk d) running = (r1, sg, q1)" by (rule prod_cases3)
    have step: "push_fragments env running pid limit base k q d =
        (if r1 \<noteq> Done POTR_OK then (r1, q1) else push_fragments env running pid limit base (Suc k) q1 (drop ?chunk d))"
      using False 1(3) p by (subst push_fragments.simps) (simp add: Let_def)
    show ?thesis
    proof (cases "r1 = Done POTR_OK")
      case ok: True
      have room: "sq_count (env k q) + sq_inflight (env k q) < sq_depth (env k q)" and q1: "q1 = send_queue_enqueue (env k q) pid ?fl (take ?chunk d)"
        using push_wait_cases[OF p] ok by auto
      have len: "length (take ?chunk d) \<le> mp" using 1(4) by simp
      have inv1: "sq_inv mp q1" and w1: "sq_waiting q1 = sq_waiting (env k q) @ [(pid, ?fl, take ?chunk d)]"
        unfolding q1 using sq_enqueue_inv[OF t(1) len room] sq_enqueue_abs[OF t(1) len room] by simp_all
      have rest: "push_fragments env running pid limit base (Suc k) q1 (drop ?chunk d) = (r, q')" using 1(6) step ok by simp
      have fr: "fragments limit base d = (?fl, take ?chunk d) # fragments limit base (drop ?chunk d)"
        using False 1(3) by (auto simp: fragments_last fragments_more not_less)
      have IH: "sq_inv mp q' \<and> (\<exists>j taken. sq_waiting q1 @ map (Pair pid) (take j (fragments limit base (drop ?chunk d))) = taken @ sq_waiting q' \<and>
          (r = Done POTR_OK \<longrightarrow> j = length (fragments limit base (drop ?chunk d)))) \<and> (env_serves mp env \<longrightarrow> r = Done POTR_OK)"
        by (rule 1(1)[OF False _ refl refl refl refl p[symmetric] refl _ 1(2-4) inv1 rest]) (use 1(3) ok in simp_all)
      then obtain j taken where j: "sq_waiting q1 @ map (Pair pid) (take j (fragments limit base (drop ?chunk d))) = taken @ sq_waiting q'"
        "r = Done POTR_OK \<longrightarrow> j = length (fragments limit base (drop ?chunk d))" by blast
      have "sq_waiting q @ map (Pair pid) (take (Suc j) (fragments limit base d)) = (t @ taken) @ sq_waiting q'"
        using j(1) t(2) w1 fr by simp
      moreover have "r = Done POTR_OK \<longrightarrow> Suc j = length (fragments limit base d)" using j(2) fr by simp
      ultimately show ?thesis using IH by blast
    next
      case False
      then have "q' = env k q" "r = r1" "\<not> env_serves mp env"
        using push_wait_cases[OF p] 1(5,6) step by (auto simp: env_serves_def not_le[symmetric])
      then show ?thesis using t False by (auto intro!: exI[of _ 0])
    qed
  qed
qed

section \<open>What the call does\<close>

text \<open>The effect of a call on the queue: the elements \<open>xs\<close> were queued in order, whatever the send thread took.\<close>

definition queued :: "nat \<Rightarrow> potr_context \<Rightarrow> (potr_peer_id \<times> u16 \<times> bytes) list \<Rightarrow> potr_context \<Rightarrow> bool" where
  "queued mp c xs c' \<longleftrightarrow> c' = c\<lparr>c_send_queue := c_send_queue c'\<rparr> \<and> sq_inv mp (c_send_queue c') \<and>
     (\<exists>taken. sq_waiting (c_send_queue c) @ xs = taken @ sq_waiting (c_send_queue c'))"

lemma queued_refl: "sq_inv mp (c_send_queue c) \<Longrightarrow> queued mp c [] c"
  by (simp add: queued_def)

lemma queued_same:
  assumes "queued mp c xs c'"
  shows "c_global c' = c_global c \<and> c_service c' = c_service c \<and> sq_inv mp (c_send_queue c')"
proof -
  obtain q where "c' = c\<lparr>c_send_queue := q\<rparr>" using assms unfolding queued_def by blast
  then show ?thesis using assms unfolding queued_def by simp
qed

lemma queued_trans:
  assumes "queued mp c xs c1" "queued mp c1 ys c2"
  shows "queued mp c (xs @ ys) c2"
proof -
  obtain t u where t: "sq_waiting (c_send_queue c) @ xs = t @ sq_waiting (c_send_queue c1)"
    "sq_waiting (c_send_queue c1) @ ys = u @ sq_waiting (c_send_queue c2)"
    using assms by (auto simp: queued_def)
  then have "sq_waiting (c_send_queue c) @ xs @ ys = (t @ u) @ sq_waiting (c_send_queue c2)" by (metis append_assoc)
  moreover have "c2 = c\<lparr>c_send_queue := c_send_queue c2\<rparr>"
  proof -
    have "c2 = c1\<lparr>c_send_queue := c_send_queue c2\<rparr>" "c1 = c\<lparr>c_send_queue := c_send_queue c1\<rparr>" using assms by (simp_all add: queued_def)
    then have "c2 = (c\<lparr>c_send_queue := c_send_queue c1\<rparr>)\<lparr>c_send_queue := c_send_queue c2\<rparr>" by metis
    then show ?thesis by (rule trans) simp
  qed
  ultimately show ?thesis using assms(2) unfolding queued_def by blast
qed

lemma frag_limit_bounds:
  "64 \<le> unat (gc_max_payload (c_global c)) \<Longrightarrow>
   0 < frag_limit c \<and> frag_limit c \<le> unat (gc_max_payload (c_global c)) \<and> POTR_PAYLOAD_ELEM_HDR_SIZE + frag_limit c = pack_limit c"
  by (simp add: frag_limit_def pack_limit_def)

lemma wait_drained_empty: "send_queue_wait_drained q = Wait \<longleftrightarrow> sq_waiting q \<noteq> [] \<or> sq_flying q \<noteq> []"
  by (auto simp: send_queue_wait_drained_def sq_count_waiting)

lemma send_to_peer_queues:
  assumes "mp = unat (gc_max_payload (c_global c))" "64 \<le> mp" "sq_inv mp (c_send_queue c)" "env_serves mp env" "env_drains mp drain"
  shows "\<exists>c'. send_to_peer drain env c pid d fl base = (Done POTR_OK, c') \<and>
    queued mp c (map (Pair pid) (fragments (frag_limit c) base d)) c' \<and>
    (fl AND POTR_SEND_BLOCKING \<noteq> 0 \<longrightarrow> sq_waiting (c_send_queue c') = [] \<and> sq_flying (c_send_queue c') = [])"
proof -
  let ?b = "fl AND POTR_SEND_BLOCKING \<noteq> 0" and ?xs = "map (Pair pid) (fragments (frag_limit c) base d)"
  let ?q0 = "if ?b then drain 0 (c_send_queue c) else c_send_queue c"
  have dr: "sq_inv mp (drain k q) \<and> sq_waiting (drain k q) = [] \<and> sq_flying (drain k q) = []" if "sq_inv mp q" for k q
    using assms(5) that unfolding env_drains_def by blast
  obtain r q1 where p: "push_fragments env (c_send_thread_running c) pid (frag_limit c) base 0 ?q0 d = (r, q1)" by (meson surj_pair)
  have lim: "0 < frag_limit c" "frag_limit c \<le> mp" using frag_limit_bounds[of c] assms(1,2) by simp_all
  have tk: "env_takes mp env" using assms(4) by (simp add: env_serves_def)
  have q0: "sq_inv mp ?q0" using assms(3) dr by simp
  note pf = push_fragments_queues[OF tk lim q0 p]
  have r: "r = Done POTR_OK" and inv1: "sq_inv mp q1" using pf assms(4) by blast+
  then obtain t where t: "sq_waiting ?q0 @ ?xs = t @ sq_waiting q1" using pf by auto
  let ?q2 = "if ?b then drain 1 q1 else q1" and ?w = "sq_waiting (c_send_queue c)"
  have "\<exists>u. ?w @ ?xs = u @ sq_waiting ?q2" using t dr[OF inv1] by (cases ?b) auto
  then have "queued mp c ?xs (c\<lparr>c_send_queue := ?q2\<rparr>)" using dr[OF inv1] inv1 by (simp add: queued_def)
  moreover have "send_to_peer drain env c pid d fl base = (Done POTR_OK, c\<lparr>c_send_queue := ?q2\<rparr>)"
    unfolding send_to_peer_def Let_def p prod.case r using dr[OF assms(3)] dr[OF inv1] by (simp add: wait_drained_empty)
  ultimately show ?thesis using dr[OF inv1] by (intro exI[of _ "c\<lparr>c_send_queue := ?q2\<rparr>"]) simp
qed

lemma send_to_all_queues:
  assumes "mp = unat (gc_max_payload (c_global c))" "64 \<le> mp" "sq_inv mp (c_send_queue c)"
    and "\<forall>i. env_serves mp (env i)" "\<forall>i. env_drains mp (drain i)"
  shows "\<exists>c'. send_to_all drain env i ids d fl base POTR_OK c = (Done POTR_OK, c') \<and>
    queued mp c (concat (map (\<lambda>pid. map (Pair pid) (fragments (frag_limit c) base d)) ids)) c' \<and>
    (ids \<noteq> [] \<and> fl AND POTR_SEND_BLOCKING \<noteq> 0 \<longrightarrow> sq_waiting (c_send_queue c') = [] \<and> sq_flying (c_send_queue c') = [])"
  using assms(1,3)
proof (induction ids arbitrary: c i)
  case Nil
  then show ?case by (simp add: queued_refl)
next
  case (Cons pid ids)
  obtain c1 where c1: "send_to_peer (drain i) (env i) c pid d fl base = (Done POTR_OK, c1)"
    "queued mp c (map (Pair pid) (fragments (frag_limit c) base d)) c1"
    "fl AND POTR_SEND_BLOCKING \<noteq> 0 \<longrightarrow> sq_waiting (c_send_queue c1) = [] \<and> sq_flying (c_send_queue c1) = []"
    using send_to_peer_queues[OF Cons.prems(1) assms(2) Cons.prems(2)] assms(4,5) by blast
  have same: "c_global c1 = c_global c" "c_service c1 = c_service c" "sq_inv mp (c_send_queue c1)"
    using queued_same[OF c1(2)] by simp_all
  have lim: "frag_limit c1 = frag_limit c" by (simp add: frag_limit_def same)
  obtain c' where c': "send_to_all drain env (Suc i) ids d fl base POTR_OK c1 = (Done POTR_OK, c')"
    "queued mp c1 (concat (map (\<lambda>pid. map (Pair pid) (fragments (frag_limit c) base d)) ids)) c'"
    "ids \<noteq> [] \<and> fl AND POTR_SEND_BLOCKING \<noteq> 0 \<longrightarrow> sq_waiting (c_send_queue c') = [] \<and> sq_flying (c_send_queue c') = []"
    using Cons.IH[of c1 "Suc i"] Cons.prems(1) same lim by auto
  have "ids = [] \<Longrightarrow> c' = c1" using c'(1) by simp
  then show ?case using c1 c' queued_trans[OF c1(2) c'(2)] by (intro exI[of _ c']) auto
qed

text \<open>
  When a request is acceptable and connected, and where it goes: to the other end, to the
  named peer if it is connected, or to all connected peers.
\<close>

definition send_valid :: "potr_context \<Rightarrow> bytes option \<Rightarrow> bool" where
  "send_valid c data = (case data of None \<Rightarrow> False | Some d \<Rightarrow> d \<noteq> [] \<and> length d \<le> unat (gc_max_message_size (c_global c)))"

definition send_connected :: "potr_context \<Rightarrow> bool" where
  "send_connected c =
    ((is_tcp_type (sd_type (c_service c)) \<longrightarrow> t_active_paths (c_tcp c) \<noteq> 0) \<and>
     (is_tcp_type (sd_type (c_service c)) \<or> sd_type (c_service c) = POTR_TYPE_UNICAST_BIDIR \<longrightarrow> s_health_alive (c_slot c)))"

definition send_dests :: "potr_context \<Rightarrow> potr_peer_id \<Rightarrow> potr_peer_id list" where
  "send_dests c pid =
    (if \<not> c_is_multi_peer c then [POTR_PEER_NA]
     else if pid = POTR_PEER_NA then []
     else if pid = POTR_PEER_ALL then connected_ids c
     else (case peer_find_by_id c pid of
             None \<Rightarrow> []
           | Some i \<Rightarrow> if s_health_alive (p_slot (c_peers c ! i)) then [pid] else []))"

definition send_flags :: "potr_context \<Rightarrow> u32 \<Rightarrow> u32" where
  "send_flags c fl = (if is_raw_type (sd_type (c_service c)) then fl OR POTR_SEND_BLOCKING else fl)"

text \<open>The call, by its outcomes.\<close>

lemma service_send_eq:
  "potr_service_send E drain env c pid data fl =
    (if \<not> send_valid c data then (Done POTR_ERR_INVALID_ARGUMENT, c)
     else if c_close_requested c then (Done POTR_ERR_CANCELED, c)
     else if \<not> send_connected c then (Done POTR_ERR_DISCONNECTED, c)
     else case send_encoding E c (the data) (send_flags c fl) of
            None \<Rightarrow> (Done POTR_ERR_UNKNOWN, c)
          | Some (base, z) \<Rightarrow>
              if c_is_multi_peer c \<and> pid = POTR_PEER_ALL \<and> \<not> calloc_ok E (length (c_peers c)) 4 then (Done POTR_ERR_OUT_OF_MEMORY, c)
              else if send_dests c pid = []
              then (Done (if pid = POTR_PEER_NA then POTR_ERR_INVALID_ARGUMENT
                          else if pid \<noteq> POTR_PEER_ALL \<and> peer_find_by_id c pid = None then POTR_ERR_NOT_FOUND
                          else POTR_ERR_DISCONNECTED), c)
              else if c_is_multi_peer c \<and> pid = POTR_PEER_ALL
              then send_to_all drain env 0 (send_dests c pid) z (send_flags c fl) base POTR_OK c
              else send_to_peer (drain 0) (env 0) c (hd (send_dests c pid)) z (send_flags c fl) base)"
proof (cases data)
  case None
  then show ?thesis by (simp add: potr_service_send_def send_valid_def)
next
  case (Some d)
  then show ?thesis
    unfolding potr_service_send_def send_flags_def[symmetric] send_valid_def Let_def option.case
    by (auto simp: send_connected_def send_dests_def split: option.splits)
qed

lemma push_fragments_result:
  "push_fragments env running pid limit base k q d = (r, q') \<Longrightarrow>
   r = Wait \<or> r = Done POTR_OK \<or> r = Done POTR_ERR_CANCELED \<and> \<not> running"
proof (induction env running pid limit base k q d rule: push_fragments.induct)
  case (1 env running pid limit base k q d)
  then show ?case
    by (subst (asm) (2) push_fragments.simps)
      (auto simp: Let_def send_queue_push_wait_def split: if_splits)
qed

lemma send_to_peer_result:
  "send_to_peer drain env c pid d fl base = (r, c') \<Longrightarrow>
   (r = Wait \<or> r = Done POTR_OK \<or> r = Done POTR_ERR_CANCELED \<and> \<not> c_send_thread_running c) \<and>
   c_send_thread_running c' = c_send_thread_running c"
  using push_fragments_result[of env "c_send_thread_running c" pid "frag_limit c" base 0]
  by (fastforce simp: send_to_peer_def Let_def split: if_splits prod.splits)

lemma send_to_all_result:
  "send_to_all drain env i ids d fl base r0 c = (r, c') \<Longrightarrow> r0 = POTR_OK \<or> r0 = POTR_ERR_CANCELED \<and> \<not> c_send_thread_running c \<Longrightarrow>
   r = Wait \<or> r = Done POTR_OK \<or> r = Done POTR_ERR_CANCELED \<and> \<not> c_send_thread_running c"
proof (induction ids arbitrary: i r0 c)
  case (Cons pid ids)
  obtain r1 c1 where s: "send_to_peer (drain i) (env i) c pid d fl base = (r1, c1)" by (meson surj_pair)
  note res = send_to_peer_result[OF s]
  show ?case
  proof (cases r1)
    case (Done x)
    then have "send_to_all drain env (Suc i) ids d fl base (if r0 = POTR_OK \<and> x \<noteq> POTR_OK then x else r0) c1 = (r, c')"
      using Cons.prems(1) s by simp
    from Cons.IH[OF this] show ?thesis using res Cons.prems(2) Done by auto
  qed (use Cons.prems(1) s in simp)
qed auto

section \<open>Properties\<close>

text \<open>
  C7: The send call queues the message and nothing else.  While the send thread serves the queue,
  a valid request to a connected service returns success, and for each destination (the other
  end, one peer, or every connected peer) exactly the elements of the message have been queued in
  order.  They are the slices of the encoded message in closed form: joined they give the bytes
  back, each is non-empty and fits a container, and all but the last are marked.  When the request
  or the service type asks for blocking, the queue is empty and nothing is in flight on return.
\<close>

theorem service_send_queues_message:
  assumes "mp = unat (gc_max_payload (c_global c))" "64 \<le> mp" "sq_inv mp (c_send_queue c)"
    and "\<forall>i. env_serves mp (env i)" "\<forall>i. env_drains mp (drain i)" "compress_solid E"
    and "send_valid c (Some d)" "\<not> c_close_requested c" "send_connected c" "send_dests c pid \<noteq> []"
    and "send_encoding E c d (send_flags c fl) = Some (base, z)" "calloc_ok E (length (c_peers c)) 4"
  shows "(\<exists>c'. potr_service_send E drain env c pid (Some d) fl = (Done POTR_OK, c') \<and>
      queued mp c (concat (map (\<lambda>to. map (Pair to) (fragments (frag_limit c) base z)) (send_dests c pid))) c' \<and>
      (send_flags c fl AND POTR_SEND_BLOCKING \<noteq> 0 \<longrightarrow> sq_waiting (c_send_queue c') = [] \<and> sq_flying (c_send_queue c') = [])) \<and>
    concat (map snd (fragments (frag_limit c) base z)) = z \<and>
    (\<forall>x\<in>set (fragments (frag_limit c) base z). snd x \<noteq> [] \<and> POTR_PAYLOAD_ELEM_HDR_SIZE + length (snd x) \<le> pack_limit c) \<and>
    map (\<lambda>x. fst x AND POTR_FLAG_MORE_FRAG \<noteq> 0) (fragments (frag_limit c) base z) =
      replicate (length (fragments (frag_limit c) base z) - 1) True @ [False]"
proof (intro conjI)
  let ?fs = "fragments (frag_limit c) base z"
  have lim: "0 < frag_limit c" "POTR_PAYLOAD_ELEM_HDR_SIZE + frag_limit c = pack_limit c" using frag_limit_bounds[of c] assms(1,2) by simp_all
  have z: "z \<noteq> []" "base AND POTR_FLAG_MORE_FRAG = 0"
    using send_encoding_cases[OF assms(11) _ assms(6)] assms(7) by (simp_all add: send_valid_def)
  show "concat (map snd ?fs) = z" by (rule fragments_concat[OF lim(1)])
  show "\<forall>x\<in>set ?fs. snd x \<noteq> [] \<and> POTR_PAYLOAD_ELEM_HDR_SIZE + length (snd x) \<le> pack_limit c"
    using fragments_bound[OF lim(1), of base z] lim(2) by fastforce
  show "map (\<lambda>x. fst x AND POTR_FLAG_MORE_FRAG \<noteq> 0) ?fs = replicate (length ?fs - 1) True @ [False]" by (rule fragments_marks[OF lim(1) z])
  note eq = service_send_eq[of E drain env c pid "Some d" fl]
  show "\<exists>c'. potr_service_send E drain env c pid (Some d) fl = (Done POTR_OK, c') \<and>
      queued mp c (concat (map (\<lambda>to. map (Pair to) ?fs) (send_dests c pid))) c' \<and>
      (send_flags c fl AND POTR_SEND_BLOCKING \<noteq> 0 \<longrightarrow> sq_waiting (c_send_queue c') = [] \<and> sq_flying (c_send_queue c') = [])"
  proof (cases "c_is_multi_peer c \<and> pid = POTR_PEER_ALL")
    case True
    then show ?thesis using eq assms(7-12) send_to_all_queues[OF assms(1-5), of 0 "send_dests c pid" z "send_flags c fl" base] by simp
  next
    case False
    then have one: "send_dests c pid = [hd (send_dests c pid)]"
      using assms(10) by (auto simp: send_dests_def split: option.splits if_splits)
    have "potr_service_send E drain env c pid (Some d) fl =
        send_to_peer (drain 0) (env 0) c (hd (send_dests c pid)) z (send_flags c fl) base"
      using eq assms(7-12) False by auto
    moreover have "concat (map (\<lambda>to. map (Pair to) ?fs) (send_dests c pid)) = map (Pair (hd (send_dests c pid))) ?fs" by (subst one) simp
    ultimately show ?thesis
      using send_to_peer_queues[OF assms(1-3), of "env 0" "drain 0" "hd (send_dests c pid)" z "send_flags c fl" base] assms(4,5) by simp
  qed
qed

text \<open>
  C35: Refusals of the send call.  An invalid message is refused as such, a message to a closing
  service is cancelled, and one to a service that is not connected fails as disconnected; in all
  these cases, and when no destination is connected, nothing is queued.  A call that fails after
  it queued something does so only because the send thread has stopped, and says so.
\<close>

theorem service_send_refusals:
  assumes "potr_service_send E drain env c pid data fl = (r, c')"
  shows "(\<not> send_valid c data \<longrightarrow> r = Done POTR_ERR_INVALID_ARGUMENT \<and> c' = c) \<and>
    (send_valid c data \<and> c_close_requested c \<longrightarrow> r = Done POTR_ERR_CANCELED \<and> c' = c) \<and>
    (send_valid c data \<and> \<not> c_close_requested c \<and> \<not> send_connected c \<longrightarrow> r = Done POTR_ERR_DISCONNECTED \<and> c' = c) \<and>
    (send_dests c pid = [] \<longrightarrow> r \<noteq> Wait \<and> r \<noteq> Done POTR_OK \<and> c' = c) \<and>
    (r \<noteq> Wait \<and> r \<noteq> Done POTR_OK \<and> c' \<noteq> c \<longrightarrow> r = Done POTR_ERR_CANCELED \<and> \<not> c_send_thread_running c)"
proof (intro conjI impI)
  note eq = assms[unfolded service_send_eq]
  have late: "c' = c \<or> r = Wait \<or> r = Done POTR_OK \<or> r = Done POTR_ERR_CANCELED \<and> \<not> c_send_thread_running c"
    using eq by (auto split: if_splits option.splits dest!: send_to_peer_result send_to_all_result[OF _ disjI1[OF refl]])
  assume "r \<noteq> Wait \<and> r \<noteq> Done POTR_OK \<and> c' \<noteq> c"
  then show "r = Done POTR_ERR_CANCELED" "\<not> c_send_thread_running c" using late by auto
next
  assume "send_dests c pid = []"
  then show "r \<noteq> Wait" "r \<noteq> Done POTR_OK" "c' = c" using assms[unfolded service_send_eq] by (auto split: if_splits option.splits)
qed (use assms[unfolded service_send_eq] in auto)

section \<open>Witnesses\<close>

text \<open>
  A service for payloads of 64 bytes whose queue is emptied whenever the call looks at it, and a
  message of 60 bytes: two elements.
\<close>

definition emptied :: queue_env where
  "emptied k q = q\<lparr>sq_head := sq_tail q, sq_count := 0, sq_inflight := 0\<rparr>"

definition demo_calling :: potr_context where
  "demo_calling = demo_sending\<lparr>c_global := demo_global\<lparr>gc_max_payload := 64, gc_max_message_size := 100\<rparr>,
     c_slot := (c_slot demo_sending)\<lparr>s_health_alive := True\<rparr>\<rparr>"

lemma emptied_env: "env_serves mp emptied" "env_drains mp emptied"
proof -
  have inv: "sq_inv mp (emptied k q)" if "sq_inv mp q" for k q using that by (auto simp: sq_inv_def emptied_def)
  have "sq_waiting (emptied k q) = []" "sq_flying (emptied k q) = []" for k q
    by (simp_all add: sq_waiting_def sq_flying_def emptied_def)
  moreover have "sq_count (emptied k q) + sq_inflight (emptied k q) < sq_depth (emptied k q)" if "sq_inv mp q" for k q
    using sq_invD(1)[OF that] by (simp add: emptied_def)
  ultimately show "env_serves mp emptied" "env_drains mp emptied"
    using inv by (auto simp: env_serves_def env_takes_def env_drains_def)
qed

lemma demo_solid [simp]: "compress_solid demo_cplat"
  by (auto simp: compress_solid_def demo_cplat_def split: if_splits)

lemma demo_calling_facts:
  "unat (gc_max_payload (c_global demo_calling)) = 64" "sq_inv 64 (c_send_queue demo_calling)" "frag_limit demo_calling = 42"
  "\<not> c_is_multi_peer demo_calling" "\<not> c_close_requested demo_calling" "send_connected demo_calling" "\<not> is_raw_type (sd_type (c_service demo_calling))"
proof -
  show "sq_inv 64 (c_send_queue demo_calling)" using demo_sending_inv(1) by (simp add: demo_calling_def sender_inv_def demo_sending_def)
qed (simp_all add: demo_calling_def frag_limit_def demo_sending_def demo_secure_def demo_ctx_def demo_service_def send_connected_def)

theorem service_send_queues_message_witness:
  "\<exists>c'. potr_service_send demo_cplat (\<lambda>_. emptied) (\<lambda>_. emptied) demo_calling POTR_PEER_NA (Some (replicate 60 7)) POTR_SEND_BLOCKING = (Done POTR_OK, c') \<and>
     sq_waiting (c_send_queue c') = [] \<and> fragments (frag_limit demo_calling) 0 (replicate 60 7) = [(1, replicate 42 7), (0, replicate 18 7)]"
proof -
  have v: "send_valid demo_calling (Some (replicate 60 7))" by (simp add: send_valid_def demo_calling_def)
  have d: "send_dests demo_calling POTR_PEER_NA = [POTR_PEER_NA]" "send_flags demo_calling POTR_SEND_BLOCKING = POTR_SEND_BLOCKING"
    using demo_calling_facts by (simp_all add: send_dests_def send_flags_def)
  have e: "send_encoding demo_cplat demo_calling (replicate 60 7) (send_flags demo_calling POTR_SEND_BLOCKING) = Some (0, replicate 60 7)"
    by (simp add: d(2) send_encoding_def)
  have "calloc_ok demo_cplat (length (c_peers demo_calling)) 4" by (simp add: demo_cplat_def)
  from service_send_queues_message[OF refl _ _ _ _ demo_solid v demo_calling_facts(5,6) _ e this, of "\<lambda>_. emptied" "\<lambda>_. emptied" POTR_PEER_NA]
  show ?thesis using demo_calling_facts(1-3) emptied_env d by (auto simp: fragments_def upt_rec Let_def)
qed

theorem service_send_refusals_witness:
  "fst (potr_service_send demo_cplat (\<lambda>_. emptied) (\<lambda>_. emptied) demo_calling POTR_PEER_NA (Some (replicate 101 7)) 0) = Done POTR_ERR_INVALID_ARGUMENT \<and>
   fst (potr_service_send demo_cplat (\<lambda>_. emptied) (\<lambda>_. emptied) (demo_calling\<lparr>c_slot := c_slot demo_sending\<rparr>) POTR_PEER_NA (Some [7]) 0) =
     Done POTR_ERR_DISCONNECTED"
proof -
  let ?c = "demo_calling\<lparr>c_slot := c_slot demo_sending\<rparr>"
  obtain r c' where 1: "potr_service_send demo_cplat (\<lambda>_. emptied) (\<lambda>_. emptied) demo_calling POTR_PEER_NA (Some (replicate 101 7)) 0 = (r, c')"
    by (meson surj_pair)
  obtain s d' where 2: "potr_service_send demo_cplat (\<lambda>_. emptied) (\<lambda>_. emptied) ?c POTR_PEER_NA (Some [7]) 0 = (s, d')" by (meson surj_pair)
  have v: "\<not> send_valid demo_calling (Some (replicate 101 7))" "send_valid ?c (Some [7])" "\<not> c_close_requested ?c" "\<not> send_connected ?c"
    by (simp_all add: send_valid_def send_connected_def demo_calling_def demo_sending_def demo_secure_def demo_ctx_def demo_service_def slot_zero_def)
  show ?thesis using service_send_refusals[OF 1] service_send_refusals[OF 2] v 1 2 by simp
qed

end
