(* ===== verification/Message_Flow.thy ===== *)
theory Message_Flow
  imports Service_Send
begin

text \<open>
  From the send call to the callback at the other end.  A run of the sending side interleaves
  the pushes of the send call with turns of the send thread; what it sent on one path, received
  in order, is handed to the delivery code of the receiver.  The order is what the receive
  window provides.
\<close>

unbundle bit_operations_syntax

section \<open>Delivery of one message\<close>

text \<open>The elements of a message in the order of the queue.\<close>

definition message_items :: "cplat \<Rightarrow> potr_context \<Rightarrow> u32 \<times> bytes \<Rightarrow> (potr_peer_id \<times> u16 \<times> bytes) list" where
  "message_items E c m =
    (case send_encoding E c (snd m) (send_flags c (fst m)) of
       None \<Rightarrow> []
     | Some (base, z) \<Rightarrow> map (Pair POTR_PEER_NA) (fragments (frag_limit c) base z))"

text \<open>A receiver that is connected and not in the middle of a message.\<close>

definition expecting :: "potr_context \<Rightarrow> bool" where
  "expecting d \<longleftrightarrow> s_health_alive (c_slot d) \<and> c_callback d \<and> s_frag_buf (c_slot d) = []"

definition receiver_as :: "potr_context \<Rightarrow> potr_service_def \<times> potr_global_config \<times> nat \<times> nat" where
  "receiver_as d = (c_service d, c_global d, c_crypto_buf_size d, c_compress_buf_size d)"

lemma receiver_as_deliver: "receiver_as (slot_deliver_payload_elem E d CtxSlot e) = receiver_as d"
  by (simp add: receiver_as_def slot_deliver_payload_elem_def Let_def slot_recv_deliver_def callback_emit_def
      callback_emit_locked_def emit_def upd_slot_def split: option.split)

lemma receiver_as_fold: "receiver_as (fold (\<lambda>e c. slot_deliver_payload_elem E c CtxSlot e) es d) = receiver_as d"
  by (induction es arbitrary: d) (simp_all add: receiver_as_deliver)

lemma callback_deliver: "c_callback (slot_deliver_payload_elem E d CtxSlot e) = c_callback d"
  by (simp add: slot_deliver_payload_elem_def Let_def slot_recv_deliver_def callback_emit_def
      callback_emit_locked_def emit_def upd_slot_def split: option.split)

lemma callback_fold: "c_callback (fold (\<lambda>e c. slot_deliver_payload_elem E c CtxSlot e) es d) = c_callback d"
  by (induction es arbitrary: d) (simp_all add: callback_deliver)

lemma fragments_shape:
  assumes "0 < limit"
  shows "d \<noteq> [] \<Longrightarrow> \<exists>bs b. fragments limit base d = map (Pair (base OR POTR_FLAG_MORE_FRAG)) bs @ [(base, b)]"
  using assms
proof (induction d rule: fragments_induct)
  case (more d)
  then obtain bs b where "fragments limit base (drop limit d) = map (Pair (base OR POTR_FLAG_MORE_FRAG)) bs @ [(base, b)]" by auto
  then show ?case using more assms by (intro exI[of _ "take limit d # bs"]) (simp add: fragments_more)
qed (simp_all add: fragments_last)

text \<open>The elements of a message cause exactly its callback, and the receiver expects the next message.\<close>

lemma message_delivered:
  fixes E :: cplat
  assumes "expecting d" "map (\<lambda>e. (flags e, payload e)) es = fragments limit base z" "0 < limit" "z \<noteq> []"
    and "base AND POTR_FLAG_MORE_FRAG = 0" "length z \<le> unat (gc_max_message_size (c_global d))"
    and "\<forall>e\<in>set es. unat (payload_len e) = length (payload e)"
  defines "d' \<equiv> fold (\<lambda>e c. slot_deliver_payload_elem E c CtxSlot e) es d"
  shows "c_trace d' = c_trace d @ delivered E (c_compress_buf_size d) POTR_PEER_NA z (base AND POTR_FLAG_COMPRESSED \<noteq> 0) \<and> expecting d'"
proof -
  obtain bs b where fs: "fragments limit base z = map (Pair (base OR POTR_FLAG_MORE_FRAG)) bs @ [(base, b)]"
    using fragments_shape[OF assms(3,4)] by blast
  then have "es \<noteq> []" using assms(2) by auto
  then obtain ms e where es: "es = ms @ [e]" by (cases es rule: rev_cases) auto
  have "map (\<lambda>e. (flags e, payload e)) ms @ [(flags e, payload e)] = map (Pair (base OR POTR_FLAG_MORE_FRAG)) bs @ [(base, b)]"
    using assms(2) unfolding fs es by simp
  then have ms: "map (\<lambda>e. (flags e, payload e)) ms = map (Pair (base OR POTR_FLAG_MORE_FRAG)) bs" and e: "flags e = base" "payload e = b"
    by simp_all
  have z: "concat (map payload es) = z"
    using fragments_concat[OF assms(3), of base z] by (simp add: assms(2)[symmetric] comp_def)
  have m: "flags x = base OR POTR_FLAG_MORE_FRAG" if "x \<in> set ms" for x
  proof -
    have "(flags x, payload x) \<in> set (map (Pair (base OR POTR_FLAG_MORE_FRAG)) bs)" unfolding ms[symmetric] using that by simp
    then show ?thesis by auto
  qed
  have "(flags x, payload x) \<in> set (fragments limit base z)" if "x \<in> set es" for x
    unfolding assms(2)[symmetric] using that by simp
  then have ne: "payload x \<noteq> []" if "x \<in> set es" for x using fragments_bound[OF assms(3), of base z] that by fastforce
  have more: "(base OR POTR_FLAG_MORE_FRAG) AND POTR_FLAG_MORE_FRAG \<noteq> 0"
    "(base OR POTR_FLAG_MORE_FRAG) AND POTR_FLAG_COMPRESSED = base AND POTR_FLAG_COMPRESSED"
    by (simp_all add: bit.conj_disj_distrib2)
  have fin: "is_final e" using e assms(5,7) es by (simp add: is_final_def)
  have cb: "c_callback d'" using assms(1) unfolding d'_def callback_fold by (simp add: expecting_def)
  show ?thesis
  proof (cases "ms = []")
    case True
    have "d' = d\<lparr>c_trace := c_trace d @ delivered E (c_compress_buf_size d) POTR_PEER_NA z (base AND POTR_FLAG_COMPRESSED \<noteq> 0)\<rparr>"
      using assms(1) fin True e z es
      by (simp add: d'_def slot_deliver_payload_elem_def expecting_def is_final_def recv_deliver_eq elem_data_def Let_def)
    then show ?thesis using assms(1) by (simp add: expecting_def)
  next
    case False
    have mid: "\<forall>x\<in>set ms. is_middle x" using m ne more assms(7) es by (simp add: is_middle_def)
    have hd: "flags (hd ms) AND POTR_FLAG_COMPRESSED = base AND POTR_FLAG_COMPRESSED" using m more False by simp
    have "c_trace d' = c_trace d @ delivered E (c_compress_buf_size d) (slot_peer_id d CtxSlot)
           (concat (map payload (ms @ [e]))) (flags (hd ms) AND POTR_FLAG_COMPRESSED \<noteq> 0) \<and>
        get_slot d' CtxSlot = (get_slot d CtxSlot)\<lparr>s_frag_compressed := False\<rparr>"
      unfolding d'_def es by (rule reassembly[OF _ _ _ _ False mid fin]) (use assms(1,6) z es in \<open>simp_all add: expecting_def\<close>)
    then show ?thesis using z es hd cb assms(1) by (simp add: expecting_def)
  qed
qed

text \<open>A sequence of messages.\<close>

lemma messages_delivered:
  assumes "expecting d" "compress_ok E" "compress_solid E" "0 < frag_limit c"
    and "map (\<lambda>e. (flags e, payload e)) es = map snd (concat (map (message_items E c) ms))"
    and "\<forall>e\<in>set es. unat (payload_len e) = length (payload e)"
    and "\<forall>m\<in>set ms. snd m \<noteq> [] \<and> length (snd m) \<le> unat (gc_max_message_size (c_global d)) \<and> length (snd m) \<le> c_compress_buf_size d \<and>
      send_encoding E c (snd m) (send_flags c (fst m)) \<noteq> None"
  shows "c_trace (fold (\<lambda>e c. slot_deliver_payload_elem E c CtxSlot e) es d) =
    c_trace d @ map (\<lambda>m. Io_callback POTR_PEER_NA (POTR_EVENT_DATA (snd m))) ms"
  using assms(1,5-7)
proof (induction ms arbitrary: d es)
  case (Cons m ms)
  obtain base z where enc: "send_encoding E c (snd m) (send_flags c (fst m)) = Some (base, z)" using Cons.prems(4) by fastforce
  note zc = send_encoding_cases[OF enc _ assms(3)]
  obtain es1 es2 where es: "es = es1 @ es2" "map (\<lambda>e. (flags e, payload e)) es1 = fragments (frag_limit c) base z"
    "map (\<lambda>e. (flags e, payload e)) es2 = map snd (concat (map (message_items E c) ms))"
    using Cons.prems(2) enc by (auto simp: message_items_def[of E c m] map_eq_append_conv comp_def)
  let ?d1 = "fold (\<lambda>e c. slot_deliver_payload_elem E c CtxSlot e) es1 d"
  have len: "length z \<le> unat (gc_max_message_size (c_global d))" using zc Cons.prems(4) by (meson le_trans list.set_intros(1))
  have one: "c_trace ?d1 = c_trace d @ delivered E (c_compress_buf_size d) POTR_PEER_NA z (base AND POTR_FLAG_COMPRESSED \<noteq> 0) \<and> expecting ?d1"
    by (rule message_delivered[OF Cons.prems(1) es(2) assms(4) _ _ len]) (use zc Cons.prems(3,4) es(1) in simp_all)
  have "delivered E (c_compress_buf_size d) POTR_PEER_NA z (base AND POTR_FLAG_COMPRESSED \<noteq> 0) = [Io_callback POTR_PEER_NA (POTR_EVENT_DATA (snd m))]"
    using zc Cons.prems(4) assms(2) by (auto simp: delivered_def compress_ok_def)
  moreover have "receiver_as ?d1 = receiver_as d" by (rule receiver_as_fold)
  then have "c_trace (fold (\<lambda>e c. slot_deliver_payload_elem E c CtxSlot e) es2 ?d1) =
      c_trace ?d1 @ map (\<lambda>m. Io_callback POTR_PEER_NA (POTR_EVENT_DATA (snd m))) ms"
    by (intro Cons.IH) (use one es Cons.prems(3,4) in \<open>simp_all add: receiver_as_def\<close>)
  ultimately show ?case using one es(1) by simp
qed simp

section \<open>Runs of the sending side\<close>

text \<open>
  The steps of a 1:1 sender: the send call queues an element that fits, or the send thread takes
  a turn.  \<open>its\<close> collects the queued elements.
\<close>

inductive sender_run :: "cplat \<Rightarrow> potr_context \<Rightarrow> (potr_peer_id \<times> u16 \<times> bytes) list \<Rightarrow> potr_context \<Rightarrow> bool"
  for E c0
where
  run_start: "sender_run E c0 [] c0"
| run_push: "sender_run E c0 its c \<Longrightarrow> item_fits c x \<Longrightarrow>
    send_queue_push_wait (c_send_queue c) (fst x) (fst (snd x)) (snd (snd x)) (c_send_thread_running c) = (Done POTR_OK, sg, q) \<Longrightarrow>
    sender_run E c0 (its @ [x]) (c\<lparr>c_send_queue := q\<rparr>)"
| run_turn: "sender_run E c0 its c \<Longrightarrow> send_turn E (\<lambda>k q. q) c = Done (Some c') \<Longrightarrow> sender_run E c0 its c'"

text \<open>The datagrams sent on a path, and what a receiver makes of datagrams.\<close>

definition sent_on :: "nat \<Rightarrow> io list \<Rightarrow> bytes list" where
  "sent_on k tr = concat (map (\<lambda>x. case x of Io_sendto j _ w \<Rightarrow> if j = k then [w] else [] | _ \<Rightarrow> []) tr)"

definition unpacked :: "cplat \<Rightarrow> potr_context \<Rightarrow> bytes \<Rightarrow> potr_packet list" where
  "unpacked E d w = (case receive_wire E d w of Inl _ \<Rightarrow> [] | Inr pkt \<Rightarrow> unpack_all E pkt 0)"

definition deliver_wire :: "cplat \<Rightarrow> bytes \<Rightarrow> potr_context \<Rightarrow> potr_context" where
  "deliver_wire E w d = fold (\<lambda>e c. slot_deliver_payload_elem E c CtxSlot e) (unpacked E d w) d"

lemma unpacked_cong: "receiver_as d' = receiver_as d \<Longrightarrow> unpacked E d' w = unpacked E d w"
proof -
  assume a: "receiver_as d' = receiver_as d"
  have au: "authenticate_packet E d' = authenticate_packet E d"
    using a by (intro ext) (simp add: authenticate_packet_def Let_def receiver_as_def)
  show ?thesis unfolding unpacked_def receive_wire_def au ..
qed

lemma deliver_wires_eq:
  "fold (deliver_wire E) ws d = fold (\<lambda>e c. slot_deliver_payload_elem E c CtxSlot e) (concat (map (unpacked E d) ws)) d"
proof (induction ws arbitrary: d)
  case (Cons w ws)
  have "unpacked E (deliver_wire E w d) = unpacked E d"
    by (intro ext unpacked_cong) (simp add: deliver_wire_def receiver_as_fold)
  then show ?case using Cons[of "deliver_wire E w d"] by (simp add: deliver_wire_def)
qed simp

lemma sent_on_append: "sent_on k (a @ b) = sent_on k a @ sent_on k b"
  by (simp add: sent_on_def)

lemma sent_on_paths: "sent_on k (map (\<lambda>j. Io_sendto j (f j) w) [0..<n]) = (if k < n then [w] else [])"
  by (induction n) (auto simp: sent_on_def)

lemma sent_on_wake: "set wake \<subseteq> {Io_wake_health 0} \<Longrightarrow> sent_on k wake = []"
  by (induction wake) (auto simp: sent_on_def)

text \<open>The stream of elements that a path carries, followed by what still waits, is what was queued.\<close>

definition carries :: "cplat \<Rightarrow> potr_context \<Rightarrow> io list \<Rightarrow> (u16 \<times> bytes) list \<Rightarrow> bool" where
  "carries E c tr xs \<longleftrightarrow> (\<forall>k d. k < c_n_path c \<and> sealed_by c d \<and> unat (gc_max_payload (c_global c)) \<le> c_crypto_buf_size d \<longrightarrow>
     (let es = concat (map (unpacked E d) (sent_on k tr))
      in map (\<lambda>e. (flags e, payload e)) es = xs \<and> (\<forall>e\<in>set es. unat (payload_len e) = length (payload e))))"

lemma carries_cong: "opened_as c' = opened_as c \<Longrightarrow> carries E c' = carries E c"
  by (intro ext) (simp add: carries_def opened_as_def sealed_by_def)

lemma carries_append: "carries E c tr xs \<Longrightarrow> carries E c tr' ys \<Longrightarrow> carries E c (tr @ tr') (xs @ ys)"
  by (auto simp: carries_def sent_on_append Let_def)

lemma turn_carries:
  assumes "byteorder_ok E" "crypto_ok E" "encrypt_total E" "sender_inv E c" "\<not> c_is_multi_peer c" "\<not> is_tcp_type (sd_type (c_service c))"
    and "send_turn E (\<lambda>k q. q) c = Done (Some c')"
  shows "sender_inv E c' \<and> opened_as c' = opened_as c \<and>
    (\<exists>tr xs. c_trace c' = c_trace c @ tr \<and> carries E c tr (map snd xs) \<and> sq_waiting (c_send_queue c) = xs @ sq_waiting (c_send_queue c'))"
proof -
  have "sq_count (c_send_queue c) \<noteq> 0" using assms(7) by (auto simp: send_turn_def send_queue_pop_def split: if_splits)
  then obtain x rest where w: "sq_waiting (c_send_queue c) = x # rest" by (cases "sq_waiting (c_send_queue c)") (auto simp: sq_count_waiting)
  have ev: "env_pushes (unat (gc_max_payload (c_global c))) (\<lambda>_. False) (\<lambda>k q. q)" by (auto simp: env_pushes_def)
  have none: "\<forall>y. False \<longrightarrow> item_fits c y" by simp
  obtain c1 xs ys wire wake where t: "send_turn E (\<lambda>k q. q) c = Done (Some c1)" "sender_inv E c1"
    "sq_waiting (c_send_queue c) @ ys = xs @ sq_waiting (c_send_queue c1)"
    "c_trace c1 = c_trace c @ map (\<lambda>k. Io_sendto k (s_dest_addr (c_slot c) ! k) wire) [0..<c_n_path c] @ wake" "set wake \<subseteq> {Io_wake_health 0}"
    and r: "\<forall>d. sealed_by c d \<and> unat (gc_max_payload (c_global c)) \<le> c_crypto_buf_size d \<longrightarrow>
       (\<exists>pkt. receive_wire E d wire = Inr pkt \<and> flags pkt = POTR_FLAG_DATA \<and> seq_num pkt = win_next_seq (s_send_window (c_slot c)) \<and>
          map (\<lambda>e. (flags e, payload e)) (unpack_all E pkt 0) = map snd xs \<and>
          (\<forall>e\<in>set (unpack_all E pkt 0). unat (payload_len e) = length (payload e)))"
    and same: "\<forall>y\<in>set ys. False" "c_global c1 = c_global c" "c_service c1 = c_service c" "c_n_path c1 = c_n_path c" "c_is_multi_peer c1 = c_is_multi_peer c"
    using send_turn_container[OF assms(1-4) ev none assms(5,6) w] by (elim exE conjE) (rule that; assumption)
  have c': "c1 = c'" using t(1) assms(7) by simp
  have ys: "ys = []" using same(1) by (cases ys) auto
  have "opened_as c1 = opened_as c" using same t(2) assms(4) by (simp add: opened_as_def sender_inv_def)
  moreover have "carries E c (map (\<lambda>k. Io_sendto k (s_dest_addr (c_slot c) ! k) wire) [0..<c_n_path c] @ wake) (map snd xs)"
    using r by (fastforce simp: carries_def sent_on_append sent_on_paths sent_on_wake[OF t(5)] unpacked_def Let_def)
  ultimately show ?thesis using t(2-4) ys c' by auto
qed

lemma sender_run_carries:
  assumes "sender_run E c0 its c" "byteorder_ok E" "crypto_ok E" "encrypt_total E" "sender_inv E c0" "sq_waiting (c_send_queue c0) = []"
    and "\<not> c_is_multi_peer c0" "\<not> is_tcp_type (sd_type (c_service c0))"
  shows "sender_inv E c \<and> opened_as c = opened_as c0 \<and>
    (\<exists>tr xs. c_trace c = c_trace c0 @ tr \<and> carries E c0 tr (map snd xs) \<and> its = xs @ sq_waiting (c_send_queue c))"
  using assms(1)
proof (induction rule: sender_run.induct)
  case run_start
  have "carries E c0 [] (map snd [])" by (simp add: carries_def sent_on_def)
  then show ?case using assms(5,6) by (metis append_Nil append_Nil2)
next
  case (run_push its c x sg q)
  let ?mp = "unat (gc_max_payload (c_global c))"
  note inv = run_push.IH[THEN conjunct1, unfolded sender_inv_def]
  have q: "q = send_queue_enqueue (c_send_queue c) (fst x) (fst (snd x)) (snd (snd x))"
    and room: "sq_count (c_send_queue c) + sq_inflight (c_send_queue c) < sq_depth (c_send_queue c)"
    using push_wait_cases[OF run_push.hyps(3)] by auto
  have len: "length (snd (snd x)) \<le> ?mp" using run_push.hyps(2) by (simp add: item_fits_def pack_limit_def)
  have qi: "sq_inv ?mp q" "sq_waiting q = sq_waiting (c_send_queue c) @ [x]" "sq_flying q = []"
    unfolding q using sq_enqueue_inv[OF _ len room] sq_enqueue_abs[OF _ len room] inv by simp_all
  have fit: "item_fits (c\<lparr>c_send_queue := q\<rparr>) = item_fits c" by (simp add: fun_eq_iff item_fits_def pack_limit_def)
  have "sender_inv E (c\<lparr>c_send_queue := q\<rparr>)" using inv qi run_push.hyps(2) unfolding sender_inv_def fit by simp
  moreover have "opened_as (c\<lparr>c_send_queue := q\<rparr>) = opened_as c" by (simp add: opened_as_def)
  ultimately show ?case using run_push.IH qi(2) by auto
next
  case (run_turn its c c')
  note op = opened_asD[OF conjunct1[OF conjunct2[OF run_turn.IH]]]
  have m: "\<not> c_is_multi_peer c" "\<not> is_tcp_type (sd_type (c_service c))" using op assms(7,8) by simp_all
  obtain tr xs where tr: "c_trace c = c_trace c0 @ tr" "carries E c0 tr (map snd xs)" "its = xs @ sq_waiting (c_send_queue c)" using run_turn.IH by blast
  obtain tr' ys where tr': "c_trace c' = c_trace c @ tr'" "carries E c tr' (map snd ys)" "sq_waiting (c_send_queue c) = ys @ sq_waiting (c_send_queue c')"
    "sender_inv E c'" "opened_as c' = opened_as c"
    using turn_carries[OF assms(2-4) conjunct1[OF run_turn.IH] m run_turn.hyps(2)] by blast
  have "carries E c0 tr' (map snd ys)" using tr'(2) carries_cong[of c c0] run_turn.IH by simp
  then have "carries E c0 (tr @ tr') (map snd (xs @ ys))" using carries_append[OF tr(2)] by simp
  moreover have "its = (xs @ ys) @ sq_waiting (c_send_queue c')" "c_trace c' = c_trace c0 @ tr @ tr'" using tr tr' by simp_all
  ultimately show ?case using tr'(4,5) run_turn.IH by auto
qed

section \<open>Properties\<close>


section \<open>Witness\<close>

text \<open>The encrypting service of before with an empty queue sends one message to a service like itself.\<close>

definition demo_idle :: potr_context where
  "demo_idle = demo_calling\<lparr>c_send_queue := snd (send_queue_init demo_cplat (\<lambda>_. True) 2 64)\<rparr>"

lemma demo_idle_facts:
  "sender_inv demo_cplat demo_idle" "sq_waiting (c_send_queue demo_idle) = []" "\<not> c_is_multi_peer demo_idle"
  "\<not> is_tcp_type (sd_type (c_service demo_idle))" "expecting demo_idle"
  "message_items demo_cplat demo_idle (0, [1, 2, 3]) = [(0, 0, [1, 2, 3])]"
  "sq_count (c_send_queue demo_idle) + sq_inflight (c_send_queue demo_idle) < sq_depth (c_send_queue demo_idle)"
proof -
  let ?q = "snd (send_queue_init demo_cplat (\<lambda>_. True) 2 64)"
  have "send_queue_init demo_cplat (\<lambda>_. True) 2 64 = (POTR_OK, ?q)" by (simp add: send_queue_init_def demo_cplat_def Let_def)
  then have q: "sq_inv (unat (64 :: u16)) ?q" "sq_waiting ?q = []" "sq_flying ?q = []" "sq_depth ?q = 2"
    using sq_init_spec[of demo_cplat "\<lambda>_. True" 2 64 ?q] by simp_all
  show "sender_inv demo_cplat demo_idle"
    using demo_sending_inv(1) q by (simp add: sender_inv_def demo_idle_def demo_calling_def demo_sending_def)
  show "sq_count (c_send_queue demo_idle) + sq_inflight (c_send_queue demo_idle) < sq_depth (c_send_queue demo_idle)"
    using q by (simp add: demo_idle_def sq_count_waiting)
  show "sq_waiting (c_send_queue demo_idle) = []" using q by (simp add: demo_idle_def)
  show "\<not> c_is_multi_peer demo_idle" "\<not> is_tcp_type (sd_type (c_service demo_idle))" "expecting demo_idle"
    by (simp_all add: demo_idle_def demo_calling_def demo_sending_def demo_secure_def demo_ctx_def demo_service_def slot_zero_def expecting_def)
  have f: "frag_limit demo_idle = 42" "send_flags demo_idle 0 = 0"
    using demo_calling_facts(3,7) by (simp_all add: demo_idle_def frag_limit_def send_flags_def)
  show "message_items demo_cplat demo_idle (0, [1, 2, 3]) = [(0, 0, [1, 2, 3])]"
    by (simp add: message_items_def f send_encoding_def fragments_def upt_rec)
qed


end
