(* ===== verification/Platform.thy ===== *)
theory Platform
  imports Context
begin

text \<open>
  Calls to the platform library that open, start and stop a service.  One call takes the outcome
  that the environment gives for the current tick.  Joining a thread lets it finish: what the
  thread still does before it ends is part of the environment, as are the outcome of a memory
  allocation, the sizes of structures and whether a socket handle survives a shutdown.
\<close>

definition plat_call :: "potr_context \<Rightarrow> (nat \<Rightarrow> 'a) \<Rightarrow> 'a \<times> potr_context" where
  "plat_call c f = (f (c_tick c), c\<lparr>c_tick := Suc (c_tick c)\<rparr>)"

datatype thread_id = Send_thread | Recv_thread nat | Health_thread nat | Connect_thread nat

record runtime =
  rt_rest :: "thread_id \<Rightarrow> potr_context \<Rightarrow> potr_context"
  rt_malloc_ok :: "nat \<Rightarrow> nat \<Rightarrow> bool"
  rt_shutdown_keeps :: "nat \<Rightarrow> bool"
  rt_peer_size :: nat
  rt_context_size :: nat
  rt_compress_header_size :: nat

definition thread_join :: "cplat \<Rightarrow> runtime \<Rightarrow> thread_id \<Rightarrow> potr_context \<Rightarrow> bool \<times> potr_context" where
  "thread_join E R t c = (let (ok, c1) = plat_call c (thread_join_ok E) in if ok then (True, rt_rest R t c1) else (False, c1))"

definition malloc :: "runtime \<Rightarrow> nat \<Rightarrow> potr_context \<Rightarrow> bool \<times> potr_context" where
  "malloc R bytes c = plat_call c (\<lambda>n. rt_malloc_ok R n bytes)"

text \<open>A sequence of calls that stops at the first failure.\<close>

fun all_ok :: "('a \<Rightarrow> potr_context \<Rightarrow> bool \<times> potr_context) \<Rightarrow> 'a list \<Rightarrow> potr_context \<Rightarrow> bool \<times> potr_context" where
  "all_ok f [] c = (True, c)"
| "all_ok f (x # xs) c = (let (ok, c1) = f x c in if ok then all_ok f xs c1 else (False, c1))"

text \<open>What is kept by each call is kept by the sequence.\<close>

lemma all_ok_inv:
  assumes "all_ok f xs c = (b, c')" "P c" "\<And>x c b c'. x \<in> set xs \<Longrightarrow> f x c = (b, c') \<Longrightarrow> P c \<Longrightarrow> P c'"
  shows "P c'"
  using assms
proof (induction xs arbitrary: c)
  case (Cons a xs)
  obtain ok c1 where a: "f a c = (ok, c1)" by (meson surj_pair)
  have P: "P c1" by (rule Cons.prems(3)[OF _ a Cons.prems(2)]) simp
  show ?case
  proof (cases ok)
    case True
    show ?thesis by (rule Cons.IH[OF _ P]) (use Cons.prems a True in auto)
  qed (use Cons.prems(1) a P in simp)
qed simp

text \<open>When every call succeeds, what each establishes and the others keep holds for all.\<close>

lemma all_ok_all:
  assumes "P c" "\<And>x c. x \<in> set xs \<Longrightarrow> P c \<Longrightarrow> \<exists>c'. f x c = (True, c') \<and> P c' \<and> Q x c' \<and> (\<forall>y. Q y c \<longrightarrow> Q y c')"
  shows "\<exists>c'. all_ok f xs c = (True, c') \<and> P c' \<and> (\<forall>x\<in>set xs. Q x c') \<and> (\<forall>y. Q y c \<longrightarrow> Q y c')"
  using assms
proof (induction xs arbitrary: c)
  case (Cons a xs)
  from Cons.prems(2)[of a c] Cons.prems(1)
  obtain c1 where a: "f a c = (True, c1)" "P c1" "Q a c1" "\<forall>y. Q y c \<longrightarrow> Q y c1" by auto
  from Cons.IH[OF a(2) Cons.prems(2)] obtain c2
    where "all_ok f xs c1 = (True, c2)" "P c2" "\<forall>x\<in>set xs. Q x c2" "\<forall>y. Q y c1 \<longrightarrow> Q y c2" by auto
  then show ?case using a by auto
qed simp

end
