(* ===== verification/Open_Paths.thy ===== *)
theory Open_Paths
  imports Peer_Table Platform
begin

text \<open>
  Preparing the paths of a service when it opens (\<^verbatim>\<open>api/api_open_paths_common.c\<close>,
  \<^verbatim>\<open>api/api_open_paths_udp.c\<close>, \<^verbatim>\<open>api/api_open_paths_tcp.c\<close>, \<^verbatim>\<open>api/api_open_paths.c\<close>): resolving the configured
  addresses, opening and binding a socket per path, and setting the destinations.

  A socket of the context is present or not; the endpoint it was bound to and the multicast group
  it joined are in the trace.  A best-effort option whose result the code ignores has no
  counterpart.
\<close>

section \<open>Addresses\<close>

abbreviation (input) CPLAT_IPV4_ADDR_ANY :: u32 where "CPLAT_IPV4_ADDR_ANY \<equiv> 0"

definition result_from_ipv4_result :: "cplat_result \<Rightarrow> potr_result" where
  "result_from_ipv4_result r =
    (if r = CPLAT_OK then POTR_OK else if r = CPLAT_ERR_INVALID_ARGUMENT then POTR_ERR_INVALID_ARGUMENT else POTR_ERR_IO)"

definition api_paths_resolve_ipv4 :: "cplat \<Rightarrow> string \<Rightarrow> potr_result + u32" where
  "api_paths_resolve_ipv4 E host =
    (case ipv4_resolve E host of (r, a) \<Rightarrow> if r = CPLAT_OK then Inr a else Inl (result_from_ipv4_result r))"

definition api_paths_parse_ipv4 :: "cplat \<Rightarrow> string \<Rightarrow> potr_result + u32" where
  "api_paths_parse_ipv4 E txt =
    (case ipv4_parse E txt of (r, a) \<Rightarrow> if r = CPLAT_OK then Inr a else Inl (result_from_ipv4_result r))"

section \<open>Sockets\<close>

text \<open>Opening a socket for path \<open>i\<close>, which is only used for the trace; whether there is one.\<close>

definition open_socket_unicast :: "cplat \<Rightarrow> potr_context \<Rightarrow> nat \<Rightarrow> u32 \<Rightarrow> u16 \<Rightarrow> bool \<times> potr_context" where
  "open_socket_unicast E c i bind_addr port =
    (let addr = \<lparr>ep_address = bind_addr, ep_port = hton16 E port\<rparr>;
         (opened, c1) = plat_call c (sock_open E)
     in if opened \<noteq> None then (False, c1)
        else (let (bound, c2) = plat_call c1 (\<lambda>n. sock_bind E n addr)
              in if bound \<noteq> None then (False, c2) else (True, emit c2 (Io_bind i addr))))"

definition open_socket_multicast :: "cplat \<Rightarrow> potr_context \<Rightarrow> nat \<Rightarrow> u32 \<Rightarrow> bool \<Rightarrow> bool \<times> potr_context" where
  "open_socket_multicast E c i src_if is_receiver =
    (let def = c_service c;
         bind_port = (if is_receiver then sd_dst_port def else sd_src_port def);
         addr = \<lparr>ep_address = CPLAT_IPV4_ADDR_ANY, ep_port = hton16 E bind_port\<rparr>;
         (opened, c1) = plat_call c (sock_open E)
     in if opened \<noteq> None then (False, c1)
        else
    (let (bound, c2) = plat_call c1 (\<lambda>n. sock_bind E n addr); c3 = emit c2 (Io_bind i addr)
     in if bound \<noteq> None then (False, c2)
        else case api_paths_parse_ipv4 E (sd_multicast_group def) of
               Inl _ \<Rightarrow> (False, c3)
             | Inr group_addr \<Rightarrow>
    (let (joined, c4) = plat_call c3 (\<lambda>n. sock_join_group E n group_addr src_if); c5 = emit c4 (Io_join i group_addr src_if)
     in if joined \<noteq> None then (False, c4)
        else (True, if is_receiver then c5 else emit c5 (Io_multicast_if i src_if)))))"

definition open_socket_broadcast :: "cplat \<Rightarrow> potr_context \<Rightarrow> nat \<Rightarrow> u16 \<Rightarrow> u16 \<Rightarrow> u32 \<Rightarrow> bool \<Rightarrow> bool \<times> potr_context" where
  "open_socket_broadcast E c i src_port dst_port src_if is_receiver =
    (let bind_port = (if is_receiver then dst_port else src_port);
         addr = \<lparr>ep_address = if \<not> is_receiver then src_if else CPLAT_IPV4_ADDR_ANY, ep_port = hton16 E bind_port\<rparr>;
         (opened, c1) = plat_call c (sock_open E)
     in if opened \<noteq> None then (False, c1)
        else (let (allowed, c2) = plat_call c1 (sock_set_broadcast E)
              in if allowed \<noteq> None then (False, c2)
                 else (let (bound, c3) = plat_call c2 (\<lambda>n. sock_bind E n addr)
                       in if bound \<noteq> None then (False, c3) else (True, emit c3 (Io_bind i addr)))))"

section \<open>Loops over the paths\<close>

datatype path_step = Path_end | Path_fail potr_result potr_context | Path_ok potr_context

fun open_each :: "(nat \<Rightarrow> potr_context \<Rightarrow> path_step) \<Rightarrow> nat list \<Rightarrow> potr_context \<Rightarrow> potr_result \<times> potr_context" where
  "open_each f [] c = (POTR_OK, c)"
| "open_each f (i # ks) c =
    (case f i c of Path_end \<Rightarrow> (POTR_OK, c) | Path_fail r c' \<Rightarrow> (r, c') | Path_ok c' \<Rightarrow> open_each f ks c')"

definition at_least_one :: "potr_result \<times> potr_context \<Rightarrow> potr_result \<times> potr_context" where
  "at_least_one x = (case x of (r, c) \<Rightarrow> if r = POTR_OK \<and> c_n_path c = 0 then (POTR_ERR_INVALID_ARGUMENT, c) else (r, c))"

definition add_path :: "nat \<Rightarrow> bool \<times> potr_context \<Rightarrow> path_step" where
  "add_path i x =
    (case x of (ok, c) \<Rightarrow>
       if ok then Path_ok (c\<lparr>c_sock := (c_sock c)[i := True], c_n_path := Suc (c_n_path c)\<rparr>)
       else Path_fail POTR_ERR_IO (c\<lparr>c_sock := (c_sock c)[i := False]\<rparr>))"

definition set_src_resolved :: "potr_context \<Rightarrow> nat \<Rightarrow> u32 \<Rightarrow> potr_context" where
  "set_src_resolved c i a = c\<lparr>c_src_addr_resolved := (c_src_addr_resolved c)[i := a]\<rparr>"

definition set_dst_resolved :: "potr_context \<Rightarrow> nat \<Rightarrow> u32 \<Rightarrow> potr_context" where
  "set_dst_resolved c i a = c\<lparr>c_dst_addr_resolved := (c_dst_addr_resolved c)[i := a]\<rparr>"

section \<open>UDP\<close>

definition unicast_path :: "cplat \<Rightarrow> potr_role \<Rightarrow> nat \<Rightarrow> potr_context \<Rightarrow> path_step" where
  "unicast_path E role i c =
    (let s = c_service c
     in if sd_src_addr s ! i = [] \<or> sd_dst_addr s ! i = [] then Path_end
        else case api_paths_resolve_ipv4 E (sd_src_addr s ! i) of
               Inl r \<Rightarrow> Path_fail r c
             | Inr src \<Rightarrow>
        (case api_paths_resolve_ipv4 E (sd_dst_addr s ! i) of
               Inl r \<Rightarrow> Path_fail r (set_src_resolved c i src)
             | Inr dst \<Rightarrow>
                 add_path i (open_socket_unicast E (set_dst_resolved (set_src_resolved c i src) i dst) i
                   (if role = POTR_ROLE_RECEIVER then dst else src)
                   (if role = POTR_ROLE_RECEIVER then sd_dst_port s else sd_src_port s))))"

definition api_open_paths_unicast :: "cplat \<Rightarrow> potr_context \<Rightarrow> potr_role \<Rightarrow> potr_result \<times> potr_context" where
  "api_open_paths_unicast E c role =
    (if sd_dst_port (c_service c) = 0 then (POTR_ERR_INVALID_ARGUMENT, c)
     else at_least_one (open_each (unicast_path E role) [0..<POTR_MAX_PATH] c))"

definition multicast_path :: "cplat \<Rightarrow> potr_role \<Rightarrow> nat \<Rightarrow> potr_context \<Rightarrow> path_step" where
  "multicast_path E role i c =
    (let s = c_service c
     in if sd_src_addr s ! i = [] then Path_end
        else case api_paths_resolve_ipv4 E (sd_src_addr s ! i) of
               Inl r \<Rightarrow> Path_fail r c
             | Inr src \<Rightarrow> add_path i (open_socket_multicast E (set_src_resolved c i src) i src (role = POTR_ROLE_RECEIVER)))"

definition api_open_paths_multicast :: "cplat \<Rightarrow> potr_context \<Rightarrow> potr_role \<Rightarrow> potr_result \<times> potr_context" where
  "api_open_paths_multicast E c role =
    (if sd_dst_port (c_service c) = 0 \<or> sd_multicast_group (c_service c) = [] then (POTR_ERR_INVALID_ARGUMENT, c)
     else at_least_one (open_each (multicast_path E role) [0..<POTR_MAX_PATH] c))"

definition broadcast_path :: "cplat \<Rightarrow> potr_role \<Rightarrow> nat \<Rightarrow> potr_context \<Rightarrow> path_step" where
  "broadcast_path E role i c =
    (let s = c_service c
     in if sd_src_addr s ! i = [] then Path_end
        else case api_paths_resolve_ipv4 E (sd_src_addr s ! i) of
               Inl r \<Rightarrow> Path_fail r c
             | Inr src \<Rightarrow> add_path i (open_socket_broadcast E (set_src_resolved c i src) i (sd_src_port s) (sd_dst_port s) src
                            (role = POTR_ROLE_RECEIVER)))"

definition api_open_paths_broadcast :: "cplat \<Rightarrow> potr_context \<Rightarrow> potr_role \<Rightarrow> potr_result \<times> potr_context" where
  "api_open_paths_broadcast E c role =
    (if sd_dst_port (c_service c) = 0 then (POTR_ERR_INVALID_ARGUMENT, c)
     else (let c1 = (if sd_broadcast_addr (c_service c) = []
                     then c\<lparr>c_service := (c_service c)\<lparr>sd_broadcast_addr := ''255.255.255.255''\<rparr>\<rparr> else c)
           in at_least_one (open_each (broadcast_path E role) [0..<POTR_MAX_PATH] c1)))"

definition unicast_bidir_path :: "cplat \<Rightarrow> potr_role \<Rightarrow> nat \<Rightarrow> potr_context \<Rightarrow> path_step" where
  "unicast_bidir_path E role i c =
    (let s = c_service c
     in if sd_dst_addr s ! i = [] \<or> role = POTR_ROLE_RECEIVER \<and> sd_src_addr s ! i = [] then Path_end
        else case (if sd_src_addr s ! i \<noteq> [] then map_sum id (set_src_resolved c i) (api_paths_resolve_ipv4 E (sd_src_addr s ! i))
                   else Inr c) of
               Inl r \<Rightarrow> Path_fail r c
             | Inr c1 \<Rightarrow>
        (case api_paths_resolve_ipv4 E (sd_dst_addr s ! i) of
               Inl r \<Rightarrow> Path_fail r c1
             | Inr dst \<Rightarrow>
                 (let c2 = set_dst_resolved c1 i dst
                  in add_path i
                       (if role = POTR_ROLE_SENDER
                        then open_socket_unicast E c2 i
                               (if sd_src_addr s ! i \<noteq> [] then c_src_addr_resolved c2 ! i else CPLAT_IPV4_ADDR_ANY) (sd_src_port s)
                        else open_socket_unicast E c2 i dst (sd_dst_port s)))))"

definition api_open_paths_unicast_bidir :: "cplat \<Rightarrow> potr_context \<Rightarrow> potr_role \<Rightarrow> potr_result \<times> potr_context" where
  "api_open_paths_unicast_bidir E c0 role =
    (let c = c0\<lparr>c_is_multi_peer := False\<rparr>; s = c_service c
     in if sd_dst_port s = 0 then (POTR_ERR_INVALID_ARGUMENT, c)
        else if role = POTR_ROLE_RECEIVER \<and> sd_src_addr s ! 0 = [] then
          (case (if sd_dst_addr s ! 0 = [] then Inr (CPLAT_IPV4_ADDR_ANY, c)
                 else map_sum id (\<lambda>a. (a, set_dst_resolved c 0 a)) (api_paths_resolve_ipv4 E (sd_dst_addr s ! 0))) of
             Inl r \<Rightarrow> (r, c)
           | Inr (bind_addr, c1) \<Rightarrow>
               (let (ok, c2) = open_socket_unicast E c1 0 bind_addr (sd_dst_port s);
                    c3 = c2\<lparr>c_sock := (c_sock c2)[0 := ok]\<rparr>
                in if \<not> ok then (POTR_ERR_IO, c3) else (POTR_OK, c3\<lparr>c_n_path := 1\<rparr>)))
        else at_least_one (open_each (unicast_bidir_path E role) [0..<POTR_MAX_PATH] c))"

definition n1_path :: "cplat \<Rightarrow> nat \<Rightarrow> potr_context \<Rightarrow> path_step" where
  "n1_path E i c =
    (let s = c_service c
     in if sd_dst_addr s ! i = [] then Path_end
        else case api_paths_resolve_ipv4 E (sd_dst_addr s ! i) of
               Inl r \<Rightarrow> Path_fail r c
             | Inr bind_addr \<Rightarrow>
                 (let (ok, c1) = open_socket_unicast E (set_dst_resolved c i bind_addr) i bind_addr (sd_dst_port s);
                      c2 = c1\<lparr>c_sock := (c_sock c1)[i := ok]\<rparr>
                  in if \<not> ok then Path_fail POTR_ERR_IO c2 else Path_ok (c2\<lparr>c_n_path := i + 1\<rparr>)))"

text \<open>
  The size of a peer and the outcome of creating the lock of the table are parameters of the
  initialisation of the peer table.  The table size is a signed integer.
\<close>

definition n1_max_peers :: "potr_service_def \<Rightarrow> nat" where
  "n1_max_peers s = (if sint (sd_max_peers s) \<le> 0 then 1024 else unat (sd_max_peers s))"

definition api_open_paths_unicast_bidir_n1 :: "cplat \<Rightarrow> nat \<Rightarrow> potr_context \<Rightarrow> potr_result \<times> potr_context" where
  "api_open_paths_unicast_bidir_n1 E peer_size c0 =
    (let c = c0\<lparr>c_is_multi_peer := True\<rparr>; s = c_service c
     in if sd_dst_port s = 0 then (POTR_ERR_INVALID_ARGUMENT, c)
        else
    (case (if sd_dst_addr s ! 0 = [] then
             (let (ok, c1) = open_socket_unicast E c 0 CPLAT_IPV4_ADDR_ANY (sd_dst_port s);
                  c2 = c1\<lparr>c_sock := (c_sock c1)[0 := ok]\<rparr>
              in if \<not> ok then (POTR_ERR_IO, c2) else (POTR_OK, c2\<lparr>c_n_path := 1\<rparr>))
           else open_each (n1_path E) [0..<POTR_MAX_PATH] c) of
       (r, c1) \<Rightarrow>
         if r \<noteq> POTR_OK then (r, c1)
         else (let (lock_ok, c2) = plat_call c1 (lock_create_ok E) in peer_table_init E lock_ok peer_size c2 (n1_max_peers s))))"

section \<open>TCP\<close>

definition open_socket_tcp_receiver :: "cplat \<Rightarrow> potr_context \<Rightarrow> nat \<Rightarrow> potr_result \<times> potr_context" where
  "open_socket_tcp_receiver E c i =
    (let s = c_service c
     in case (if sd_dst_addr s ! i \<noteq> []
              then map_sum id (\<lambda>a. (a, set_dst_resolved c i a)) (api_paths_resolve_ipv4 E (sd_dst_addr s ! i))
              else Inr (CPLAT_IPV4_ADDR_ANY, c)) of
          Inl r \<Rightarrow> (r, c)
        | Inr (bind_ip, c1) \<Rightarrow>
     (case (if sd_src_addr s ! i \<noteq> []
            then map_sum id (set_src_resolved c1 i) (api_paths_resolve_ipv4 E (sd_src_addr s ! i)) else Inr c1) of
        Inl r \<Rightarrow> (r, c1)
      | Inr c2 \<Rightarrow>
     (let addr = \<lparr>ep_address = bind_ip, ep_port = hton16 E (sd_dst_port s)\<rparr>; (opened, c3) = plat_call c2 (sock_open E)
      in case opened of
           Some cause \<Rightarrow> (result_from_error cause, c3)
         | None \<Rightarrow>
     (let (bound, c4) = plat_call c3 (\<lambda>n. sock_bind E n addr)
      in case bound of
           Some cause \<Rightarrow> (result_from_error cause, c4)
         | None \<Rightarrow>
     (let (listening, c5) = plat_call (emit c4 (Io_bind i addr)) (sock_listen E)
      in case listening of
           Some cause \<Rightarrow> (result_from_error cause, c5)
         | None \<Rightarrow> (POTR_OK, (emit c5 (Io_listen i))\<lparr>c_tcp := (c_tcp c5)\<lparr>t_listen_sock := (t_listen_sock (c_tcp c5))[i := True]\<rparr>\<rparr>))))))"

definition open_socket_tcp_sender :: "cplat \<Rightarrow> potr_context \<Rightarrow> nat \<Rightarrow> potr_result \<times> potr_context" where
  "open_socket_tcp_sender E c i =
    (let s = c_service c
     in if sd_dst_addr s ! i = [] then (POTR_ERR_INVALID_ARGUMENT, c)
        else case api_paths_resolve_ipv4 E (sd_dst_addr s ! i) of
               Inl r \<Rightarrow> (r, c)
             | Inr dst \<Rightarrow>
        (let c1 = set_dst_resolved c i dst
         in if sd_src_addr s ! i = [] then (POTR_OK, c1)
            else case api_paths_resolve_ipv4 E (sd_src_addr s ! i) of
                   Inl r \<Rightarrow> (r, c1)
                 | Inr src \<Rightarrow> (POTR_OK, set_src_resolved c1 i src)))"

definition tcp_path :: "cplat \<Rightarrow> potr_role \<Rightarrow> nat \<Rightarrow> potr_context \<Rightarrow> path_step" where
  "tcp_path E role i c =
    (if sd_dst_addr (c_service c) ! i = [] then Path_end
     else (let (r, c1) = (if role = POTR_ROLE_RECEIVER then open_socket_tcp_receiver E c i else open_socket_tcp_sender E c i)
           in if r \<noteq> POTR_OK then Path_fail r c1 else Path_ok (c1\<lparr>c_n_path := i + 1\<rparr>)))"

definition api_open_paths_tcp :: "cplat \<Rightarrow> potr_context \<Rightarrow> potr_role \<Rightarrow> potr_result \<times> potr_context" where
  "api_open_paths_tcp E c role =
    (if sd_dst_port (c_service c) = 0 then (POTR_ERR_INVALID_ARGUMENT, c)
     else at_least_one (open_each (tcp_path E role) [0..<POTR_MAX_PATH] c))"

section \<open>By type\<close>

definition api_open_paths_by_type :: "cplat \<Rightarrow> nat \<Rightarrow> potr_context \<Rightarrow> potr_role \<Rightarrow> potr_result \<times> potr_context" where
  "api_open_paths_by_type E peer_size c role =
    (case raw_base_type (sd_type (c_service c)) of
       POTR_TYPE_UNICAST \<Rightarrow> api_open_paths_unicast E c role
     | POTR_TYPE_MULTICAST \<Rightarrow> api_open_paths_multicast E c role
     | POTR_TYPE_BROADCAST \<Rightarrow> api_open_paths_broadcast E c role
     | POTR_TYPE_UNICAST_BIDIR \<Rightarrow> api_open_paths_unicast_bidir E c role
     | POTR_TYPE_UNICAST_BIDIR_N1 \<Rightarrow> api_open_paths_unicast_bidir_n1 E peer_size c
     | POTR_TYPE_TCP \<Rightarrow> api_open_paths_tcp E c role
     | POTR_TYPE_TCP_BIDIR \<Rightarrow> api_open_paths_tcp E c role
     | _ \<Rightarrow> (POTR_ERR_UNSUPPORTED, c))"

text \<open>Setting the destination of the open paths.\<close>

definition set_dests :: "cplat \<Rightarrow> potr_context \<Rightarrow> (nat \<Rightarrow> u32) \<Rightarrow> u16 \<Rightarrow> potr_context" where
  "set_dests E c addr port =
    upd_slot c CtxSlot (\<lambda>st. st\<lparr>s_dest_addr := fold (\<lambda>i ds. ds[i := \<lparr>ep_address = addr i, ep_port = hton16 E port\<rparr>])
      [0..<c_n_path c] (s_dest_addr st)\<rparr>)"

definition api_setup_dest_addr :: "cplat \<Rightarrow> potr_context \<Rightarrow> potr_role \<Rightarrow> potr_result \<times> potr_context" where
  "api_setup_dest_addr E c role =
    (let s = c_service c
     in if role \<noteq> POTR_ROLE_SENDER \<and> sd_type s \<noteq> POTR_TYPE_UNICAST_BIDIR then (POTR_OK, c)
        else case raw_base_type (sd_type s) of
               POTR_TYPE_UNICAST_BIDIR \<Rightarrow>
                 (POTR_OK, if role = POTR_ROLE_SENDER then set_dests E c (\<lambda>i. c_dst_addr_resolved c ! i) (sd_dst_port s)
                           else set_dests E c (\<lambda>i. c_src_addr_resolved c ! i) (sd_src_port s))
             | POTR_TYPE_UNICAST_BIDIR_N1 \<Rightarrow>
                 (POTR_OK, if role = POTR_ROLE_SENDER then set_dests E c (\<lambda>i. c_dst_addr_resolved c ! i) (sd_dst_port s)
                           else set_dests E c (\<lambda>i. c_src_addr_resolved c ! i) (sd_src_port s))
             | POTR_TYPE_UNICAST \<Rightarrow> (POTR_OK, set_dests E c (\<lambda>i. c_dst_addr_resolved c ! i) (sd_dst_port s))
             | POTR_TYPE_MULTICAST \<Rightarrow>
                 (case api_paths_parse_ipv4 E (sd_multicast_group s) of
                    Inl _ \<Rightarrow> (POTR_ERR_INVALID_ARGUMENT, c)
                  | Inr mcast_ip \<Rightarrow> (POTR_OK, set_dests E c (\<lambda>_. mcast_ip) (sd_dst_port s)))
             | POTR_TYPE_BROADCAST \<Rightarrow>
                 (case api_paths_parse_ipv4 E (sd_broadcast_addr s) of
                    Inl _ \<Rightarrow> (POTR_ERR_INVALID_ARGUMENT, c)
                  | Inr bcast_ip \<Rightarrow> (POTR_OK, set_dests E c (\<lambda>_. bcast_ip) (sd_dst_port s)))
             | _ \<Rightarrow> (POTR_OK, c))"

section \<open>What was opened\<close>

text \<open>
  The table of \<^verbatim>\<open>porter_spec.h\<close>: which paths are configured for a type and role, and which endpoint
  the socket of a path is bound to (none for a TCP sender).
\<close>

definition resolved :: "cplat \<Rightarrow> string \<Rightarrow> u32" where
  "resolved E host = (case api_paths_resolve_ipv4 E host of Inl _ \<Rightarrow> 0 | Inr a \<Rightarrow> a)"

definition path_given :: "potr_service_def \<Rightarrow> potr_role \<Rightarrow> nat \<Rightarrow> bool" where
  "path_given s role i =
    (let src = (\<lambda>i. sd_src_addr s ! i \<noteq> []); dst = (\<lambda>i. sd_dst_addr s ! i \<noteq> [])
     in case raw_base_type (sd_type s) of
          POTR_TYPE_UNICAST \<Rightarrow> src i \<and> dst i
        | POTR_TYPE_UNICAST_BIDIR \<Rightarrow>
            if role = POTR_ROLE_RECEIVER then (if src 0 then src i \<and> dst i else i = 0) else dst i
        | POTR_TYPE_UNICAST_BIDIR_N1 \<Rightarrow> if dst 0 then dst i else i = 0
        | POTR_TYPE_TCP \<Rightarrow> dst i
        | POTR_TYPE_TCP_BIDIR \<Rightarrow> dst i
        | _ \<Rightarrow> src i)"

definition bound_to :: "cplat \<Rightarrow> potr_service_def \<Rightarrow> potr_role \<Rightarrow> nat \<Rightarrow> cplat_ipv4_endpoint option" where
  "bound_to E s role i =
    (let recv = (role = POTR_ROLE_RECEIVER);
         src = (if sd_src_addr s ! i = [] then CPLAT_IPV4_ADDR_ANY else resolved E (sd_src_addr s ! i));
         dst = (if sd_dst_addr s ! i = [] then CPLAT_IPV4_ADDR_ANY else resolved E (sd_dst_addr s ! i));
         at = (\<lambda>a p. Some \<lparr>ep_address = a, ep_port = hton16 E p\<rparr>)
     in case raw_base_type (sd_type s) of
          POTR_TYPE_MULTICAST \<Rightarrow> at CPLAT_IPV4_ADDR_ANY (if recv then sd_dst_port s else sd_src_port s)
        | POTR_TYPE_BROADCAST \<Rightarrow> (if recv then at CPLAT_IPV4_ADDR_ANY (sd_dst_port s) else at src (sd_src_port s))
        | POTR_TYPE_UNICAST_BIDIR_N1 \<Rightarrow> at dst (sd_dst_port s)
        | POTR_TYPE_TCP \<Rightarrow> (if recv then at dst (sd_dst_port s) else None)
        | POTR_TYPE_TCP_BIDIR \<Rightarrow> (if recv then at dst (sd_dst_port s) else None)
        | _ \<Rightarrow> (if recv then at dst (sd_dst_port s) else at src (sd_src_port s)))"

definition binds_of :: "io list \<Rightarrow> (nat \<times> cplat_ipv4_endpoint) list" where
  "binds_of tr = concat (map (\<lambda>x. case x of Io_bind i e \<Rightarrow> [(i, e)] | _ \<Rightarrow> []) tr)"

text \<open>What opening a path leaves alone.\<close>

definition kept where
  "kept c = (c_callback c, c_global c, c_role c, c_slot c, c_send_queue c, c_close_requested c, c_send_thread c,
     c_recv_thread c, c_health_thread c, t_conn_fd (c_tcp c), t_connect_thread (c_tcp c), \<lambda>pid. events_of pid (c_trace c))"

definition opened :: "nat \<Rightarrow> cplat_ipv4_endpoint option \<Rightarrow> potr_context \<Rightarrow> potr_context \<Rightarrow> bool" where
  "opened i b c c' \<longleftrightarrow> c_service c' = c_service c \<and> c_n_path c' = Suc i \<and> c_is_multi_peer c' = c_is_multi_peer c \<and>
     c_peers c' = c_peers c \<and> c_n_peers c' = c_n_peers c \<and>
     length (c_src_addr_resolved c') = length (c_src_addr_resolved c) \<and>
     binds_of (c_trace c') = binds_of (c_trace c) @ map (Pair i) (case b of None \<Rightarrow> [] | Some e \<Rightarrow> [e]) \<and> kept c' = kept c"

definition causes_ok :: "cplat \<Rightarrow> bool" where
  "causes_ok E \<longleftrightarrow> (\<forall>n e. sock_open E n \<noteq> Some CPLAT_CAUSE_NONE \<and> sock_bind E n e \<noteq> Some CPLAT_CAUSE_NONE \<and>
     sock_listen E n \<noteq> Some CPLAT_CAUSE_NONE)"

lemma binds_of_simps [simp]:
  "binds_of [] = []" "binds_of (a @ b) = binds_of a @ binds_of b"
  "binds_of (x # tr) = (case x of Io_bind i e \<Rightarrow> [(i, e)] | _ \<Rightarrow> []) @ binds_of tr"
  by (simp_all add: binds_of_def)

lemma events_of_Cons [simp]: "events_of pid (x # tr) = io_event pid x @ events_of pid tr"
  by (simp add: events_of_def)

lemma resolve_fail: "api_paths_resolve_ipv4 E h = Inl r \<Longrightarrow> r \<noteq> POTR_OK"
  by (auto simp: api_paths_resolve_ipv4_def result_from_ipv4_result_def split: prod.splits if_splits)

lemma resolve_ok: "api_paths_resolve_ipv4 E h = Inr a \<Longrightarrow> resolved E h = a"
  by (simp add: resolved_def)

lemmas open_defs = add_path_def set_src_resolved_def set_dst_resolved_def open_socket_unicast_def open_socket_multicast_def
  open_socket_broadcast_def plat_call_def emit_def Let_def

lemmas opened_defs = opened_def kept_def path_given_def bound_to_def

section \<open>The contract of opening one path\<close>

text \<open>
  What a loop over the paths relies on: one turn tells the end of the configured paths, fails with
  an error, or opens the path and keeps the rest.
\<close>

definition bound_list :: "(nat \<Rightarrow> cplat_ipv4_endpoint option) \<Rightarrow> nat list \<Rightarrow> (nat \<times> cplat_ipv4_endpoint) list" where
  "bound_list b ks = concat (map (\<lambda>i. map (Pair i) (case b i of None \<Rightarrow> [] | Some e \<Rightarrow> [e])) ks)"

definition paths_opened ::
  "(nat \<Rightarrow> bool) \<Rightarrow> (nat \<Rightarrow> cplat_ipv4_endpoint option) \<Rightarrow> nat \<Rightarrow> potr_context \<Rightarrow> potr_context \<Rightarrow> bool" where
  "paths_opened given b i c c' \<longleftrightarrow> i \<le> c_n_path c' \<and> c_n_path c' \<le> POTR_MAX_PATH \<and>
     (\<forall>j. i \<le> j \<and> j < c_n_path c' \<longrightarrow> given j) \<and> (c_n_path c' < POTR_MAX_PATH \<longrightarrow> \<not> given (c_n_path c')) \<and>
     binds_of (c_trace c') = binds_of (c_trace c) @ bound_list b [i..<c_n_path c'] \<and> kept c' = kept c \<and>
     c_service c' = c_service c \<and> c_is_multi_peer c' = c_is_multi_peer c \<and> c_peers c' = c_peers c \<and> c_n_peers c' = c_n_peers c"

locale path_opener =
  fixes ok :: "potr_context \<Rightarrow> bool"
    and given :: "nat \<Rightarrow> bool"
    and bnd :: "nat \<Rightarrow> cplat_ipv4_endpoint option"
    and f :: "nat \<Rightarrow> potr_context \<Rightarrow> path_step"
  assumes turn: "ok c \<Longrightarrow> c_n_path c = i \<Longrightarrow> i < POTR_MAX_PATH \<Longrightarrow>
    (case f i c of
       Path_end \<Rightarrow> \<not> given i
     | Path_fail r c' \<Rightarrow> r \<noteq> POTR_OK
     | Path_ok c' \<Rightarrow> given i \<and> opened i (bnd i) c c' \<and> ok c')"
begin

lemma all_opened:
  assumes "ok c" "c_n_path c = i" "i \<le> POTR_MAX_PATH" "open_each f [i..<POTR_MAX_PATH] c = (POTR_OK, c')"
  shows "paths_opened given bnd i c c'"
  using assms
proof (induction "POTR_MAX_PATH - i" arbitrary: i c)
  case 0
  then show ?case by (auto simp: paths_opened_def bound_list_def)
next
  case (Suc x)
  then have lt: "i < POTR_MAX_PATH" by simp
  then have up: "[i..<POTR_MAX_PATH] = i # [Suc i..<POTR_MAX_PATH]" by (rule upt_conv_Cons)
  note t = turn[OF Suc.prems(1,2) lt]
  show ?case
  proof (cases "f i c")
    case Path_end
    then have "c' = c" using Suc.prems(4) by (simp add: up)
    then show ?thesis using t Path_end Suc.prems(2) lt by (auto simp: paths_opened_def bound_list_def)
  next
    case (Path_fail r d)
    then show ?thesis using t Suc.prems(4) by (simp add: up)
  next
    case (Path_ok d)
    then have o: "given i \<and> opened i (bnd i) c d \<and> ok d" using t by simp
    have IH: "paths_opened given bnd (Suc i) d c'"
    proof (rule Suc.hyps(1))
      show "open_each f [Suc i..<POTR_MAX_PATH] d = (POTR_OK, c')" using Suc.prems(4) Path_ok by (simp add: up)
    qed (use Suc.hyps(2) o lt in \<open>simp_all add: opened_def\<close>)
    have "i < c_n_path c'" using IH by (simp add: paths_opened_def)
    then have r: "[i..<c_n_path c'] = i # [Suc i..<c_n_path c']" by (rule upt_conv_Cons)
    have "given j" if "i \<le> j" "j < c_n_path c'" for j
      using that o IH by (cases "i = j") (auto simp: paths_opened_def)
    then show ?thesis using o IH unfolding paths_opened_def r by (simp add: opened_def bound_list_def)
  qed
qed

end

definition opening_as :: "potr_service_def \<Rightarrow> potr_type \<Rightarrow> potr_context \<Rightarrow> bool" where
  "opening_as s t c \<longleftrightarrow> c_service c = s \<and> raw_base_type (sd_type s) = t \<and> length (c_src_addr_resolved c) = POTR_MAX_PATH"

lemmas opener_simps = open_defs opened_defs opening_as_def resolve_ok

interpretation uni: path_opener "opening_as s POTR_TYPE_UNICAST" "path_given s role" "bound_to E s role" "unicast_path E role" for E s role
proof
  fix c i assume "opening_as s POTR_TYPE_UNICAST c" "c_n_path c = i" "i < POTR_MAX_PATH"
  then show "case unicast_path E role i c of Path_end \<Rightarrow> \<not> path_given s role i | Path_fail r c' \<Rightarrow> r \<noteq> POTR_OK
      | Path_ok c' \<Rightarrow> path_given s role i \<and> opened i (bound_to E s role i) c c' \<and> opening_as s POTR_TYPE_UNICAST c'"
    unfolding unicast_path_def
    by (auto simp: opener_simps dest: resolve_fail split: path_step.split sum.split prod.split if_splits)
qed

interpretation multi: path_opener "opening_as s POTR_TYPE_MULTICAST" "path_given s role" "bound_to E s role" "multicast_path E role" for E s role
proof
  fix c i assume "opening_as s POTR_TYPE_MULTICAST c" "c_n_path c = i" "i < POTR_MAX_PATH"
  then show "case multicast_path E role i c of Path_end \<Rightarrow> \<not> path_given s role i | Path_fail r c' \<Rightarrow> r \<noteq> POTR_OK
      | Path_ok c' \<Rightarrow> path_given s role i \<and> opened i (bound_to E s role i) c c' \<and> opening_as s POTR_TYPE_MULTICAST c'"
    unfolding multicast_path_def
    by (auto simp: opener_simps dest: resolve_fail split: path_step.split sum.split prod.split if_splits)
qed

interpretation broad: path_opener "opening_as s POTR_TYPE_BROADCAST" "path_given s role" "bound_to E s role" "broadcast_path E role" for E s role
proof
  fix c i assume "opening_as s POTR_TYPE_BROADCAST c" "c_n_path c = i" "i < POTR_MAX_PATH"
  then show "case broadcast_path E role i c of Path_end \<Rightarrow> \<not> path_given s role i | Path_fail r c' \<Rightarrow> r \<noteq> POTR_OK
      | Path_ok c' \<Rightarrow> path_given s role i \<and> opened i (bound_to E s role i) c c' \<and> opening_as s POTR_TYPE_BROADCAST c'"
    unfolding broadcast_path_def
    by (auto simp: opener_simps dest: resolve_fail split: path_step.split sum.split prod.split if_splits)
qed

lemma open_unicast_eq:
  "open_socket_unicast E c i a p =
    (let addr = \<lparr>ep_address = a, ep_port = hton16 E p\<rparr>
     in if sock_open E (c_tick c) \<noteq> None then (False, c\<lparr>c_tick := Suc (c_tick c)\<rparr>)
        else if sock_bind E (Suc (c_tick c)) addr \<noteq> None then (False, c\<lparr>c_tick := Suc (Suc (c_tick c))\<rparr>)
        else (True, c\<lparr>c_tick := Suc (Suc (c_tick c)), c_trace := c_trace c @ [Io_bind i addr]\<rparr>))"
  by (simp add: open_socket_unicast_def plat_call_def emit_def Let_def)

lemma bidir_turn:
  assumes "opening_as s POTR_TYPE_UNICAST_BIDIR c" "role = POTR_ROLE_RECEIVER \<longrightarrow> sd_src_addr s ! 0 \<noteq> []" "c_n_path c = i" "i < POTR_MAX_PATH"
  shows "case unicast_bidir_path E role i c of
      Path_end \<Rightarrow> \<not> path_given s role i
    | Path_fail r c' \<Rightarrow> r \<noteq> POTR_OK
    | Path_ok c' \<Rightarrow> path_given s role i \<and> opened i (bound_to E s role i) c c' \<and> opening_as s POTR_TYPE_UNICAST_BIDIR c'"
proof (cases "sd_dst_addr s ! i = [] \<or> role = POTR_ROLE_RECEIVER \<and> sd_src_addr s ! i = []")
  case True
  then show ?thesis using assms by (auto simp: unicast_bidir_path_def opening_as_def path_given_def)
next
  case False
  note f = False assms
  have rf: "api_paths_resolve_ipv4 E h = Inl POTR_OK \<Longrightarrow> False" for h using resolve_fail by blast
  show ?thesis
  proof (cases "api_paths_resolve_ipv4 E (sd_dst_addr s ! i)")
    case (Inl r)
    then show ?thesis using f rf
      by (cases "sd_src_addr s ! i = []"; cases "api_paths_resolve_ipv4 E (sd_src_addr s ! i)")
        (auto simp: unicast_bidir_path_def opening_as_def Let_def)
  next
    case (Inr dst)
    note res = resolve_ok[OF Inr]
    show ?thesis
    proof (cases "sd_src_addr s ! i = []")
      case True
      then show ?thesis using f Inr res
        by (cases role) (simp_all add: unicast_bidir_path_def opening_as_def open_unicast_eq add_path_def set_dst_resolved_def
            opened_defs Let_def)
    next
      case src: False
      show ?thesis
      proof (cases "api_paths_resolve_ipv4 E (sd_src_addr s ! i)")
        case Inl
        then show ?thesis using f rf src by (auto simp: unicast_bidir_path_def opening_as_def Let_def)
      next
        case (Inr a)
        then show ?thesis using f src res resolve_ok[OF Inr] \<open>api_paths_resolve_ipv4 E (sd_dst_addr s ! i) = Inr dst\<close>
          by (cases role) (simp_all add: unicast_bidir_path_def opening_as_def open_unicast_eq add_path_def set_dst_resolved_def
            set_src_resolved_def opened_defs Let_def)
      qed
    qed
  qed
qed

interpretation bidir: path_opener
  "\<lambda>c. opening_as s POTR_TYPE_UNICAST_BIDIR c \<and> (role = POTR_ROLE_RECEIVER \<longrightarrow> sd_src_addr s ! 0 \<noteq> [])"
  "path_given s role" "bound_to E s role" "unicast_bidir_path E role" for E s role
proof
  fix c i assume "opening_as s POTR_TYPE_UNICAST_BIDIR c \<and> (role = POTR_ROLE_RECEIVER \<longrightarrow> sd_src_addr s ! 0 \<noteq> [])" "c_n_path c = i" "i < POTR_MAX_PATH"
  then show "case unicast_bidir_path E role i c of Path_end \<Rightarrow> \<not> path_given s role i | Path_fail r c' \<Rightarrow> r \<noteq> POTR_OK
      | Path_ok c' \<Rightarrow> path_given s role i \<and> opened i (bound_to E s role i) c c' \<and>
          opening_as s POTR_TYPE_UNICAST_BIDIR c' \<and> (role = POTR_ROLE_RECEIVER \<longrightarrow> sd_src_addr s ! 0 \<noteq> [])"
    using bidir_turn[of s c role i E] by (cases "unicast_bidir_path E role i c") simp_all
qed

interpretation n1: path_opener "\<lambda>c. opening_as s POTR_TYPE_UNICAST_BIDIR_N1 c \<and> sd_dst_addr s ! 0 \<noteq> []"
  "path_given s role" "bound_to E s role" "n1_path E" for E s role
proof
  fix c i assume "opening_as s POTR_TYPE_UNICAST_BIDIR_N1 c \<and> sd_dst_addr s ! 0 \<noteq> []" "c_n_path c = i" "i < POTR_MAX_PATH"
  then show "case n1_path E i c of Path_end \<Rightarrow> \<not> path_given s role i | Path_fail r c' \<Rightarrow> r \<noteq> POTR_OK
      | Path_ok c' \<Rightarrow> path_given s role i \<and> opened i (bound_to E s role i) c c' \<and> opening_as s POTR_TYPE_UNICAST_BIDIR_N1 c' \<and> sd_dst_addr s ! 0 \<noteq> []"
    unfolding n1_path_def
    by (auto simp: opener_simps dest: resolve_fail split: path_step.split sum.split prod.split if_splits)
qed

lemma cause_error: "cause \<noteq> CPLAT_CAUSE_NONE \<Longrightarrow> result_from_error cause \<noteq> POTR_OK"
  by (cases cause) (simp_all add: result_from_error_def)

text \<open>The TCP socket once the addresses are resolved.\<close>

definition tcp_listener :: "cplat \<Rightarrow> nat \<Rightarrow> cplat_ipv4_endpoint \<Rightarrow> potr_context \<Rightarrow> potr_result \<times> potr_context" where
  "tcp_listener E i addr c =
    (case sock_open E (c_tick c) of
       Some cause \<Rightarrow> (result_from_error cause, c\<lparr>c_tick := Suc (c_tick c)\<rparr>)
     | None \<Rightarrow> (case sock_bind E (Suc (c_tick c)) addr of
         Some cause \<Rightarrow> (result_from_error cause, c\<lparr>c_tick := Suc (Suc (c_tick c))\<rparr>)
       | None \<Rightarrow> (let c1 = c\<lparr>c_tick := Suc (Suc (Suc (c_tick c))), c_trace := c_trace c @ [Io_bind i addr]\<rparr>
           in case sock_listen E (Suc (Suc (c_tick c))) of
                Some cause \<Rightarrow> (result_from_error cause, c1)
              | None \<Rightarrow> (POTR_OK, c1\<lparr>c_trace := c_trace c @ [Io_bind i addr, Io_listen i],
                  c_tcp := (c_tcp c)\<lparr>t_listen_sock := (t_listen_sock (c_tcp c))[i := True]\<rparr>\<rparr>))))"

lemma tcp_receiver_eq:
  assumes "sd_dst_addr (c_service c) ! i \<noteq> []"
  shows "open_socket_tcp_receiver E c i =
    (case api_paths_resolve_ipv4 E (sd_dst_addr (c_service c) ! i) of
       Inl r \<Rightarrow> (r, c)
     | Inr dst \<Rightarrow>
         (let addr = \<lparr>ep_address = dst, ep_port = hton16 E (sd_dst_port (c_service c))\<rparr>
          in if sd_src_addr (c_service c) ! i = [] then tcp_listener E i addr (set_dst_resolved c i dst)
             else case api_paths_resolve_ipv4 E (sd_src_addr (c_service c) ! i) of
                    Inl r \<Rightarrow> (r, set_dst_resolved c i dst)
                  | Inr src \<Rightarrow> tcp_listener E i addr (set_src_resolved (set_dst_resolved c i dst) i src)))"
  using assms
  by (auto simp: open_socket_tcp_receiver_def tcp_listener_def plat_call_def emit_def Let_def split: sum.split option.split)

lemma tcp_listener_cases:
  assumes "causes_ok E" "tcp_listener E i addr c = (r, c')" "r = POTR_OK"
  shows "c' = c\<lparr>c_tick := Suc (Suc (Suc (c_tick c))), c_trace := c_trace c @ [Io_bind i addr, Io_listen i],
    c_tcp := (c_tcp c)\<lparr>t_listen_sock := (t_listen_sock (c_tcp c))[i := True]\<rparr>\<rparr>"
proof -
  have n: "sock_open E n \<noteq> Some CPLAT_CAUSE_NONE" "sock_bind E n e \<noteq> Some CPLAT_CAUSE_NONE" "sock_listen E n \<noteq> Some CPLAT_CAUSE_NONE" for n e
    using assms(1) by (auto simp: causes_ok_def)
  show ?thesis
  proof (cases "sock_open E (c_tick c)")
    case None
    show ?thesis
    proof (cases "sock_bind E (Suc (c_tick c)) addr")
      case bound: None
      show ?thesis
      proof (cases "sock_listen E (Suc (Suc (c_tick c)))")
        case None
        then show ?thesis using assms(2) \<open>sock_open E (c_tick c) = None\<close> bound by (auto simp: tcp_listener_def)
      next
        case (Some x)
        then show ?thesis using assms(2,3) \<open>sock_open E (c_tick c) = None\<close> bound n(3) cause_error[of x] by (auto simp: tcp_listener_def)
      qed
    next
      case (Some x)
      then show ?thesis using assms(2,3) None n(2) cause_error[of x] by (auto simp: tcp_listener_def)
    qed
  next
    case (Some x)
    then show ?thesis using assms(2,3) n(1) cause_error[of x] by (auto simp: tcp_listener_def)
  qed
qed

lemma tcp_turn:
  assumes "opening_as s t c" "is_tcp_type t" "c_n_path c = i" "i < POTR_MAX_PATH" "causes_ok E"
  shows "case tcp_path E role i c of
      Path_end \<Rightarrow> \<not> path_given s role i
    | Path_fail r c' \<Rightarrow> r \<noteq> POTR_OK
    | Path_ok c' \<Rightarrow> path_given s role i \<and> opened i (bound_to E s role i) c c' \<and> opening_as s t c'"
proof (cases "sd_dst_addr s ! i = []")
  case True
  then show ?thesis using assms by (auto simp: tcp_path_def opening_as_def path_given_def)
next
  case False
  note f = False assms(1-4)
  have g: "path_given s role i" using f by (auto simp: path_given_def opening_as_def)
  have rf: "api_paths_resolve_ipv4 E h \<noteq> Inl POTR_OK" for h using resolve_fail by blast
  have lis: "opened i (bound_to E s role i) c (d\<lparr>c_n_path := i + 1\<rparr>) \<and> opening_as s t (d\<lparr>c_n_path := i + 1\<rparr>)"
    if "tcp_listener E i \<lparr>ep_address = resolved E (sd_dst_addr s ! i), ep_port = hton16 E (sd_dst_port s)\<rparr> c1 = (POTR_OK, d)"
      "role = POTR_ROLE_RECEIVER" "c1 = set_dst_resolved c i x \<or> c1 = set_src_resolved (set_dst_resolved c i x) i y" for c1 d x y
    using that(2,3) f unfolding tcp_listener_cases[OF assms(5) that(1) refl]
    by (auto simp: opened_defs opening_as_def set_dst_resolved_def set_src_resolved_def)
  obtain r d where st: "(if role = POTR_ROLE_RECEIVER then open_socket_tcp_receiver E c i else open_socket_tcp_sender E c i) = (r, d)"
    by (meson surj_pair)
  have s: "c_service c = s" using assms(1) by (simp add: opening_as_def)
  have "opened i (bound_to E s role i) c (d\<lparr>c_n_path := i + 1\<rparr>) \<and> opening_as s t (d\<lparr>c_n_path := i + 1\<rparr>)" if r: "r = POTR_OK"
  proof (cases "role = POTR_ROLE_RECEIVER")
    case True
    then show ?thesis using st r False lis rf resolve_ok
      by (fastforce simp: tcp_receiver_eq s Let_def split: sum.splits if_splits)
  next
    case snd: False
    then show ?thesis using st r f rf resolve_ok
      by (auto simp: open_socket_tcp_sender_def s Let_def opened_defs opening_as_def set_dst_resolved_def set_src_resolved_def
          split: sum.splits if_splits)
  qed
  then show ?thesis using st g False s by (simp add: tcp_path_def)
qed

interpretation tcp: path_opener "\<lambda>c. opening_as s t c \<and> is_tcp_type t \<and> causes_ok E"
  "path_given s role" "bound_to E s role" "tcp_path E role" for E s t role
proof
  fix c i assume "opening_as s t c \<and> is_tcp_type t \<and> causes_ok E" "c_n_path c = i" "i < POTR_MAX_PATH"
  then show "case tcp_path E role i c of Path_end \<Rightarrow> \<not> path_given s role i | Path_fail r c' \<Rightarrow> r \<noteq> POTR_OK
      | Path_ok c' \<Rightarrow> path_given s role i \<and> opened i (bound_to E s role i) c c' \<and> opening_as s t c' \<and> is_tcp_type t \<and> causes_ok E"
    using tcp_turn[of s t c i E role] by (cases "tcp_path E role i c") simp_all
qed

section \<open>All types\<close>

lemma at_least_one_ok: "at_least_one x = (POTR_OK, c) \<longleftrightarrow> x = (POTR_OK, c) \<and> 0 < c_n_path c"
  by (auto simp: at_least_one_def split: prod.splits if_splits)

text \<open>The outcome of opening, for the service definition that the context has afterwards.\<close>

definition paths_ready :: "cplat \<Rightarrow> potr_role \<Rightarrow> potr_context \<Rightarrow> potr_context \<Rightarrow> bool" where
  "paths_ready E role c c' \<longleftrightarrow>
     (let s = c_service c'; n = c_n_path c'
      in 0 < n \<and> n \<le> POTR_MAX_PATH \<and> (\<forall>i<n. path_given s role i) \<and> (n < POTR_MAX_PATH \<longrightarrow> \<not> path_given s role n) \<and>
         binds_of (c_trace c') = binds_of (c_trace c) @ bound_list (bound_to E s role) [0..<n] \<and> kept c' = kept c)"

lemma paths_readyI: "paths_opened (path_given s role) (bound_to E s role) 0 c c' \<Longrightarrow> c_service c = s \<Longrightarrow> 0 < c_n_path c' \<Longrightarrow> paths_ready E role c c'"
  by (simp add: paths_opened_def paths_ready_def Let_def)

lemma single_socket:
  assumes "open_socket_unicast E c 0 a p = (ok, c1)" "ok"
  shows "c1 = c\<lparr>c_tick := Suc (Suc (c_tick c)), c_trace := c_trace c @ [Io_bind 0 \<lparr>ep_address = a, ep_port = hton16 E p\<rparr>]\<rparr>"
  using assms by (simp add: open_unicast_eq Let_def split: if_splits)

lemma open_bidir:
  assumes "raw_base_type (sd_type (c_service c)) = POTR_TYPE_UNICAST_BIDIR" "c_n_path c = 0" "length (c_src_addr_resolved c) = POTR_MAX_PATH"
    and "api_open_paths_unicast_bidir E c role = (POTR_OK, c')"
  shows "paths_ready E role c c' \<and> c_service c' = c_service c \<and> \<not> c_is_multi_peer c' \<and> c_peers c' = c_peers c \<and> c_n_peers c' = c_n_peers c"
proof -
  let ?s = "c_service c" and ?c = "c\<lparr>c_is_multi_peer := False\<rparr>"
  have k: "kept ?c = kept c" "c_trace ?c = c_trace c" by (simp_all add: kept_def)
  show ?thesis
  proof (cases "role = POTR_ROLE_RECEIVER \<and> sd_src_addr ?s ! 0 = []")
    case True
    let ?d = "sd_dst_addr ?s ! 0"
    let ?a = "if ?d = [] then CPLAT_IPV4_ADDR_ANY else resolved E ?d"
    let ?c1 = "if ?d = [] then ?c else set_dst_resolved ?c 0 (resolved E ?d)"
    obtain ok c2 where o: "open_socket_unicast E ?c1 0 ?a (sd_dst_port ?s) = (ok, c2)" by (meson surj_pair)
    have "?d = [] \<or> api_paths_resolve_ipv4 E ?d = Inr (resolved E ?d)"
    proof (cases "api_paths_resolve_ipv4 E ?d")
      case (Inl r)
      then show ?thesis using assms(4) True resolve_fail[OF Inl]
        by (simp add: api_open_paths_unicast_bidir_def Let_def split: if_splits)
    qed (simp add: resolved_def)
    then have "api_open_paths_unicast_bidir E c role = (if sd_dst_port ?s = 0 then (POTR_ERR_INVALID_ARGUMENT, ?c)
        else if ok then (POTR_OK, c2\<lparr>c_sock := (c_sock c2)[0 := True], c_n_path := 1\<rparr>)
        else (POTR_ERR_IO, c2\<lparr>c_sock := (c_sock c2)[0 := False]\<rparr>))"
      using o True by (cases "?d = []") (simp_all add: api_open_paths_unicast_bidir_def Let_def)
    then have ok: ok and c': "c' = c2\<lparr>c_sock := (c_sock c2)[0 := True], c_n_path := 1\<rparr>"
      using assms(4) by (simp_all split: if_splits)
    have nb: "bound_list b [0] = map (Pair 0) (case b 0 of None \<Rightarrow> [] | Some e \<Rightarrow> [e])" for b by (simp add: bound_list_def)
    show ?thesis using True assms(1,2) unfolding c' single_socket[OF o ok]
      by (cases "?d = []") (simp_all add: paths_ready_def path_given_def bound_to_def kept_def set_dst_resolved_def nb Let_def)
  next
    case False
    then have "open_each (unicast_bidir_path E role) [0..<POTR_MAX_PATH] ?c = (POTR_OK, c')" and pos: "0 < c_n_path c'"
      using assms(4) by (auto simp: api_open_paths_unicast_bidir_def Let_def at_least_one_ok split: if_splits)
    then have "paths_opened (path_given ?s role) (bound_to E ?s role) 0 ?c c'"
      by (intro bidir.all_opened) (use False assms(1-3) in \<open>auto simp: opening_as_def\<close>)
    then show ?thesis using pos k by (simp add: paths_opened_def paths_ready_def Let_def)
  qed
qed

lemma open_n1:
  assumes "raw_base_type (sd_type (c_service c)) = POTR_TYPE_UNICAST_BIDIR_N1" "c_n_path c = 0" "length (c_src_addr_resolved c) = POTR_MAX_PATH"
    and "api_open_paths_unicast_bidir_n1 E psz c = (POTR_OK, c')"
  shows "paths_ready E role c c' \<and> c_service c' = c_service c \<and> c_is_multi_peer c' \<and>
    c_peers c' = replicate (n1_max_peers (c_service c)) peer_zero \<and> c_n_peers c' = 0"
proof -
  let ?s = "c_service c" and ?c = "c\<lparr>c_is_multi_peer := True\<rparr>"
  obtain r c1 where st: "(if sd_dst_addr ?s ! 0 = [] then
             (let (ok, c1) = open_socket_unicast E ?c 0 CPLAT_IPV4_ADDR_ANY (sd_dst_port ?s);
                  c2 = c1\<lparr>c_sock := (c_sock c1)[0 := ok]\<rparr>
              in if \<not> ok then (POTR_ERR_IO, c2) else (POTR_OK, c2\<lparr>c_n_path := 1\<rparr>))
           else open_each (n1_path E) [0..<POTR_MAX_PATH] ?c) = (r, c1)" by (meson surj_pair)
  let ?c2 = "c1\<lparr>c_tick := Suc (c_tick c1)\<rparr>"
  have r: "r = POTR_OK" and c': "c' = ?c2\<lparr>c_peers := replicate (n1_max_peers ?s) peer_zero, c_n_peers := 0, c_next_peer_id := 1\<rparr>"
    using assms(4) st by (auto simp: api_open_paths_unicast_bidir_n1_def Let_def plat_call_def peer_table_init_def split: if_splits)
  have "paths_opened (path_given ?s role) (bound_to E ?s role) 0 ?c c1 \<and> 0 < c_n_path c1"
  proof (cases "sd_dst_addr ?s ! 0 = []")
    case True
    obtain ok d where o: "open_socket_unicast E ?c 0 CPLAT_IPV4_ADDR_ANY (sd_dst_port ?s) = (ok, d)" by (meson surj_pair)
    have ok: ok and c1: "c1 = d\<lparr>c_sock := (c_sock d)[0 := True], c_n_path := 1\<rparr>" using st r True o by (auto simp: Let_def split: if_splits)
    show ?thesis using True assms(1,2) unfolding c1 single_socket[OF o ok]
      by (simp add: paths_opened_def path_given_def bound_to_def bound_list_def kept_def)
  next
    case False
    then have p: "paths_opened (path_given ?s role) (bound_to E ?s role) 0 ?c c1"
      by (intro n1.all_opened) (use st r assms(1-3) in \<open>auto simp: opening_as_def\<close>)
    moreover have "path_given ?s role 0" using False assms(1) by (simp add: path_given_def)
    ultimately show ?thesis by (cases "c_n_path c1") (auto simp: paths_opened_def)
  qed
  then show ?thesis unfolding c' by (simp add: paths_opened_def paths_ready_def kept_def Let_def)
qed

text \<open>The loop over the paths, for a context whose broadcast address may have been defaulted.\<close>

lemma opens_ready:
  assumes "paths_opened (path_given s role) (bound_to E s role) 0 (c\<lparr>c_service := s\<rparr>) c'" "s = (c_service c)\<lparr>sd_broadcast_addr := b\<rparr>"
    "0 < c_n_path c'" "\<not> c_is_multi_peer c" "raw_base_type (sd_type s) \<noteq> POTR_TYPE_UNICAST_BIDIR_N1"
  shows "paths_ready E role c c' \<and> c_service c' = (c_service c)\<lparr>sd_broadcast_addr := sd_broadcast_addr (c_service c')\<rparr> \<and>
    (c_is_multi_peer c' \<longleftrightarrow> raw_base_type (sd_type (c_service c)) = POTR_TYPE_UNICAST_BIDIR_N1) \<and>
    c_peers c' = (if c_is_multi_peer c' then replicate (n1_max_peers (c_service c)) peer_zero else c_peers c) \<and>
    c_n_peers c' = (if c_is_multi_peer c' then 0 else c_n_peers c)"
  using assms by (simp add: paths_opened_def paths_ready_def kept_def Let_def)

lemmas opens_ready_same = opens_ready[where s = "c_service c" and b = "sd_broadcast_addr (c_service c)" and c = c for c, simplified]

lemma tcp_ready:
  assumes "causes_ok E" "c_n_path c = 0" "length (c_src_addr_resolved c) = POTR_MAX_PATH" "\<not> c_is_multi_peer c"
    and "api_open_paths_tcp E c role = (POTR_OK, c')" "is_tcp_type (raw_base_type (sd_type (c_service c)))"
  shows "paths_ready E role c c' \<and> c_service c' = (c_service c)\<lparr>sd_broadcast_addr := sd_broadcast_addr (c_service c')\<rparr> \<and>
    (c_is_multi_peer c' \<longleftrightarrow> raw_base_type (sd_type (c_service c)) = POTR_TYPE_UNICAST_BIDIR_N1) \<and>
    c_peers c' = (if c_is_multi_peer c' then replicate (n1_max_peers (c_service c)) peer_zero else c_peers c) \<and>
    c_n_peers c' = (if c_is_multi_peer c' then 0 else c_n_peers c)"
proof -
  have o: "open_each (tcp_path E role) [0..<POTR_MAX_PATH] c = (POTR_OK, c')" and pos: "0 < c_n_path c'"
    using assms(5) by (auto simp: api_open_paths_tcp_def at_least_one_ok Let_def split: if_splits)
  have "paths_opened (path_given (c_service c) role) (bound_to E (c_service c) role) 0 c c'"
    using tcp.all_opened[OF _ assms(2) _ o, of "c_service c" "raw_base_type (sd_type (c_service c))"] assms(1,3,6) by (simp add: opening_as_def)
  then show ?thesis using assms(4,6) pos
    by (intro opens_ready_same) auto
qed

lemma by_type_opens:
  assumes "causes_ok E" "c_n_path c = 0" "length (c_src_addr_resolved c) = POTR_MAX_PATH" "\<not> c_is_multi_peer c"
    and "api_open_paths_by_type E psz c role = (POTR_OK, c')"
  shows "paths_ready E role c c' \<and> c_service c' = (c_service c)\<lparr>sd_broadcast_addr := sd_broadcast_addr (c_service c')\<rparr> \<and>
    (c_is_multi_peer c' \<longleftrightarrow> raw_base_type (sd_type (c_service c)) = POTR_TYPE_UNICAST_BIDIR_N1) \<and>
    c_peers c' = (if c_is_multi_peer c' then replicate (n1_max_peers (c_service c)) peer_zero else c_peers c) \<and>
    c_n_peers c' = (if c_is_multi_peer c' then 0 else c_n_peers c)"
proof (cases "raw_base_type (sd_type (c_service c))")
  case POTR_TYPE_UNICAST
  then have o: "open_each (unicast_path E role) [0..<POTR_MAX_PATH] c = (POTR_OK, c')" and pos: "0 < c_n_path c'"
    using assms(5) by (auto simp: api_open_paths_by_type_def api_open_paths_unicast_def at_least_one_ok split: if_splits)
  from uni.all_opened[OF _ assms(2) _ o] show ?thesis
    by (intro opens_ready_same[OF _ pos assms(4)]) (use POTR_TYPE_UNICAST assms(3) in \<open>auto simp: opening_as_def\<close>)
next
  case POTR_TYPE_MULTICAST
  then have o: "open_each (multicast_path E role) [0..<POTR_MAX_PATH] c = (POTR_OK, c')" and pos: "0 < c_n_path c'"
    using assms(5) by (auto simp: api_open_paths_by_type_def api_open_paths_multicast_def at_least_one_ok split: if_splits)
  from multi.all_opened[OF _ assms(2) _ o] show ?thesis
    by (intro opens_ready_same[OF _ pos assms(4)]) (use POTR_TYPE_MULTICAST assms(3) in \<open>auto simp: opening_as_def\<close>)
next
  case POTR_TYPE_BROADCAST
  let ?b = "if sd_broadcast_addr (c_service c) = [] then ''255.255.255.255'' else sd_broadcast_addr (c_service c)"
  let ?c = "c\<lparr>c_service := (c_service c)\<lparr>sd_broadcast_addr := ?b\<rparr>\<rparr>"
  have "(if sd_broadcast_addr (c_service c) = [] then c\<lparr>c_service := (c_service c)\<lparr>sd_broadcast_addr := ''255.255.255.255''\<rparr>\<rparr> else c) = ?c"
    by simp
  then have o: "open_each (broadcast_path E role) [0..<POTR_MAX_PATH] ?c = (POTR_OK, c')" and pos: "0 < c_n_path c'"
    using assms(5) POTR_TYPE_BROADCAST
    by (simp_all add: api_open_paths_by_type_def api_open_paths_broadcast_def at_least_one_ok split: if_splits)
  from broad.all_opened[OF _ _ _ o] show ?thesis
    by (intro opens_ready[OF _ refl pos assms(4)]) (use POTR_TYPE_BROADCAST assms(2,3) in \<open>auto simp: opening_as_def\<close>)
next
  case POTR_TYPE_UNICAST_BIDIR
  then show ?thesis using open_bidir[OF POTR_TYPE_UNICAST_BIDIR assms(2,3), of E role c'] assms(5)
    by (auto simp: api_open_paths_by_type_def)
next
  case POTR_TYPE_UNICAST_BIDIR_N1
  then show ?thesis using open_n1[OF POTR_TYPE_UNICAST_BIDIR_N1 assms(2,3), of E psz c' role] assms(5)
    by (auto simp: api_open_paths_by_type_def)
next
  case POTR_TYPE_TCP
  with assms(5) show ?thesis using tcp_ready[OF assms(1-4), of role c'] by (simp add: api_open_paths_by_type_def)
next
  case POTR_TYPE_TCP_BIDIR
  with assms(5) show ?thesis using tcp_ready[OF assms(1-4), of role c'] by (simp add: api_open_paths_by_type_def)
qed (use assms(5) in \<open>simp_all add: api_open_paths_by_type_def\<close>)


text \<open>A unicast receiver with two paths, before its sockets are opened.\<close>

definition demo_unopened :: potr_context where
  "demo_unopened = demo_ctx\<lparr>c_n_path := 0, c_sock := replicate POTR_MAX_PATH False,
     c_service := demo_service\<lparr>sd_type := POTR_TYPE_UNICAST, sd_src_addr := [''10.0.0.1'', ''10.0.1.1'', [], []],
       sd_dst_addr := [''10.0.0.20'', ''10.0.1.200'', [], []]\<rparr>\<rparr>"

lemma demo_opens:
  "fst (api_open_paths_by_type demo_cplat 0 demo_unopened POTR_ROLE_RECEIVER) = POTR_OK"
  "c_n_path (snd (api_open_paths_by_type demo_cplat 0 demo_unopened POTR_ROLE_RECEIVER)) = 2"
  by (simp_all add: demo_unopened_def demo_ctx_def demo_service_def demo_cplat_def api_open_paths_by_type_def api_open_paths_unicast_def
      unicast_path_def api_paths_resolve_ipv4_def open_socket_unicast_def plat_call_def emit_def add_path_def at_least_one_def
      set_src_resolved_def set_dst_resolved_def Let_def upt_rec)


end
