(* ===== verification/Connect_Prepare.thy ===== *)
theory Connect_Prepare
  imports Recv_Validate Open_Paths
begin

text \<open>
  \<^verbatim>\<open>thread/thread_connect_prepare.c\<close>: establishing a TCP connection with a time limit, the filter
  for accepted connections, and the first packet of an accepted connection, whose session decides
  what becomes of the connection.

  What the socket delivers is an argument: whether it became readable in time, and for a read at
  an offset of the buffer the bytes or the failure.
\<close>

unbundle bit_operations_syntax

section \<open>Definitions\<close>

type_synonym recv_all_fun = "nat \<Rightarrow> nat \<Rightarrow> (cplat_result \<times> cplat_cause) + bytes"

text \<open>The first packet: the result and the filled part of the buffer.\<close>

definition read_first_packet :: "cplat \<Rightarrow> cplat_cause + bool \<Rightarrow> recv_all_fun \<Rightarrow> nat \<Rightarrow> potr_result \<times> bytes" where
  "read_first_packet E readable recv_all max_buf =
    (case readable of
       Inl cause \<Rightarrow> (result_from_error cause, [])
     | Inr ready \<Rightarrow>
         if \<not> ready then (POTR_ERR_TIMEOUT, [])
         else case recv_all 0 POTR_PACKET_HEADER_SIZE of
           Inl (r, cause) \<Rightarrow> (result_from_socket_result E r (Some cause), [])
         | Inr hdr \<Rightarrow>
             (let wire_payload_len = unat (ntoh16 E (load16 E hdr 34))
              in if POTR_PACKET_HEADER_SIZE + wire_payload_len > max_buf then (POTR_ERR_PROTOCOL, [])
                 else if wire_payload_len > 0 then
                   (case recv_all POTR_PACKET_HEADER_SIZE wire_payload_len of
                      Inl (r, cause) \<Rightarrow> (result_from_socket_result E r (Some cause), [])
                    | Inr pl \<Rightarrow> (POTR_OK, hdr @ pl))
                 else (POTR_OK, hdr)))"

datatype tcp_session = TCP_SESSION_NEW | TCP_SESSION_SAME | TCP_SESSION_OLD

definition session_compare :: "cplat \<Rightarrow> potr_context \<Rightarrow> potr_packet \<Rightarrow> tcp_session" where
  "session_compare E c pkt =
    (let t = c_tcp c
     in if \<not> t_accepted_session_known t then TCP_SESSION_NEW
        else (let ts_cmp = timespec_cmp E (session_ts_from_hdr (session_tv_sec pkt) (session_tv_nsec pkt)) (t_accepted_session_ts t)
              in if ts_cmp > 0 then TCP_SESSION_NEW
                 else if ts_cmp < 0 then TCP_SESSION_OLD
                 else if session_id pkt > t_accepted_session_id t then TCP_SESSION_NEW
                 else if session_id pkt < t_accepted_session_id t then TCP_SESSION_OLD
                 else TCP_SESSION_SAME))"

text \<open>
  The wait for a connect in progress.  \<open>run\<close> tells whether the thread is still to run, as other
  threads may stop it at any time.
\<close>

function connect_poll :: "cplat \<Rightarrow> (nat \<Rightarrow> bool) \<Rightarrow> u32 \<Rightarrow> u32 \<Rightarrow> potr_context \<Rightarrow> bool \<times> u32 \<times> potr_context" where
  "connect_poll E run timeout_ms elapsed_ms c =
    (if elapsed_ms < timeout_ms \<and> run (c_tick c) then
       (let poll_ms = (if timeout_ms - elapsed_ms > 100 then 100 else timeout_ms - elapsed_ms);
            (answer, c1) = plat_call c (\<lambda>n. wait_connected E n poll_ms)
        in case answer of
             None \<Rightarrow> (False, elapsed_ms, c1)
           | Some True \<Rightarrow> (True, elapsed_ms, c1)
           | Some False \<Rightarrow> connect_poll E run timeout_ms (elapsed_ms + poll_ms) c1)
     else (False, elapsed_ms, c))"
  by pat_completeness auto
termination
proof (relation "measure (\<lambda>(E, run, timeout_ms, elapsed_ms, c). unat (timeout_ms - elapsed_ms))")
  fix E :: cplat and run :: "nat \<Rightarrow> bool" and t e :: u32 and c :: potr_context and poll x c1 ans b
  assume "e < t \<and> run (c_tick c)" "poll = (if t - e > 100 then 100 else t - e)"
  then have p: "0 < unat poll" "unat poll \<le> unat (t - e)"
    by (auto simp: word_less_nat_alt unat_sub word_le_nat_alt split: if_splits)
  have eq: "t - (e + poll) = (t - e) - poll" by simp
  have "unat (t - (e + poll)) < unat (t - e)" unfolding eq using p unat_sub[of poll "t - e"] by (simp add: word_le_nat_alt)
  then show "((E, run, t, e + poll, c1), E, run, t, e, c) \<in> measure (\<lambda>(E, run, timeout_ms, elapsed_ms, c). unat (timeout_ms - elapsed_ms))"
    by simp
qed simp

text \<open>Connecting the socket once it is open and bound.\<close>

definition await_connect :: "cplat \<Rightarrow> (nat \<Rightarrow> bool) \<Rightarrow> potr_context \<Rightarrow> nat \<Rightarrow> bool \<times> potr_context" where
  "await_connect E run c path_idx =
    (let s = c_service c; timeout_ms = sd_connect_timeout_ms s;
         addr = \<lparr>ep_address = c_dst_addr_resolved c ! path_idx, ep_port = hton16 E (sd_dst_port s)\<rparr>;
         (outcome, c1) = plat_call c (\<lambda>n. sock_connect E n addr)
     in if timeout_ms = 0 then (outcome = Connected, c1)
        else case outcome of
               Connected \<Rightarrow> (True, c1)
             | Connect_failed \<Rightarrow> (False, c1)
             | In_progress \<Rightarrow>
                 (let (ready, elapsed_ms, c2) = connect_poll E run timeout_ms 0 c1
                  in if \<not> ready then (False, c2) else plat_call c2 (pending_error_ok E)))"

definition thread_connect_with_timeout :: "cplat \<Rightarrow> (nat \<Rightarrow> bool) \<Rightarrow> potr_context \<Rightarrow> nat \<Rightarrow> bool \<times> potr_context" where
  "thread_connect_with_timeout E run c path_idx =
    (let s = c_service c; (opened, c1) = plat_call c (sock_open E)
     in if opened \<noteq> None then (False, c1)
        else if sd_src_addr s ! path_idx \<noteq> [] \<or> sd_src_port s \<noteq> 0 then
          (let bind_addr = \<lparr>ep_address = if sd_src_addr s ! path_idx \<noteq> [] then c_src_addr_resolved c1 ! path_idx else CPLAT_IPV4_ADDR_ANY,
                            ep_port = hton16 E (sd_src_port s)\<rparr>;
               (bound, c2) = plat_call c1 (\<lambda>n. sock_bind E n bind_addr)
           in if bound \<noteq> None then (False, c2) else await_connect E run (emit c2 (Io_bind path_idx bind_addr)) path_idx)
        else await_connect E run c1 path_idx)"

definition peer_allowed :: "cplat \<Rightarrow> potr_context \<Rightarrow> nat \<Rightarrow> cplat_ipv4_endpoint \<Rightarrow> bool" where
  "peer_allowed E c path_idx peer_addr \<longleftrightarrow>
    \<not> (sd_src_addr (c_service c) ! path_idx \<noteq> [] \<and> ep_address peer_addr \<noteq> c_src_addr_resolved c ! path_idx) \<and>
    \<not> (sd_src_port (c_service c) \<noteq> 0 \<and> ntoh16 E (ep_port peer_addr) \<noteq> sd_src_port (c_service c))"

declare connect_poll.simps [simp del]

section \<open>The first packet\<close>

text \<open>A read that succeeds delivers what was asked for.\<close>

definition reads_exactly :: "recv_all_fun \<Rightarrow> bool" where
  "reads_exactly recv_all \<longleftrightarrow> (\<forall>k n b. recv_all k n = Inr b \<longrightarrow> length b = n)"

lemma load16_append: "length hdr = POTR_PACKET_HEADER_SIZE \<Longrightarrow> load16 E (hdr @ pl) 34 = load16 E hdr 34"
  by (simp add: load16_def mem_read_def)

text \<open>
  C37: Reading the first packet of a connection stays within its buffer, whatever length the peer
  claims.  No read touches a byte beyond the buffer: two sockets that agree on the reads inside it
  are not told apart.  A packet that is accepted fills the buffer to the header and the claimed
  payload, no further, and the parser does not read past what was received.
\<close>

theorem first_packet_in_bounds:
  assumes "reads_exactly recv_all" "POTR_PACKET_HEADER_SIZE \<le> max_buf"
  shows "((\<forall>k n. k + n \<le> max_buf \<longrightarrow> recv_all' k n = recv_all k n) \<longrightarrow>
      read_first_packet E readable recv_all' max_buf = read_first_packet E readable recv_all max_buf) \<and>
    (case read_first_packet E readable recv_all max_buf of (r, buf) \<Rightarrow> length buf \<le> max_buf \<and>
       (buf \<noteq> [] \<longrightarrow> r = POTR_OK \<and> length buf = POTR_PACKET_HEADER_SIZE + unat (ntoh16 E (load16 E buf 34)) \<and>
          (\<forall>pkt. packet_parse E buf = Inr pkt \<longrightarrow> payload pkt = drop POTR_PACKET_HEADER_SIZE buf)))"
proof (intro conjI impI)
  show "read_first_packet E readable recv_all' max_buf = read_first_packet E readable recv_all max_buf"
    if "\<forall>k n. k + n \<le> max_buf \<longrightarrow> recv_all' k n = recv_all k n"
    using that assms(2) by (auto simp: read_first_packet_def Let_def split: sum.split)
  have parse: "payload pkt = drop POTR_PACKET_HEADER_SIZE buf"
    if "packet_parse E buf = Inr pkt" "length buf = POTR_PACKET_HEADER_SIZE + unat (ntoh16 E (load16 E buf 34))" for buf pkt
    using that by (auto simp: packet_parse_def mem_read_def Let_def split: if_splits)
  show "case read_first_packet E readable recv_all max_buf of (r, buf) \<Rightarrow> length buf \<le> max_buf \<and>
       (buf \<noteq> [] \<longrightarrow> r = POTR_OK \<and> length buf = POTR_PACKET_HEADER_SIZE + unat (ntoh16 E (load16 E buf 34)) \<and>
          (\<forall>pkt. packet_parse E buf = Inr pkt \<longrightarrow> payload pkt = drop POTR_PACKET_HEADER_SIZE buf))"
  proof (cases "snd (read_first_packet E readable recv_all max_buf) = []")
    case False
    then obtain hdr where h: "readable = Inr True" "recv_all 0 POTR_PACKET_HEADER_SIZE = Inr hdr"
      by (auto simp: read_first_packet_def split: sum.splits if_splits)
    have lh: "length hdr = POTR_PACKET_HEADER_SIZE" using assms(1) h(2) unfolding reads_exactly_def by blast
    let ?n = "unat (ntoh16 E (load16 E hdr 34))"
    have fit: "POTR_PACKET_HEADER_SIZE + ?n \<le> max_buf"
      using False h by (auto simp: read_first_packet_def Let_def split: if_splits)
    obtain pl where pl: "read_first_packet E readable recv_all max_buf = (POTR_OK, hdr @ pl)" "length pl = ?n"
    proof (cases "?n > 0")
      case True
      then obtain pl where "recv_all POTR_PACKET_HEADER_SIZE ?n = Inr pl"
        using False h fit by (auto simp: read_first_packet_def Let_def split: sum.splits)
      then show ?thesis using that[of pl] True h fit assms(1) by (auto simp: read_first_packet_def reads_exactly_def)
    qed (use that[of "[]"] h fit in \<open>simp add: read_first_packet_def\<close>)
    have "length (hdr @ pl) = POTR_PACKET_HEADER_SIZE + unat (ntoh16 E (load16 E (hdr @ pl) 34))"
      using lh pl(2) by (simp add: load16_append)
    then show ?thesis using pl fit lh parse[of "hdr @ pl"] by simp
  qed (auto split: prod.split)
qed

section \<open>The wait for a connection\<close>

lemma poll_advances:
  assumes "e < (t :: u32)" "p = (if t - e > 100 then 100 else t - e)"
  shows "unat (e + p) = unat e + unat p" "unat p = min 100 (unat t - unat e)" "e + p \<le> t"
proof -
  have d: "unat (t - e) = unat t - unat e" using assms(1) by (simp add: unat_sub less_imp_le)
  show p: "unat p = min 100 (unat t - unat e)" using assms(2) d by (auto simp: word_less_nat_alt)
  have "unat e + unat p \<le> unat t" using p assms(1) by (simp add: word_less_nat_alt)
  then show e: "unat (e + p) = unat e + unat p" using unsigned_less[of t, where 'a = nat] by (simp add: unat_word_ariths(1))
  show "e + p \<le> t" using \<open>unat e + unat p \<le> unat t\<close> e by (simp add: word_le_nat_alt)
qed

lemma poll_bounds:
  assumes "connect_poll E run t e c = (ready, e', c')" "e \<le> t"
  shows "e' \<le> t \<and> 100 * (c_tick c' - c_tick c) \<le> unat t - unat e + 99 \<and> c_tick c \<le> c_tick c' \<and> c' = c\<lparr>c_tick := c_tick c'\<rparr> \<and>
    (\<forall>n. c_tick c \<le> n \<and> n < c_tick c' \<longrightarrow> run n) \<and>
    (ready \<longrightarrow> c_tick c < c_tick c' \<and> (\<exists>ms. wait_connected E (c_tick c' - 1) ms = Some True))"
  using assms
proof (induction E run t e c rule: connect_poll.induct)
  case (1 E run t e c)
  show ?case
  proof (cases "e < t \<and> run (c_tick c)")
    case False
    then have "connect_poll E run t e c = (False, e, c)" by (subst connect_poll.simps) (simp only: if_False)
    then show ?thesis using "1.prems" by auto
  next
    case True
    define p where "p = (if t - e > 100 then 100 else t - e)"
    note adv = poll_advances[OF conjunct1[OF True] p_def]
    have lt: "unat e < unat t" using True by (simp add: word_less_nat_alt)
    let ?c1 = "c\<lparr>c_tick := Suc (c_tick c)\<rparr>"
    have call: "plat_call c (\<lambda>n. wait_connected E n p) = (wait_connected E (c_tick c) p, ?c1)" by (simp add: plat_call_def)
    have step: "connect_poll E run t e c = (case wait_connected E (c_tick c) p of None \<Rightarrow> (False, e, ?c1)
        | Some True \<Rightarrow> (True, e, ?c1) | Some False \<Rightarrow> connect_poll E run t (e + p) ?c1)"
      using True by (subst connect_poll.simps) (simp only: Let_def p_def[symmetric] call prod.case if_True simp_thms)
    show ?thesis
    proof (cases "wait_connected E (c_tick c) p")
      case None
      then show ?thesis using "1.prems" True lt unfolding step by (auto simp: less_Suc_eq)
    next
      case (Some b)
      show ?thesis
      proof (cases b)
        case b: True
        then have "ready \<and> e' = e \<and> c' = ?c1" using "1.prems"(1) Some unfolding step by simp
        then show ?thesis using Some b True lt "1.prems"(2) by (auto simp: less_Suc_eq)
      next
        case b: False
        then have rec: "connect_poll E run t (e + p) ?c1 = (ready, e', c')" using "1.prems"(1) Some unfolding step by simp
        have "False = b" "Some b = wait_connected E (c_tick c) p" using Some b by simp_all
        from "1.IH"[OF True p_def call[symmetric] refl _ _ rec adv(3)] Some b
        have ih: "e' \<le> t \<and> 100 * (c_tick c' - c_tick ?c1) \<le> unat t - unat (e + p) + 99 \<and> c_tick ?c1 \<le> c_tick c' \<and> c' = ?c1\<lparr>c_tick := c_tick c'\<rparr> \<and>
          (\<forall>n. c_tick ?c1 \<le> n \<and> n < c_tick c' \<longrightarrow> run n) \<and>
          (ready \<longrightarrow> c_tick ?c1 < c_tick c' \<and> (\<exists>ms. wait_connected E (c_tick c' - 1) ms = Some True))" by simp
        have "100 * (c_tick c' - c_tick c) \<le> unat t - unat e + 99"
        proof -
          define r where "r = c_tick c' - Suc (c_tick c)"
          have r: "100 * r \<le> unat t - (unat e + unat p) + 99" "c_tick c' - c_tick c = Suc r" using ih adv(1) by (auto simp: r_def)
          show ?thesis unfolding r(2) using r(1) adv(2) lt unfolding min_def by (cases "100 \<le> unat t - unat e") arith+
        qed
        moreover have "run n" if "c_tick c \<le> n" "n < c_tick c'" for n
          using that ih True by (cases "n = c_tick c") auto
        ultimately show ?thesis using ih by auto
      qed
    qed
  qed
qed

lemma await_bounds:
  assumes "await_connect E run c i = (connected, c')"
  shows "100 * (c_tick c' - c_tick c - 2) \<le> unat (sd_connect_timeout_ms (c_service c)) + 99 \<and>
    (connected \<longrightarrow> (\<exists>n<c_tick c'. sock_connect E n \<lparr>ep_address = c_dst_addr_resolved c ! i, ep_port = hton16 E (sd_dst_port (c_service c))\<rparr> = Connected \<or>
         (\<exists>ms. wait_connected E n ms = Some True \<and> pending_error_ok E (Suc n))))"
proof -
  let ?t = "sd_connect_timeout_ms (c_service c)" and ?c1 = "c\<lparr>c_tick := Suc (c_tick c)\<rparr>"
  let ?o = "sock_connect E (c_tick c) \<lparr>ep_address = c_dst_addr_resolved c ! i, ep_port = hton16 E (sd_dst_port (c_service c))\<rparr>"
  obtain ready e c2 where p: "connect_poll E run ?t 0 ?c1 = (ready, e, c2)" by (metis surj_pair)
  have b: "100 * (c_tick c2 - Suc (c_tick c)) \<le> unat ?t + 99" "Suc (c_tick c) \<le> c_tick c2"
    "ready \<Longrightarrow> \<exists>ms. wait_connected E (c_tick c2 - 1) ms = Some True" "ready \<Longrightarrow> Suc (c_tick c) < c_tick c2"
    using poll_bounds[OF p] by simp_all
  have "?o = Connected \<and> c' = ?c1 \<or> \<not> connected \<and> (c' = ?c1 \<or> c' = c2) \<or>
      ready \<and> connected = pending_error_ok E (c_tick c2) \<and> c' = c2\<lparr>c_tick := Suc (c_tick c2)\<rparr>"
    using assms p by (auto simp: await_connect_def plat_call_def Let_def split: if_splits connect_outcome.splits)
  then consider "?o = Connected" "c' = ?c1" | "\<not> connected" "c' = ?c1 \<or> c' = c2"
    | "ready" "connected = pending_error_ok E (c_tick c2)" "c' = c2\<lparr>c_tick := Suc (c_tick c2)\<rparr>" by blast
  then show ?thesis
  proof cases
    case 1
    then show ?thesis by auto
  next
    case 2
    then show ?thesis using b(1) by auto
  next
    case 3
    then obtain ms where "wait_connected E (c_tick c2 - 1) ms = Some True" using b(3) by blast
    then have "connected \<Longrightarrow> \<exists>n<c_tick c'. \<exists>ms. wait_connected E n ms = Some True \<and> pending_error_ok E (Suc n)"
      using 3 b(4) by (intro exI[of _ "c_tick c2 - 1"]) auto
    moreover have "100 * (c_tick c' - c_tick c - 2) \<le> unat ?t + 99" using 3 b(1) by simp
    ultimately show ?thesis by blast
  qed
qed

lemma attempt_cases:
  assumes "thread_connect_with_timeout E run c i = (connected, c')"
  shows "\<not> connected \<and> c_tick c' \<le> c_tick c + 4 \<or>
    (\<exists>d. await_connect E run d i = (connected, c') \<and> c_tick d \<le> c_tick c + 2 \<and> c_service d = c_service c \<and>
       c_dst_addr_resolved d = c_dst_addr_resolved c)"
proof -
  let ?c1 = "c\<lparr>c_tick := Suc (c_tick c)\<rparr>" and ?c2 = "c\<lparr>c_tick := Suc (Suc (c_tick c))\<rparr>"
  have "\<not> connected \<and> (c' = ?c1 \<or> c' = ?c2) \<or> await_connect E run ?c1 i = (connected, c') \<or>
      (\<exists>a. await_connect E run (emit ?c2 a) i = (connected, c'))"
    using assms by (auto simp: thread_connect_with_timeout_def plat_call_def Let_def split: if_splits)
  then show ?thesis
  proof (elim disjE exE)
    show ?thesis if "await_connect E run ?c1 i = (connected, c')" using that by (intro disjI2 exI[of _ ?c1]) simp
    show ?thesis if "await_connect E run (emit ?c2 a) i = (connected, c')" for a
      using that by (intro disjI2 exI[of _ "emit ?c2 a"]) (simp add: emit_def)
  qed auto
qed

text \<open>
  C38: An attempt to connect ends.  Waiting for a connect in progress takes at most one poll for
  every started 100 ms of the configured limit, and the accounted time never exceeds the limit,
  also close to the largest 32-bit value.  No poll follows a request to stop the thread.  The
  attempt as a whole makes at most four more calls of the platform, and with a limit it succeeds
  only if the connect succeeded at once or a poll reported it.
\<close>

theorem connect_attempt_ends:
  "(case connect_poll E run t 0 c of (ready, elapsed, c') \<Rightarrow>
      elapsed \<le> t \<and> 100 * (c_tick c' - c_tick c) \<le> unat t + 99 \<and> (\<forall>n. c_tick c \<le> n \<and> n < c_tick c' \<longrightarrow> run n)) \<and>
    (case thread_connect_with_timeout E run c i of (connected, c') \<Rightarrow>
      100 * (c_tick c' - c_tick c - 4) \<le> unat (sd_connect_timeout_ms (c_service c)) + 99 \<and>
      (connected \<longrightarrow> (\<exists>n<c_tick c'. sock_connect E n \<lparr>ep_address = c_dst_addr_resolved c ! i, ep_port = hton16 E (sd_dst_port (c_service c))\<rparr> = Connected \<or>
         (\<exists>ms. wait_connected E n ms = Some True \<and> pending_error_ok E (Suc n)))))"
proof -
  have z: "(0 :: u32) \<le> t" for t by simp
  have 1: "case connect_poll E run t 0 c of (ready, elapsed, c') \<Rightarrow>
      elapsed \<le> t \<and> 100 * (c_tick c' - c_tick c) \<le> unat t + 99 \<and> (\<forall>n. c_tick c \<le> n \<and> n < c_tick c' \<longrightarrow> run n)"
    using poll_bounds[OF _ z, of E run t c] by (auto split: prod.split)
  show ?thesis
  proof (rule conjI[OF 1])
    obtain connected c' where t: "thread_connect_with_timeout E run c i = (connected, c')" by (meson surj_pair)
    show "case thread_connect_with_timeout E run c i of (connected, c') \<Rightarrow>
      100 * (c_tick c' - c_tick c - 4) \<le> unat (sd_connect_timeout_ms (c_service c)) + 99 \<and>
      (connected \<longrightarrow> (\<exists>n<c_tick c'. sock_connect E n \<lparr>ep_address = c_dst_addr_resolved c ! i, ep_port = hton16 E (sd_dst_port (c_service c))\<rparr> = Connected \<or>
         (\<exists>ms. wait_connected E n ms = Some True \<and> pending_error_ok E (Suc n))))"
      unfolding t prod.case using attempt_cases[OF t] by (auto dest!: await_bounds)
  qed
qed

section \<open>Witnesses\<close>

text \<open>A peer that claims three bytes of payload, and a socket that fails on reads beyond 50 bytes.\<close>

definition demo_reads :: recv_all_fun where
  "demo_reads k n = Inr (map (\<lambda>j. if k + j = 35 then 3 else 0) [0..<n])"

definition demo_short_reads :: recv_all_fun where
  "demo_short_reads k n = (if k + n \<le> 50 then demo_reads k n else Inl (CPLAT_ERR_OTHER, CPLAT_CAUSE_ANY_OTHER))"

theorem first_packet_in_bounds_witness:
  "\<exists>buf. read_first_packet demo_cplat (Inr True) demo_reads 50 = (POTR_OK, buf) \<and> length buf = 43 \<and>
     read_first_packet demo_cplat (Inr True) demo_short_reads 50 = (POTR_OK, buf)"
proof -
  have "fst (read_first_packet demo_cplat (Inr True) demo_reads 50) = POTR_OK \<and> length (snd (read_first_packet demo_cplat (Inr True) demo_reads 50)) = 43"
    by code_simp
  then obtain buf where r: "read_first_packet demo_cplat (Inr True) demo_reads 50 = (POTR_OK, buf)" "length buf = 43"
    by (metis prod.collapse)
  have "reads_exactly demo_reads" by (simp add: reads_exactly_def demo_reads_def)
  from first_packet_in_bounds[OF this, of 50 demo_short_reads demo_cplat "Inr True"] r
  show ?thesis by (simp add: demo_short_reads_def)
qed

definition demo_slow :: cplat where
  "demo_slow = demo_cplat\<lparr>sock_connect := (\<lambda>_ _. In_progress), wait_connected := (\<lambda>_ _. Some False)\<rparr>"

theorem connect_attempt_ends_witness:
  "connect_poll demo_slow (\<lambda>n. True) 250 0 demo_ctx = (False, 250, demo_ctx\<lparr>c_tick := 3\<rparr>) \<and> 100 * 3 \<le> unat (250 :: u32) + 99"
proof -
  have tick: "c_tick demo_ctx = 0" by (simp add: demo_ctx_def)
  have "connect_poll demo_slow (\<lambda>n. True) 250 0 demo_ctx = (False, 250, demo_ctx\<lparr>c_tick := 3\<rparr>)"
    using tick by (simp add: connect_poll.simps plat_call_def demo_slow_def numeral_3_eq_3)
  then show ?thesis using connect_attempt_ends[where E = demo_slow and run = "\<lambda>n. True" and t = 250 and c = demo_ctx] tick by simp
qed

end
