(* ===== verification/Recv_Dispatch.thy ===== *)
theory Recv_Dispatch
  imports Recv_Validate
begin

text \<open>
  The dispatch of \<^verbatim>\<open>thread/thread_recv_dispatch.c\<close>: what a slot does with an authenticated packet of each
  kind.  The result tells whether the caller has to wake the health thread.
\<close>

unbundle bit_operations_syntax

section \<open>Definitions\<close>

definition apply_remote_path_ping_state :: "u8 list \<Rightarrow> bytes \<Rightarrow> nat \<Rightarrow> u8 list" where
  "apply_remote_path_ping_state dst src count =
    fold (\<lambda>i d. if src ! i \<noteq> POTR_PING_STATE_UNDEFINED then d[i := src ! i] else d) [0..<count] dst"

definition wake_udp_interrupt_ping :: "potr_context \<Rightarrow> bool \<Rightarrow> potr_context" where
  "wake_udp_interrupt_ping c state_changed =
    (if state_changed \<and> sd_type (c_service c) = POTR_TYPE_UNICAST_BIDIR then health_thread_wake c else c)"

definition dispatch_fin :: "cplat \<Rightarrow> potr_context \<Rightarrow> slot_ref \<Rightarrow> potr_packet \<Rightarrow> bool \<times> potr_context" where
  "dispatch_fin E c r pkt =
    (let (adopted, c1) = (if slot_is_peer r then (True, c) else session_adopt E c r pkt)
     in if \<not> adopted then (False, c1)
        else (let (action, fin_target_seq, c2) = fin_on_packet c1 r pkt
              in (False, case action of
                    THREAD_RECV_FIN_FIRE \<Rightarrow> fin_fire E c2 r fin_target_seq
                  | THREAD_RECV_FIN_PENDING \<Rightarrow> c2
                  | THREAD_RECV_FIN_IGNORED \<Rightarrow> c2)))"

definition dispatch_ping :: "cplat \<Rightarrow> potr_context \<Rightarrow> slot_ref \<Rightarrow> potr_packet \<Rightarrow> nat \<Rightarrow> bool \<times> potr_context" where
  "dispatch_ping E c r pkt path_idx =
    (let (ping_state_changed, c1) = update_path_health E c r path_idx;
         c2 = (if unat (payload_len pkt) \<ge> POTR_MAX_PATH \<and> payload pkt \<noteq> []
               then upd_slot c1 r (\<lambda>st. st\<lparr>s_remote_path_ping_state :=
                      apply_remote_path_ping_state (s_remote_path_ping_state st) (payload pkt) POTR_MAX_PATH\<rparr>)
               else c1)
     in if is_raw_type (sd_type (c_service c2)) then
          (False, recv_sync_path_state (window_scan_ping_gap E c2 r pkt) r)
        else
          (let c3 = (if slot_is_peer r then c2 else wake_udp_interrupt_ping c2 ping_state_changed);
               c4 = recv_sync_path_state c3 r;
               c5 = window_scan_ping_gap E c4 r pkt
           in (slot_is_peer r \<and> ping_state_changed, c5)))"

definition dispatch_packet ::
  "cplat \<Rightarrow> potr_context \<Rightarrow> slot_ref \<Rightarrow> potr_packet \<Rightarrow> nat \<Rightarrow> cplat_ipv4_endpoint \<Rightarrow> bool \<times> potr_context" where
  "dispatch_packet E c r pkt path_idx sender =
    (if flags pkt AND POTR_FLAG_FIN \<noteq> 0 then dispatch_fin E c r pkt
     else if flags pkt AND POTR_FLAG_NACK \<noteq> 0 then
       (False, if slot_is_peer r then window_on_nack E c r pkt else c)
     else if flags pkt AND POTR_FLAG_REJECT \<noteq> 0 then (False, window_on_reject E c r pkt path_idx sender)
     else if flags pkt AND (POTR_FLAG_DATA OR POTR_FLAG_PING) = 0 then (False, c)
     else
       (let (adopted, c1) = session_adopt E c r pkt
        in if \<not> adopted then (False, c1)
           else
             (let c2 = learn_sender_path c1 r path_idx sender
              in if flags pkt AND POTR_FLAG_PING \<noteq> 0 then dispatch_ping E c2 r pkt path_idx
                 else (False, window_accept_outer E c2 r pkt path_idx))))"

section \<open>Steps\<close>

lemma length_apply_remote [simp]: "length (apply_remote_path_ping_state dst src n) = length dst"
proof -
  have "length (fold (\<lambda>i d. if src ! i \<noteq> POTR_PING_STATE_UNDEFINED then d[i := src ! i] else d) is dst) = length dst" for "is"
    by (induction "is" arbitrary: dst) simp_all
  then show ?thesis by (simp add: apply_remote_path_ping_state_def)
qed

lemma apply_remote_nth:
  assumes "n \<le> length dst"
  shows "apply_remote_path_ping_state dst src n ! i =
    (if i < n \<and> src ! i \<noteq> POTR_PING_STATE_UNDEFINED then src ! i else dst ! i)"
  unfolding apply_remote_path_ping_state_def using assms
proof (induction n)
  case (Suc n)
  let ?d = "fold (\<lambda>i d. if src ! i \<noteq> POTR_PING_STATE_UNDEFINED then d[i := src ! i] else d) [0..<n] dst"
  have "length ?d = length dst" using length_apply_remote[of dst src n] by (simp add: apply_remote_path_ping_state_def)
  then show ?case using Suc by (auto simp: nth_list_update less_Suc_eq)
qed simp

lemma local_step_wake_udp: "local_step r c (wake_udp_interrupt_ping c b)"
  by (simp add: wake_udp_interrupt_ping_def local_step_wake)

lemma slot_run_dispatch_fin: "slot_run r c (snd (dispatch_fin E c r pkt))"
proof -
  obtain adopted c1 where a: "(if slot_is_peer r then (True, c) else session_adopt E c r pkt) = (adopted, c1)" by (meson surj_pair)
  have s1: "local_step r c c1" using a local_step_session_adopt[of r c E pkt] by (auto split: if_splits)
  obtain act t c2 where f: "fin_on_packet c1 r pkt = (act, t, c2)" by (rule prod_cases3)
  have s2: "local_step r c c2" using local_step_trans[OF s1 local_step_fin_on_packet[of r c1 pkt]] f by simp
  show ?thesis unfolding dispatch_fin_def a prod.case Let_def f
    using slot_run_local[OF s1] slot_run_local[OF s2] slot_run_seq[OF s2 slot_run_fin_fire]
    by (auto split: fin_action.split)
qed

lemma local_step_dispatch_ping:
  assumes "raw_is_single c r"
  shows "local_step r c (snd (dispatch_ping E c r pkt k))"
proof (rule local_step_inv)
  assume ok: "slot_ok c r" and inv: "slot_inv (c_global c) (get_slot c r)"
  obtain changed c1 where u: "update_path_health E c r k = (changed, c1)" by (meson surj_pair)
  have s1: "local_step r c c1" using local_step_update_health[of r c E k] u by simp
  let ?c2 = "if unat (payload_len pkt) \<ge> POTR_MAX_PATH \<and> payload pkt \<noteq> []
               then upd_slot c1 r (\<lambda>st. st\<lparr>s_remote_path_ping_state :=
                      apply_remote_path_ping_state (s_remote_path_ping_state st) (payload pkt) POTR_MAX_PATH\<rparr>) else c1"
  have "local_step r c1 ?c2" by (auto intro!: local_step_upd slot_inv_lists simp: slot_inv_lengths)
  from local_step_trans[OF s1 this] have s2: "local_step r c ?c2" .
  have raw: "raw_is_single x r" if "local_step r c x" for x using raw_single_local[OF that ok inv] assms by simp
  let ?c4 = "recv_sync_path_state (if slot_is_peer r then ?c2 else wake_udp_interrupt_ping ?c2 changed) r"
  have s4: "local_step r c ?c4"
    using local_step_trans[OF s2 local_step_sync] local_step_trans[OF s2 local_step_trans[OF local_step_wake_udp local_step_sync]] by simp
  show "local_step r c (snd (dispatch_ping E c r pkt k))"
  proof (cases "is_raw_type (sd_type (c_service ?c2))")
    case True
    then show ?thesis unfolding dispatch_ping_def u prod.case Let_def
      using local_step_trans[OF s2 local_step_trans[OF local_step_scan_ping[OF raw[OF s2]] local_step_sync]] by simp
  next
    case False
    then show ?thesis unfolding dispatch_ping_def u prod.case Let_def
      using local_step_trans[OF s4 local_step_scan_ping[OF raw[OF s4]]] by simp
  qed
qed

lemma slot_run_dispatch:
  assumes "pkt_fits (c_global c) pkt" "raw_is_single c r"
  shows "slot_run r c (snd (dispatch_packet E c r pkt k sender))"
  unfolding slot_run_def
proof (intro impI, elim conjE)
  assume ok: "slot_ok c r" and inv: "slot_inv (c_global c) (get_slot c r)"
  obtain adopted c1 where a: "session_adopt E c r pkt = (adopted, c1)" by (meson surj_pair)
  have s1: "local_step r c c1" using local_step_session_adopt[of r c E pkt] a by simp
  let ?c2 = "learn_sender_path c1 r k sender"
  have s2: "local_step r c ?c2" by (rule local_step_trans[OF s1 local_step_learn])
  have raw: "raw_is_single ?c2 r" using raw_single_local[OF s2 ok inv] assms(2) by simp
  have fits: "pkt_fits (c_global ?c2) pkt" using local_stepD(6)[OF s2 ok inv] assms(1) by simp
  have "slot_run r c (snd (if flags pkt AND POTR_FLAG_PING \<noteq> 0 then dispatch_ping E ?c2 r pkt k
      else (False, window_accept_outer E ?c2 r pkt k)))"
    using slot_run_local[OF local_step_trans[OF s2 local_step_dispatch_ping[OF raw, of E pkt k]]]
      slot_run_seq[OF s2 slot_run_accept[OF fits raw, of E k]] by simp
  then have dp: "slot_run r c (snd (let (adopted, c1) = session_adopt E c r pkt in if \<not> adopted then (False, c1)
      else (let c2 = learn_sender_path c1 r k sender
            in if flags pkt AND POTR_FLAG_PING \<noteq> 0 then dispatch_ping E c2 r pkt k
               else (False, window_accept_outer E c2 r pkt k))))"
    using slot_run_local[OF s1] unfolding a prod.case Let_def by (cases adopted) (simp_all only: if_True if_False simp_thms snd_conv)
  have "slot_run r c (snd (dispatch_packet E c r pkt k sender))"
    unfolding dispatch_packet_def
    using dp slot_run_dispatch_fin[of r c E pkt] slot_run_local[OF local_step_on_nack[of r c E pkt]]
      slot_run_on_reject[of r c E pkt k sender] slot_run_local[OF local_step_refl[of r c]]
    by (simp only: snd_conv split: if_split) blast
  then show "local_step r c (snd (dispatch_packet E c r pkt k sender)) \<or>
     (\<exists>i c1. r = PeerSlot i \<and> local_step r c c1 \<and> view_of (get_slot c1 r) = view_start \<and>
        snd (dispatch_packet E c r pkt k sender) = peer_free c1 i)"
    using ok inv unfolding slot_run_def by blast
qed

end
