(* ===== verification/Recv_Health.thy ===== *)
theory Recv_Health
  imports Recv_Dispatch
begin

text \<open>
  The timeouts of \<^verbatim>\<open>thread/thread_recv_health.c\<close>: paths from which nothing has been heard for the health
  timeout, and connections all of whose paths are silent, in the one-to-one modes and for the
  peers of an N:1 service.
\<close>

unbundle bit_operations_syntax

section \<open>Peers of an N:1 service\<close>

text \<open>One turn of the loop over the paths of peer \<open>i\<close>; the flag tells whether a state changed.\<close>

definition peer_path_timeout :: "cplat \<Rightarrow> cplat_timespec \<Rightarrow> nat \<Rightarrow> nat \<Rightarrow> bool \<times> potr_context \<Rightarrow> bool \<times> potr_context" where
  "peer_path_timeout E now_ts i k = (\<lambda>(path_state_changed, c).
    let p = c_peers c ! i; st = p_slot p
    in if endpoint_is_unset (s_dest_addr st ! k) then (path_state_changed, c)
       else if tv_sec (s_path_last_recv_ts st ! k) = 0 then (path_state_changed, c)
       else if timespec_diff_ms E now_ts (s_path_last_recv_ts st ! k) \<ge> int (unat (c_health_timeout_ms c)) then
         (let (state_changed, states) = set_path_ping_state (s_path_ping_state st) k POTR_PING_STATE_ABNORMAL
          in (path_state_changed \<or> state_changed,
              put_peer c i (peer_path_clear (p\<lparr>p_slot := st\<lparr>s_path_ping_state := states\<rparr>\<rparr>) k)))
       else (path_state_changed, c))"

definition health_check_peer :: "cplat \<Rightarrow> cplat_timespec \<Rightarrow> potr_context \<Rightarrow> nat \<Rightarrow> bool \<times> potr_context" where
  "health_check_peer E now_ts c i =
    (if \<not> p_active (c_peers c ! i) \<or> \<not> s_health_alive (p_slot (c_peers c ! i)) then (False, c)
     else
       (let (path_state_changed, c1) = fold (peer_path_timeout E now_ts i) [0..<POTR_MAX_PATH] (False, c);
            c2 = (if path_state_changed then recv_sync_path_state c1 (PeerSlot i) else c1);
            last_recv_ts = s_last_recv_ts (p_slot (c_peers c2 ! i))
        in if tv_sec last_recv_ts = 0 then (path_state_changed, c2)
           else if timespec_diff_ms E now_ts last_recv_ts \<ge> int (unat (c_health_timeout_ms c2)) then
             (let c3 = upd_slot c2 (PeerSlot i) (\<lambda>st. st\<lparr>s_remote_path_ping_state := replicate POTR_MAX_PATH 0\<rparr>);
                  c4 = recv_disconnect_peer_all_paths c3 i
              in (path_state_changed, peer_free c4 i))
           else (path_state_changed, c2)))"

definition health_check_peers :: "cplat \<Rightarrow> potr_context \<Rightarrow> potr_context" where
  "health_check_peers E c =
    (let (now_ts, c1) = clock_get_monotonic E c
     in if c_health_timeout_ms c1 = 0 then c1
        else (let (should_wake_health, c2) =
                    fold (\<lambda>i (wake, c). let (changed, c') = health_check_peer E now_ts c i in (wake \<or> changed, c'))
                      [0..<length (c_peers c1)] (False, c1)
              in if should_wake_health then health_thread_wake c2 else c2))"

section \<open>TCP wake-up\<close>

definition health_wake_tcp :: "cplat \<Rightarrow> potr_context \<Rightarrow> nat \<Rightarrow> bool \<Rightarrow> potr_context" where
  "health_wake_tcp E c path_idx state_changed =
    (if state_changed \<and> is_tcp_type (sd_type (c_service c)) then
       (if c_health_interval_ms c > 0 \<and> c_health_running c ! path_idx then tcp_health_thread_wake_all c
        else snd (tcp_send_ping_now E c path_idx))
     else c)"

section \<open>One-to-one services\<close>

text \<open>One turn of the loop over the paths of the service.\<close>

definition service_path_timeout :: "cplat \<Rightarrow> cplat_timespec \<Rightarrow> nat \<Rightarrow> bool \<times> potr_context \<Rightarrow> bool \<times> potr_context" where
  "service_path_timeout E now_ts i = (\<lambda>(path_state_changed, c).
    let st = c_slot c
    in if tv_sec (s_path_last_recv_ts st ! i) = 0 then (path_state_changed, c)
       else if timespec_diff_ms E now_ts (s_path_last_recv_ts st ! i) \<ge> int (unat (c_health_timeout_ms c)) then
         (let (state_changed, states) = set_path_ping_state (s_path_ping_state st) i POTR_PING_STATE_ABNORMAL;
              d = s_dest_addr st ! i;
              d1 = (if sd_src_addr (c_service c) ! 0 = [] then d\<lparr>ep_address := 0\<rparr> else d);
              d2 = (if sd_src_port (c_service c) = 0 then d1\<lparr>ep_port := 0\<rparr> else d1);
              dest = (if sd_type (c_service c) = POTR_TYPE_UNICAST_BIDIR then (s_dest_addr st)[i := d2] else s_dest_addr st)
          in (path_state_changed \<or> state_changed,
              upd_slot (c\<lparr>c_peer_port := (c_peer_port c)[i := 0]\<rparr>) CtxSlot (\<lambda>st. st\<lparr>s_path_ping_state := states,
                s_path_last_recv_ts := (s_path_last_recv_ts st)[i := (s_path_last_recv_ts st ! i)\<lparr>tv_sec := 0\<rparr>],
                s_dest_addr := dest\<rparr>)))
       else (path_state_changed, c))"

definition health_check_service :: "cplat \<Rightarrow> potr_context \<Rightarrow> potr_context" where
  "health_check_service E c =
    (if c_health_timeout_ms c = 0 then c
     else
       (let (now_ts, c1) = clock_get_monotonic E c;
            (path_state_changed, c2) = fold (service_path_timeout E now_ts) [0..<c_n_path c1] (False, c1);
            c3 = (if path_state_changed then recv_sync_path_state c2 CtxSlot else c2);
            st = c_slot c3
        in if \<not> s_health_alive st \<or> tv_sec (s_last_recv_ts st) = 0 then c3
           else if timespec_diff_ms E now_ts (s_last_recv_ts st) \<ge> int (unat (c_health_timeout_ms c3)) then
             (let (reset_changed, states) =
                    set_all_path_ping_states (s_path_ping_state st) POTR_MAX_PATH POTR_PING_STATE_UNDEFINED;
                  c4 = upd_slot c3 CtxSlot (\<lambda>st. (slot_clear_pending_fin st)\<lparr>s_peer_session_known := False,
                         s_reorder_pending := False, s_last_recv_ts := (s_last_recv_ts st)\<lparr>tv_sec := 0\<rparr>,
                         s_path_ping_state := states, s_remote_path_ping_state := replicate POTR_MAX_PATH 0\<rparr>);
                  c5 = recv_disconnect_service_all_paths c4;
                  c6 = upd_slot c5 CtxSlot (\<lambda>st. st\<lparr>s_recv_window := snd (window_init E (s_recv_window st) 0
                         (gc_window_size (c_global c)) (gc_max_payload (c_global c)))\<rparr>)
              in wake_udp_interrupt_ping c6 (path_state_changed \<or> reset_changed))
           else wake_udp_interrupt_ping c3 path_state_changed))"

section \<open>Steps\<close>

lemma length_set_path_ping [simp]: "length (snd (set_path_ping_state s k x)) = length s"
  by (simp add: set_path_ping_state_def)

lemma local_step_peer_path_timeout: "local_step (PeerSlot i) c (snd (peer_path_timeout E now i k (b, c)))"
proof -
  obtain ch states where s: "set_path_ping_state (s_path_ping_state (p_slot (c_peers c ! i))) k POTR_PING_STATE_ABNORMAL = (ch, states)"
    by (meson surj_pair)
  have l: "length states = length (s_path_ping_state (p_slot (c_peers c ! i)))"
    using s length_set_path_ping[of "s_path_ping_state (p_slot (c_peers c ! i))" k POTR_PING_STATE_ABNORMAL] by simp
  have "local_step (PeerSlot i) c (put_peer c i (peer_path_clear ((c_peers c ! i)\<lparr>p_slot := (p_slot (c_peers c ! i))\<lparr>s_path_ping_state := states\<rparr>\<rparr>) k))"
    by (rule local_step_put_peer) (auto simp: peer_path_clear_def Let_def slot_inv_lengths l intro!: slot_inv_lists)
  then show ?thesis by (auto simp: peer_path_timeout_def Let_def s)
qed

lemma local_step_peer_timeouts: "local_step (PeerSlot i) c (snd (fold (peer_path_timeout E now i) ks (b, c)))"
proof (induction ks arbitrary: b c)
  case (Cons k ks)
  obtain b' c' where s: "peer_path_timeout E now i k (b, c) = (b', c')" by (meson surj_pair)
  have "local_step (PeerSlot i) c c'" using local_step_peer_path_timeout[of i c E now k b] s by simp
  then show ?case using Cons.IH[of c' b'] s by (auto intro: local_step_trans)
qed simp

lemma slot_run_check_peer: "slot_run (PeerSlot i) c (snd (health_check_peer E now c i))"
proof (cases "\<not> p_active (c_peers c ! i) \<or> \<not> s_health_alive (p_slot (c_peers c ! i))")
  case True
  then show ?thesis by (simp add: health_check_peer_def slot_run_local)
next
  case False
  obtain b c1 where f: "fold (peer_path_timeout E now i) [0..<POTR_MAX_PATH] (False, c) = (b, c1)" by (meson surj_pair)
  have s1: "local_step (PeerSlot i) c c1" using local_step_peer_timeouts[of i c E now "[0..<POTR_MAX_PATH]" False] f by simp
  let ?c2 = "if b then recv_sync_path_state c1 (PeerSlot i) else c1"
  have s2: "local_step (PeerSlot i) c ?c2" using s1 local_step_trans[OF s1 local_step_sync] by simp
  let ?c3 = "upd_slot ?c2 (PeerSlot i) (\<lambda>st. st\<lparr>s_remote_path_ping_state := replicate POTR_MAX_PATH 0\<rparr>)"
  have s3: "local_step (PeerSlot i) c ?c3" by (rule local_step_trans[OF s2 local_step_upd]) (auto intro: slot_inv_lists)
  have fr: "slot_run (PeerSlot i) c (peer_free (recv_disconnect_peer_all_paths ?c3 i) i)"
  proof (rule slot_run_seq[OF s3])
    assume ok: "slot_ok ?c3 (PeerSlot i)" and inv: "slot_inv (c_global ?c3) (get_slot ?c3 (PeerSlot i))"
    have "view_of (get_slot (recv_disconnect_peer_all_paths ?c3 i) (PeerSlot i)) = view_start"
      using disconnect_view(1)[OF ok inv] by (simp only: recv_disconnect_all_paths.simps)
    then show "slot_run (PeerSlot i) ?c3 (peer_free (recv_disconnect_peer_all_paths ?c3 i) i)"
      unfolding slot_run_def using local_step_disconnect_peer by blast
  qed
  show ?thesis unfolding health_check_peer_def f prod.case Let_def
    using False fr slot_run_local[OF s2] by (simp only: if_False snd_conv split: if_split) blast
qed

lemma local_step_service_path_timeout: "local_step CtxSlot c (snd (service_path_timeout E now i (b, c)))"
proof -
  obtain ch states where s: "set_path_ping_state (s_path_ping_state (c_slot c)) i POTR_PING_STATE_ABNORMAL = (ch, states)"
    by (meson surj_pair)
  have l: "length states = length (s_path_ping_state (c_slot c))"
    using s length_set_path_ping[of "s_path_ping_state (c_slot c)" i POTR_PING_STATE_ABNORMAL] by simp
  have "local_step CtxSlot c (upd_slot (c\<lparr>c_peer_port := pp\<rparr>) CtxSlot (\<lambda>st. st\<lparr>s_path_ping_state := states,
                s_path_last_recv_ts := (s_path_last_recv_ts st)[i := (s_path_last_recv_ts st ! i)\<lparr>tv_sec := 0\<rparr>],
                s_dest_addr := d\<rparr>))" if "length d = length (s_dest_addr (c_slot c))" for pp d
    by (rule local_step_trans[OF local_step_peer_port local_step_upd])
      (use that in \<open>auto simp: slot_inv_lengths l intro!: slot_inv_lists\<close>)
  then show ?thesis by (auto simp: service_path_timeout_def Let_def s simp del: put_slot.simps)
qed

lemma local_step_service_timeouts: "local_step CtxSlot c (snd (fold (service_path_timeout E now) ks (b, c)))"
proof (induction ks arbitrary: b c)
  case (Cons k ks)
  obtain b' c' where s: "service_path_timeout E now k (b, c) = (b', c')" by (meson surj_pair)
  have "local_step CtxSlot c c'" using local_step_service_path_timeout[of c E now k b] s by simp
  then show ?case using Cons.IH[of c' b'] s by (auto intro: local_step_trans)
qed simp

lemma local_step_check_service: "local_step CtxSlot c (health_check_service E c)"
proof (rule local_step_inv)
  assume ok: "slot_ok c CtxSlot" and inv: "slot_inv (c_global c) (get_slot c CtxSlot)"
  obtain now c1 where k: "clock_get_monotonic E c = (now, c1)" by (meson surj_pair)
  obtain b c2 where f: "fold (service_path_timeout E now) [0..<c_n_path c1] (False, c1) = (b, c2)" by (meson surj_pair)
  have s2: "local_step CtxSlot c c2"
    using local_step_trans[OF local_step_clock(1)[OF k] local_step_service_timeouts[of c1 E now "[0..<c_n_path c1]" False]] f by simp
  let ?c3 = "if b then recv_sync_path_state c2 CtxSlot else c2"
  have s3: "local_step CtxSlot c ?c3" using s2 local_step_trans[OF s2 local_step_sync] by simp
  obtain rc states where a: "set_all_path_ping_states (s_path_ping_state (c_slot ?c3)) POTR_MAX_PATH POTR_PING_STATE_UNDEFINED = (rc, states)"
    by (meson surj_pair)
  have l: "length states = length (s_path_ping_state (c_slot ?c3))"
    using a length_set_all[of "s_path_ping_state (c_slot ?c3)" POTR_MAX_PATH POTR_PING_STATE_UNDEFINED] by simp
  let ?c5 = "recv_disconnect_service_all_paths (upd_slot ?c3 CtxSlot (\<lambda>st. (slot_clear_pending_fin st)\<lparr>s_peer_session_known := False,
                         s_reorder_pending := False, s_last_recv_ts := (s_last_recv_ts st)\<lparr>tv_sec := 0\<rparr>,
                         s_path_ping_state := states, s_remote_path_ping_state := replicate POTR_MAX_PATH 0\<rparr>))"
  have s5: "local_step CtxSlot c ?c5"
    by (rule local_step_trans[OF s3 local_step_trans[OF local_step_upd local_step_disconnect_service]])
      (use l in \<open>auto simp: slot_inv_lengths intro!: slot_inv_lists\<close>)
  have g: "c_global ?c5 = c_global c" by (rule local_step_global[OF s5 ok inv])
  have s6: "local_step CtxSlot c (upd_slot ?c5 CtxSlot (\<lambda>st. st\<lparr>s_recv_window := snd (window_init E (s_recv_window st) 0
                         (gc_window_size (c_global c)) (gc_max_payload (c_global c)))\<rparr>))"
    by (rule local_step_trans[OF s5 local_step_reinit[OF g, where f = "\<lambda>st. st"]]) simp_all
  show "local_step CtxSlot c (health_check_service E c)"
    unfolding health_check_service_def k prod.case Let_def f a[unfolded Let_def]
    using s3 local_step_trans[OF s3 local_step_wake_udp] local_step_trans[OF s6 local_step_wake_udp] local_step_refl
    by (simp only: split: if_split) blast
qed

lemma local_step_wake_tcp: "local_step r c (health_wake_tcp E c i b)"
  by (simp add: health_wake_tcp_def local_step_wake_all local_step_ping_now)

section \<open>Silent services\<close>

text \<open>Whether the time since the last packet of path \<open>k\<close> has reached the timeout.\<close>

definition service_timed_out :: "cplat \<Rightarrow> cplat_timespec \<Rightarrow> potr_context \<Rightarrow> nat \<Rightarrow> bool" where
  "service_timed_out E now c k \<longleftrightarrow> tv_sec (s_path_last_recv_ts (c_slot c) ! k) \<noteq> 0 \<and>
     timespec_diff_ms E now (s_path_last_recv_ts (c_slot c) ! k) \<ge> int (unat (c_health_timeout_ms c))"

lemma service_path_timeout_step:
  assumes "tv_sec (s_path_last_recv_ts (c_slot c) ! i) \<noteq> 0"
    "timespec_diff_ms E now (s_path_last_recv_ts (c_slot c) ! i) \<ge> int (unat (c_health_timeout_ms c))"
  shows "\<exists>d pp. service_path_timeout E now i (b, c) =
    (b \<or> s_path_ping_state (c_slot c) ! i \<noteq> POTR_PING_STATE_ABNORMAL, c\<lparr>c_peer_port := pp, c_slot := (c_slot c)
      \<lparr>s_path_ping_state := (s_path_ping_state (c_slot c))[i := POTR_PING_STATE_ABNORMAL],
       s_path_last_recv_ts := (s_path_last_recv_ts (c_slot c))[i := (s_path_last_recv_ts (c_slot c) ! i)\<lparr>tv_sec := 0\<rparr>],
       s_dest_addr := d\<rparr>\<rparr>)"
proof -
  let ?st = "c_slot c"
  have s: "set_path_ping_state (s_path_ping_state ?st) i POTR_PING_STATE_ABNORMAL =
      (s_path_ping_state ?st ! i \<noteq> POTR_PING_STATE_ABNORMAL, (s_path_ping_state ?st)[i := POTR_PING_STATE_ABNORMAL])"
    by (auto simp: set_path_ping_state_def list_update_same_conv) (metis list_update_id)
  show ?thesis
    unfolding service_path_timeout_def prod.case Let_def upd_slot_def s put_slot.simps get_slot.simps
    by (rule exI, rule exI[of _ "(c_peer_port c)[i := 0]"]) (use assms in \<open>simp only: if_False if_True, simp\<close>)
qed

lemma service_timeouts_spec:
  assumes "slot_inv (c_global c) (c_slot c)" "n \<le> POTR_MAX_PATH"
  shows "let (b, c') = fold (service_path_timeout E now) [0..<n] (False, c); st = c_slot c; st' = c_slot c' in
    (\<forall>k<POTR_MAX_PATH. s_path_ping_state st' ! k =
       (if k < n \<and> service_timed_out E now c k then POTR_PING_STATE_ABNORMAL else s_path_ping_state st ! k)) \<and>
    (b \<longleftrightarrow> (\<exists>k<n. service_timed_out E now c k \<and> s_path_ping_state st ! k \<noteq> POTR_PING_STATE_ABNORMAL)) \<and>
    (\<forall>k\<ge>n. s_path_last_recv_ts st' ! k = s_path_last_recv_ts st ! k) \<and>
    length (s_path_ping_state st') = POTR_MAX_PATH \<and> length (s_path_last_recv_ts st') = POTR_MAX_PATH \<and>
    c_service c' = c_service c \<and> c_health_timeout_ms c' = c_health_timeout_ms c \<and> c_trace c' = c_trace c \<and>
    c_callback c' = c_callback c \<and>
    s_path_logical_alive st' = s_path_logical_alive st \<and> s_health_alive st' = s_health_alive st \<and>
    s_peer_session_known st' = s_peer_session_known st \<and> s_recv_window st' = s_recv_window st \<and>
    s_last_recv_ts st' = s_last_recv_ts st \<and> s_reorder_pending st' = s_reorder_pending st"
  using assms(2)
proof (induction n)
  case 0
  then show ?case using assms(1) by (simp add: slot_inv_def)
next
  case (Suc n)
  obtain b1 c1 where f: "fold (service_path_timeout E now) [0..<n] (False, c) = (b1, c1)" by (meson surj_pair)
  note IH = Suc.IH[unfolded f Let_def prod.case, OF Suc_leD[OF Suc.prems]]
  have ts: "s_path_last_recv_ts (c_slot c1) ! n = s_path_last_recv_ts (c_slot c) ! n" and
    tm: "c_health_timeout_ms c1 = c_health_timeout_ms c" and
    pn: "s_path_ping_state (c_slot c1) ! n = s_path_ping_state (c_slot c) ! n" and n: "n < 4"
    using IH Suc.prems by auto
  have fold: "fold (service_path_timeout E now) [0..<Suc n] (False, c) = service_path_timeout E now n (b1, c1)" by (simp add: f)
  show ?case
  proof (cases "service_timed_out E now c n")
    case False
    then have "service_path_timeout E now n (b1, c1) = (b1, c1)"
      unfolding service_path_timeout_def service_timed_out_def prod.case Let_def ts tm by auto
    then show ?thesis unfolding fold Let_def using IH False by (auto simp: less_Suc_eq)
  next
    case True
    then obtain d pp where step: "service_path_timeout E now n (b1, c1) =
        (b1 \<or> s_path_ping_state (c_slot c1) ! n \<noteq> POTR_PING_STATE_ABNORMAL, c1\<lparr>c_peer_port := pp, c_slot := (c_slot c1)
          \<lparr>s_path_ping_state := (s_path_ping_state (c_slot c1))[n := POTR_PING_STATE_ABNORMAL],
           s_path_last_recv_ts := (s_path_last_recv_ts (c_slot c1))[n := (s_path_last_recv_ts (c_slot c1) ! n)\<lparr>tv_sec := 0\<rparr>],
           s_dest_addr := d\<rparr>\<rparr>)"
      using service_path_timeout_step[of c1 n E now b1] ts tm by (auto simp: service_timed_out_def)
    show ?thesis unfolding fold step Let_def prod.case pn
      using IH True n by (auto simp: less_Suc_eq nth_list_update)
  qed
qed


definition demo_silent :: potr_context where
  "demo_silent = demo_ctx\<lparr>c_tick := 9, c_slot := (c_slot demo_ctx)\<lparr>s_peer_session_known := True, s_health_alive := True,
     s_path_logical_alive := [True, False, False, False], s_path_ping_state := [POTR_PING_STATE_NORMAL, 0, 0, 0],
     s_last_recv_ts := \<lparr>tv_sec = 1, tv_nsec = 0\<rparr>,
     s_path_last_recv_ts := [\<lparr>tv_sec = 1, tv_nsec = 0\<rparr>, timespec_zero, timespec_zero, timespec_zero]\<rparr>\<rparr>"


end
