(* ===== verification/Context_Inv.thy ===== *)
theory Context_Inv
  imports Recv_Health
begin

text \<open>
  The invariant of a whole context: the peer table is consistent, the slot of a one-to-one
  service and the slot of every active peer are well formed, and the callbacks recorded for
  each peer identifier form a legal history that ends in the path states stored for it.  It is kept
  by every operation on a slot, by the release of a disconnected peer and by peer creation.
\<close>

section \<open>Definitions\<close>

text \<open>The path states stored for a peer identifier.\<close>

definition view_at :: "potr_context \<Rightarrow> potr_peer_id \<Rightarrow> bool list \<times> bool" where
  "view_at c pid = (if pid = POTR_PEER_NA then view_of (c_slot c)
     else case peer_find_by_id c pid of Some i \<Rightarrow> view_of (p_slot (c_peers c ! i)) | None \<Rightarrow> view_start)"

definition ctx_inv :: "potr_context \<Rightarrow> bool" where
  "ctx_inv c \<longleftrightarrow> table_inv c \<and> (\<not> c_is_multi_peer c \<longrightarrow> slot_inv (c_global c) (c_slot c)) \<and>
     (\<forall>i<length (c_peers c). p_active (c_peers c ! i) \<longrightarrow> slot_inv (c_global c) (p_slot (c_peers c ! i))) \<and>
     0 < unat (gc_window_size (c_global c)) \<and> (c_is_multi_peer c \<longrightarrow> \<not> is_raw_type (sd_type (c_service c))) \<and>
     (c_callback c \<longrightarrow> (\<forall>pid. view_run view_start (events_of pid (c_trace c)) = Some (view_at c pid)))"

text \<open>The slots that operations work on: the context's own, or that of an active peer.\<close>

fun slot_live :: "potr_context \<Rightarrow> slot_ref \<Rightarrow> bool" where
  "slot_live c CtxSlot = (\<not> c_is_multi_peer c)"
| "slot_live c (PeerSlot i) = (c_is_multi_peer c \<and> i < length (c_peers c) \<and> p_active (c_peers c ! i))"

lemma slot_live_ok:
  assumes "ctx_inv c" "slot_live c r"
  shows "slot_ok c r" "slot_inv (c_global c) (get_slot c r)" "raw_is_single c r"
  using assms by (cases r; simp add: ctx_inv_def raw_is_single_def)+

section \<open>Local steps\<close>

lemma active_ids_maps:
  assumes "map p_peer_id ps' = map p_peer_id ps" "map p_active ps' = map p_active ps"
  shows "active_ids ps' = active_ids ps"
proof -
  have "active_ids qs = map fst (filter snd (zip (map p_peer_id qs) (map p_active qs)))" for qs
    by (induction qs) (simp_all add: active_ids_def)
  then show ?thesis using assms by simp
qed

lemma frame_peers:
  assumes "ctx_frame c c'"
  shows "length (c_peers c') = length (c_peers c)"
    and "i < length (c_peers c) \<Longrightarrow> p_peer_id (c_peers c' ! i) = p_peer_id (c_peers c ! i)"
    and "i < length (c_peers c) \<Longrightarrow> p_active (c_peers c' ! i) = p_active (c_peers c ! i)"
    and "peer_holds c' i pid = peer_holds c i pid"
proof -
  have m: "map p_peer_id (c_peers c') = map p_peer_id (c_peers c)" "map p_active (c_peers c') = map p_active (c_peers c)"
    using assms by (simp_all add: ctx_frame_def)
  show l: "length (c_peers c') = length (c_peers c)" using m(1) by (rule map_eq_imp_length_eq)
  show p: "p_peer_id (c_peers c' ! i) = p_peer_id (c_peers c ! i)" if "i < length (c_peers c)" for i
    using arg_cong[OF m(1), of "\<lambda>xs. xs ! i"] that l by simp
  show a: "p_active (c_peers c' ! i) = p_active (c_peers c ! i)" if "i < length (c_peers c)" for i
    using arg_cong[OF m(2), of "\<lambda>xs. xs ! i"] that l by simp
  show "peer_holds c' i pid = peer_holds c i pid" using l p[of i] a[of i] by (auto simp: peer_holds_def)
qed

lemma frame_table: "ctx_frame c c' \<Longrightarrow> table_inv c \<Longrightarrow> table_inv c'"
  using table_inv_cong[of c c'] active_ids_maps[of "c_peers c'" "c_peers c"] frame_peers(1)[of c c'] by (simp add: ctx_frame_def)

lemma live_id:
  assumes "ctx_inv c" "slot_live c (PeerSlot i)"
  shows "peer_find_by_id c (p_peer_id (c_peers c ! i)) = Some i" "p_peer_id (c_peers c ! i) \<noteq> POTR_PEER_NA"
proof -
  have t: "table_inv c" using assms(1) by (simp add: ctx_inv_def)
  have h: "peer_holds c i (p_peer_id (c_peers c ! i))" using assms(2) by (simp add: peer_holds_def)
  show "peer_find_by_id c (p_peer_id (c_peers c ! i)) = Some i" using pt.lookup_iff[OF t] h by simp
  show "p_peer_id (c_peers c ! i) \<noteq> POTR_PEER_NA"
    using t active_ids_nthD[of i "c_peers c"] assms(2) by (auto simp: table_inv_def)
qed

lemma view_at_slot: "ctx_inv c \<Longrightarrow> slot_live c r \<Longrightarrow> view_at c (slot_peer_id c r) = view_of (get_slot c r)"
  using live_id by (cases r) (auto simp: view_at_def)

lemma view_at_other:
  assumes "ctx_inv c" "slot_live c r" "ctx_frame c c'" "\<And>r'. r' \<noteq> r \<Longrightarrow> get_slot c' r' = get_slot c r'" "pid \<noteq> slot_peer_id c r"
  shows "view_at c' pid = view_at c pid"
proof -
  have t: "table_inv c" using assms(1) by (simp add: ctx_inv_def)
  have f: "peer_find_by_id c' pid = peer_find_by_id c pid"
    by (rule pt.lookup_preserved[OF t frame_table[OF assms(3) t] frame_peers(4)[OF assms(3)]])
  show ?thesis
  proof (cases "pid = POTR_PEER_NA")
    case True
    then have "r \<noteq> CtxSlot" using assms(5) by auto
    then show ?thesis using assms(4)[of CtxSlot] True by (simp add: view_at_def)
  next
    case False
    have "p_slot (c_peers c' ! j) = p_slot (c_peers c ! j)" if "peer_find_by_id c pid = Some j" for j
    proof -
      have "peer_holds c j pid" using that pt.lookup_iff[OF t] by simp
      then have "PeerSlot j \<noteq> r" using assms(5) by (auto simp: peer_holds_def)
      from assms(4)[OF this] show ?thesis by simp
    qed
    then show ?thesis using False f by (auto simp: view_at_def split: option.split)
  qed
qed

lemma ctx_inv_local:
  assumes "ctx_inv c" "slot_live c r" "local_step r c c'"
  shows "ctx_inv c'" "slot_live c' r"
proof -
  note ok = slot_live_ok[OF assms(1,2)]
  note D = local_stepD[OF assms(3) ok(1,2)]
  note fr = D(1)[unfolded ctx_frame_def]
  note ps = frame_peers[OF D(1)]
  show "slot_live c' r" using assms(2) fr ps by (cases r) auto
  have slots: "slot_inv (c_global c') (get_slot c' r')" if "slot_inv (c_global c) (get_slot c r')" for r'
    using that D(2,6,7) by (cases "r' = r") simp_all
  from D(4) obtain xs where x: "c_trace c' = c_trace c @ xs"
    "\<And>pid. pid \<noteq> slot_peer_id c r \<Longrightarrow> events_of pid xs = []"
    "c_callback c \<Longrightarrow> view_run (view_of (get_slot c r)) (events_of (slot_peer_id c r) xs) = Some (view_of (get_slot c' r))"
    unfolding trace_step_def by blast
  have pid: "slot_peer_id c' r = slot_peer_id c r" using ps(2) ok(1) by (cases r) auto
  have live': "slot_live c' r" by fact
  have views: "view_run view_start (events_of pid (c_trace c')) = Some (view_at c' pid)" if "c_callback c" for pid
  proof (cases "pid = slot_peer_id c r")
    case False
    then show ?thesis using assms(1) that x(2)[OF False] view_at_other[OF assms(1,2) D(1,2) False]
      by (simp add: x(1) events_of_append ctx_inv_def)
  next
    case True
    have "view_run view_start (events_of pid (c_trace c)) = Some (view_of (get_slot c r))"
      using assms(1) that view_at_slot[OF assms(1,2)] True by (simp add: ctx_inv_def)
    moreover have "view_at c' pid = view_of (get_slot c' r)"
    proof (cases r)
      case (PeerSlot i)
      have "peer_holds c' i pid" using live' True PeerSlot ps(2)[of i] assms(2) by (auto simp: peer_holds_def)
      then have "peer_find_by_id c' pid = Some i" using pt.lookup_iff[OF frame_table[OF D(1)]] assms(1) by (simp add: ctx_inv_def)
      then show ?thesis using live_id(2)[OF assms(1)] assms(2) PeerSlot True by (simp add: view_at_def)
    qed (use True in \<open>simp add: view_at_def\<close>)
    ultimately show ?thesis using x(3)[OF that] True by (simp add: x(1) events_of_append view_run_append)
  qed
  show "ctx_inv c'"
    unfolding ctx_inv_def
  proof (intro conjI impI allI)
    show "table_inv c'" using frame_table[OF D(1)] assms(1) by (simp add: ctx_inv_def)
    show "\<not> c_is_multi_peer c' \<Longrightarrow> slot_inv (c_global c') (c_slot c')" using slots[of CtxSlot] assms(1) fr by (simp add: ctx_inv_def)
    show "slot_inv (c_global c') (p_slot (c_peers c' ! i))" if "i < length (c_peers c')" "p_active (c_peers c' ! i)" for i
      using slots[of "PeerSlot i"] assms(1) that ps(1) ps(3)[of i] by (simp add: ctx_inv_def)
    show "0 < unat (gc_window_size (c_global c'))" using assms(1) fr by (simp add: ctx_inv_def)
    show "c_is_multi_peer c' \<Longrightarrow> \<not> is_raw_type (sd_type (c_service c'))" using assms(1) fr by (simp add: ctx_inv_def)
    show "c_callback c' \<Longrightarrow> view_run view_start (events_of pid (c_trace c')) = Some (view_at c' pid)" for pid
      using views fr by simp
  qed
qed

section \<open>Release and creation of peers\<close>

lemma ctx_inv_free:
  assumes "ctx_inv c" "slot_live c (PeerSlot i)" "view_of (p_slot (c_peers c ! i)) = view_start"
  shows "ctx_inv (peer_free c i)"
proof -
  let ?c' = "peer_free c i"
  have t: "table_inv c" using assms(1) by (simp add: ctx_inv_def)
  have i: "i < length (c_peers c)" using assms(2) by simp
  have t': "table_inv ?c'" by (rule peer_free_inv[OF t i])
  have act: "p_active (c_peers ?c' ! j) \<Longrightarrow> j < length (c_peers c) \<Longrightarrow> j \<noteq> i \<and> p_active (c_peers c ! j)" for j
    using peer_free_inactive[OF i] by (cases "j = i") auto
  have holds: "peer_holds ?c' j pid \<longleftrightarrow> peer_holds c j pid \<and> j \<noteq> i" for j pid
    using peer_free_inactive[OF i] by (cases "j = i") (auto simp: peer_holds_def)
  have v: "view_at ?c' pid = view_at c pid" for pid
  proof (cases "peer_find_by_id c pid")
    case None
    then have "peer_find_by_id ?c' pid = None" using pt.lookup_None[OF t] pt.lookup_None[OF t'] holds by simp
    then show ?thesis using None by (simp add: view_at_def)
  next
    case (Some j)
    then have h: "peer_holds c j pid" using pt.lookup_iff[OF t] by simp
    show ?thesis
    proof (cases "j = i")
      case True
      have "peer_find_by_id ?c' pid = None"
        using pt.lookup_None[OF t'] holds pt.holds_unique[OF t h] True by auto
      then show ?thesis using Some assms(3) True by (simp add: view_at_def)
    next
      case False
      have "peer_find_by_id ?c' pid = Some j" using pt.lookup_iff[OF t'] holds h False by simp
      then show ?thesis using Some False by (simp add: view_at_def)
    qed
  qed
  show ?thesis unfolding ctx_inv_def
  proof (intro conjI impI allI)
    show "slot_inv (c_global ?c') (p_slot (c_peers ?c' ! j))" if "j < length (c_peers ?c')" "p_active (c_peers ?c' ! j)" for j
      using that act[of j] assms(1) by (simp add: ctx_inv_def)
    show "view_run view_start (events_of pid (c_trace ?c')) = Some (view_at ?c' pid)" if "c_callback ?c'" for pid
      using that v assms(1) by (simp add: ctx_inv_def)
  qed (use t' assms(1) in \<open>simp_all add: ctx_inv_def\<close>)
qed

lemma ctx_inv_run:
  assumes "ctx_inv c" "slot_live c r" "slot_run r c c'"
  shows "ctx_inv c'"
proof -
  consider "local_step r c c'"
    | i c1 where "r = PeerSlot i" "local_step r c c1" "view_of (get_slot c1 r) = view_start" "c' = peer_free c1 i"
    using assms(3) slot_live_ok[OF assms(1,2)] unfolding slot_run_def by blast
  then show ?thesis
  proof cases
    case 1 then show ?thesis using ctx_inv_local(1)[OF assms(1,2)] by blast
  next
    case 2
    note l = ctx_inv_local[OF assms(1,2) 2(2)]
    show ?thesis unfolding 2(4) by (rule ctx_inv_free[OF l(1)]) (use l(2) 2(1,3) in simp_all)
  qed
qed

lemma slot_inv_fresh:
  assumes "0 < unat (gc_window_size G)" "window_init E window_zero 0 (gc_window_size G) (gc_max_payload G) = (POTR_OK, w)"
  shows "slot_inv G (fresh_slot sid sts w w k ep)" "view_of (fresh_slot sid sts w w k ep) = view_start"
proof -
  have "win_init_pre window_zero" by (simp add: win_init_pre_def window_zero_def)
  from window_init_recv[OF this assms] window_init_wf[OF this assms]
  show "slot_inv G (fresh_slot sid sts w w k ep)" by (simp add: slot_inv_def fresh_slot_def slot_zero_def)
  show "view_of (fresh_slot sid sts w w k ep) = view_start"
    by (simp add: view_of_def fresh_slot_def slot_zero_def view_start_def)
qed

lemma ctx_inv_create_null:
  assumes "ctx_inv c" "peer_create E c ep k = (PC_null, c')"
  shows "ctx_inv c'"
proof -
  have t: "table_inv c" using assms(1) by (simp add: ctx_inv_def)
  note n = create_outcome_null[OF peer_create_outcome[OF t assms(2)] t]
  have holds: "peer_holds c' j pid = peer_holds c j pid" for j pid using n by (auto simp: peer_holds_def)
  have f: "peer_find_by_id c' pid = peer_find_by_id c pid" for pid
    by (rule pt.lookup_preserved[OF t _ holds]) (use n in simp)
  have "c_peers c' ! j = c_peers c ! j" if "peer_find_by_id c pid = Some j" for j pid
    using that pt.lookup_iff[OF t, of pid j] n by (simp add: peer_holds_def)
  then have "view_at c' pid = view_at c pid" for pid
    using n f by (auto simp: view_at_def split: option.split)
  then show ?thesis using assms(1) n unfolding ctx_inv_def by simp
qed

lemma ctx_inv_create:
  assumes "ctx_inv c" "peer_create E c ep k = (PC_created i, c')"
  shows "ctx_inv c'" "c_is_multi_peer c \<Longrightarrow> slot_live c' (PeerSlot i)" "c_global c' = c_global c" "c_is_multi_peer c' = c_is_multi_peer c"
    "c_service c' = c_service c"
proof -
  have t: "table_inv c" using assms(1) by (simp add: ctx_inv_def)
  note n = create_outcome_created[OF peer_create_outcome[OF t assms(2)] t]
  show "c_is_multi_peer c \<Longrightarrow> slot_live c' (PeerSlot i)" "c_global c' = c_global c" "c_is_multi_peer c' = c_is_multi_peer c"
    "c_service c' = c_service c" using n by simp_all
  let ?q = "p_peer_id (c_peers c' ! i)"
  have t': "table_inv c'" using n by simp
  have "?q \<noteq> POTR_PEER_NA" using n active_ids_nthD[of i "c_peers c'"] by (auto simp: table_inv_def)
  obtain sid sts w where w: "p_slot (c_peers c' ! i) = fresh_slot sid sts w w k ep"
    "window_init E window_zero 0 (gc_window_size (c_global c)) (gc_max_payload (c_global c)) = (POTR_OK, w)" using n by blast
  have ws: "0 < unat (gc_window_size (c_global c))" using assms(1) by (simp add: ctx_inv_def)
  note fresh = slot_inv_fresh[OF ws w(2), of sid sts k ep, folded w(1)]
  have "?q \<notin> set (active_ids (c_peers c))" using n by simp
  then have "\<not> peer_holds c j ?q" for j unfolding peer_holds_def using active_ids_nthD[of j "c_peers c"] by metis
  then have new: "peer_find_by_id c ?q = None" using pt.lookup_None[OF t] by simp
  have hold: "peer_holds c' i ?q" using n by (simp add: peer_holds_def)
  have holds: "peer_holds c' j pid = peer_holds c j pid" if "pid \<noteq> ?q" for j pid
    using n that by (cases "j = i") (auto simp: peer_holds_def)
  have v: "view_at c' pid = view_at c pid" for pid
  proof (cases "pid = ?q")
    case True
    have "peer_find_by_id c' pid = Some i" using pt.lookup_iff[OF t'] hold True by simp
    then show ?thesis using new True fresh(2) \<open>?q \<noteq> POTR_PEER_NA\<close> by (simp add: view_at_def)
  next
    case False
    have f: "peer_find_by_id c' pid = peer_find_by_id c pid" by (rule pt.lookup_preserved[OF t t' holds[OF False]])
    have "c_peers c' ! j = c_peers c ! j" if "peer_find_by_id c pid = Some j" for j
      using that pt.lookup_iff[OF t, of pid j] holds[OF False, of j] n by (cases "j = i") (auto simp: peer_holds_def)
    then show ?thesis using f n by (auto simp: view_at_def split: option.split)
  qed
  show "ctx_inv c'" unfolding ctx_inv_def
  proof (intro conjI impI allI)
    show "slot_inv (c_global c') (p_slot (c_peers c' ! j))" if "j < length (c_peers c')" "p_active (c_peers c' ! j)" for j
      using that n fresh(1) assms(1) by (cases "j = i") (auto simp: ctx_inv_def)
    show "view_run view_start (events_of pid (c_trace c')) = Some (view_at c' pid)" if "c_callback c'" for pid
      using that v n assms(1) by (simp add: ctx_inv_def)
  qed (use n t' assms(1) in \<open>simp_all add: ctx_inv_def\<close>)
qed

end
