(* ===== verification/Thread_Control.thy ===== *)
theory Thread_Control
  imports Peer_Table Platform
begin

text \<open>
  Starting and stopping the threads of a service: the last parts of \<^verbatim>\<open>thread/potr_send_thread.c\<close>,
  \<^verbatim>\<open>potr_recv_thread.c\<close> and \<^verbatim>\<open>potr_health_thread.c\<close>, start and stop of
  \<^verbatim>\<open>thread/potr_connect_thread.c\<close>, and \<^verbatim>\<open>api/api_context_cleanup.c\<close>.

  A thread handle is a flag of the context.  Locks and condition variables have no state; only
  whether the platform could create them matters.  A join that fails keeps the handle, which is
  how later code knows that the thread may still use the context.
\<close>

section \<open>Send thread\<close>

definition send_thread_start :: "cplat \<Rightarrow> potr_context \<Rightarrow> potr_result \<times> potr_context" where
  "send_thread_start E c =
    (let (locked, c1) = plat_call (c\<lparr>c_send_thread_running := True\<rparr>) (lock_create_ok E)
     in if \<not> locked then (POTR_ERR_UNKNOWN, c1\<lparr>c_send_thread_running := False\<rparr>)
        else (let (created, c2) = plat_call c1 (thread_create_ok E)
              in if \<not> created then (POTR_ERR_UNKNOWN, c2\<lparr>c_send_thread_running := False\<rparr>)
                 else (POTR_OK, c2\<lparr>c_send_thread := True\<rparr>)))"

text \<open>The shutdown of the queue only wakes waiting threads.\<close>

definition send_thread_stop :: "cplat \<Rightarrow> runtime \<Rightarrow> potr_context \<Rightarrow> potr_context" where
  "send_thread_stop E R c =
    (if \<not> c_send_thread c then c
     else (let (joined, c1) = thread_join E R Send_thread (c\<lparr>c_send_thread_running := False\<rparr>)
           in if \<not> joined then c1 else c1\<lparr>c_send_thread := False\<rparr>))"

section \<open>Receive threads\<close>

definition comm_recv_thread_start :: "cplat \<Rightarrow> potr_context \<Rightarrow> potr_result \<times> potr_context" where
  "comm_recv_thread_start E c =
    (let (created, c1) = plat_call (c\<lparr>c_running := (c_running c)[0 := True]\<rparr>) (thread_create_ok E)
     in if \<not> created then (POTR_ERR_UNKNOWN, c1\<lparr>c_running := (c_running c1)[0 := False]\<rparr>)
        else (POTR_OK, c1\<lparr>c_recv_thread := (c_recv_thread c1)[0 := True]\<rparr>))"

definition shutdown_receive :: "runtime \<Rightarrow> nat \<Rightarrow> potr_context \<Rightarrow> potr_context" where
  "shutdown_receive R i c = (if c_sock c ! i then c\<lparr>c_sock := (c_sock c)[i := rt_shutdown_keeps R i]\<rparr> else c)"

definition comm_recv_thread_stop :: "cplat \<Rightarrow> runtime \<Rightarrow> potr_context \<Rightarrow> potr_result \<times> potr_context" where
  "comm_recv_thread_stop E R c =
    (let c1 = fold (shutdown_receive R) [0..<c_n_path c] (c\<lparr>c_running := (c_running c)[0 := False]\<rparr>)
     in if \<not> c_recv_thread c1 ! 0 then (POTR_OK, c1)
        else (let (joined, c2) = thread_join E R (Recv_thread 0) c1
              in if \<not> joined then (POTR_ERR_UNKNOWN, c2)
                 else (POTR_OK, c2\<lparr>c_recv_thread := (c_recv_thread c2)[0 := False]\<rparr>)))"

definition tcp_recv_thread_start :: "cplat \<Rightarrow> potr_context \<Rightarrow> nat \<Rightarrow> potr_result \<times> potr_context" where
  "tcp_recv_thread_start E c i =
    (if i \<ge> POTR_MAX_PATH then (POTR_ERR_INVALID_ARGUMENT, c)
     else (let (created, c1) = plat_call (c\<lparr>c_running := (c_running c)[i := True]\<rparr>) (thread_create_ok E)
           in if \<not> created then (POTR_ERR_UNKNOWN, c1\<lparr>c_running := (c_running c1)[i := False]\<rparr>)
              else (POTR_OK, c1\<lparr>c_recv_thread := (c_recv_thread c1)[i := True]\<rparr>)))"

definition tcp_recv_thread_stop :: "cplat \<Rightarrow> runtime \<Rightarrow> potr_context \<Rightarrow> nat \<Rightarrow> potr_result \<times> potr_context" where
  "tcp_recv_thread_stop E R c i =
    (if i \<ge> POTR_MAX_PATH then (POTR_ERR_INVALID_ARGUMENT, c)
     else (let c1 = c\<lparr>c_running := (c_running c)[i := False]\<rparr>
           in if \<not> c_recv_thread c1 ! i then (POTR_OK, c1)
              else (let (joined, c2) = thread_join E R (Recv_thread i) c1
                    in if \<not> joined then (POTR_ERR_UNKNOWN, c2)
                       else (POTR_OK, c2\<lparr>c_recv_thread := (c_recv_thread c2)[i := False]\<rparr>))))"

section \<open>Health threads\<close>

definition health_thread_start :: "cplat \<Rightarrow> potr_context \<Rightarrow> potr_result \<times> potr_context" where
  "health_thread_start E c =
    (if c_health_interval_ms c = 0 then (POTR_OK, c)
     else
    (let (locked, c1) = plat_call c (lock_create_ok E)
     in if \<not> locked then (POTR_ERR_UNKNOWN, c1)
        else
    (let (cond, c2) = plat_call c1 (lock_create_ok E)
     in if \<not> cond then (POTR_ERR_UNKNOWN, c2)
        else
    (let (created, c3) = plat_call (c2\<lparr>c_health_running := (c_health_running c2)[0 := True]\<rparr>) (thread_create_ok E)
     in if \<not> created then (POTR_ERR_UNKNOWN, c3\<lparr>c_health_running := (c_health_running c3)[0 := False]\<rparr>)
        else (POTR_OK, c3\<lparr>c_health_thread := (c_health_thread c3)[0 := True]\<rparr>)))))"

definition health_thread_stop :: "cplat \<Rightarrow> runtime \<Rightarrow> potr_context \<Rightarrow> potr_result \<times> potr_context" where
  "health_thread_stop E R c =
    (if \<not> c_health_thread c ! 0 then (POTR_OK, c)
     else (let c1 = emit (c\<lparr>c_health_running := (c_health_running c)[0 := False]\<rparr>) (Io_wake_health 0);
               (joined, c2) = thread_join E R (Health_thread 0) c1
           in if \<not> joined then (POTR_ERR_UNKNOWN, c2)
              else (POTR_OK, c2\<lparr>c_health_thread := (c_health_thread c2)[0 := False]\<rparr>)))"

definition tcp_health_thread_start :: "cplat \<Rightarrow> potr_context \<Rightarrow> nat \<Rightarrow> potr_result \<times> potr_context" where
  "tcp_health_thread_start E c i =
    (if i \<ge> POTR_MAX_PATH then (POTR_ERR_INVALID_ARGUMENT, c)
     else if c_health_interval_ms c = 0 then (POTR_OK, c)
     else (let (created, c1) = plat_call (c\<lparr>c_health_running := (c_health_running c)[i := True]\<rparr>) (thread_create_ok E)
           in if \<not> created then (POTR_ERR_UNKNOWN, c1\<lparr>c_health_running := (c_health_running c1)[i := False]\<rparr>)
              else (POTR_OK, c1\<lparr>c_health_thread := (c_health_thread c1)[i := True]\<rparr>)))"

definition tcp_health_thread_stop :: "cplat \<Rightarrow> runtime \<Rightarrow> potr_context \<Rightarrow> nat \<Rightarrow> potr_result \<times> potr_context" where
  "tcp_health_thread_stop E R c i =
    (if i \<ge> POTR_MAX_PATH then (POTR_ERR_INVALID_ARGUMENT, c)
     else if \<not> c_health_thread c ! i then (POTR_OK, c)
     else (let c1 = emit (c\<lparr>c_health_running := (c_health_running c)[i := False]\<rparr>) (Io_wake_health i);
               (joined, c2) = thread_join E R (Health_thread i) c1
           in if \<not> joined then (POTR_ERR_UNKNOWN, c2)
              else (POTR_OK, c2\<lparr>c_health_thread := (c_health_thread c2)[i := False]\<rparr>)))"

section \<open>Connection threads\<close>

definition upd_tcp :: "(tcp_state \<Rightarrow> tcp_state) \<Rightarrow> potr_context \<Rightarrow> potr_context" where
  "upd_tcp f c = c\<lparr>c_tcp := f (c_tcp c)\<rparr>"

definition close_tcp_conn :: "nat \<Rightarrow> potr_context \<Rightarrow> potr_context" where
  "close_tcp_conn i c =
    (if \<not> t_conn_fd (c_tcp c) ! i then c else upd_tcp (\<lambda>t. t\<lparr>t_conn_fd := (t_conn_fd t)[i := False]\<rparr>) c)"

text \<open>The buffer for the first packet holds the bytes read ahead; it is empty when there are none.\<close>

definition dispose_connect_resources :: "potr_context \<Rightarrow> potr_context" where
  "dispose_connect_resources c = upd_tcp (\<lambda>t. t\<lparr>t_first_pkt_buf := replicate POTR_MAX_PATH []\<rparr>) c"

definition join_connect_thread :: "cplat \<Rightarrow> runtime \<Rightarrow> nat \<Rightarrow> potr_context \<Rightarrow> bool \<times> potr_context" where
  "join_connect_thread E R i c =
    (if \<not> t_connect_thread (c_tcp c) ! i then (True, c)
     else (let (joined, c1) = thread_join E R (Connect_thread i) c
           in if \<not> joined then (False, c1)
              else (True, upd_tcp (\<lambda>t. t\<lparr>t_connect_thread := (t_connect_thread t)[i := False]\<rparr>) c1)))"

definition stop_path_threads :: "cplat \<Rightarrow> runtime \<Rightarrow> nat \<Rightarrow> potr_context \<Rightarrow> bool \<times> potr_context" where
  "stop_path_threads E R i c =
    (let (r, c1) = tcp_recv_thread_stop E R c i
     in if r \<noteq> POTR_OK then (False, c1)
        else (let (r', c2) = tcp_health_thread_stop E R c1 i in (r' = POTR_OK, c2)))"

definition close_listen_sock :: "nat \<Rightarrow> potr_context \<Rightarrow> potr_context" where
  "close_listen_sock i c =
    (if t_listen_sock (c_tcp c) ! i then upd_tcp (\<lambda>t. t\<lparr>t_listen_sock := (t_listen_sock t)[i := False]\<rparr>) c else c)"

definition connect_thread_stop :: "cplat \<Rightarrow> runtime \<Rightarrow> potr_context \<Rightarrow> potr_context" where
  "connect_thread_stop E R c =
    (let ks = [0..<c_n_path c];
         has_threads = list_ex (\<lambda>i. t_connect_thread (c_tcp c) ! i) ks;
         c1 = fold (\<lambda>i. upd_tcp (\<lambda>t. t\<lparr>t_connect_thread_running := (t_connect_thread_running t)[i := False]\<rparr>)) ks c;
         (joined, c2) =
           (if \<not> has_threads then (True, c1)
            else all_ok (join_connect_thread E R) ks
              (fold close_tcp_conn ks (if c_role c = POTR_ROLE_RECEIVER then fold close_listen_sock ks c1 else c1)))
     in if \<not> joined then c2
        else
    (let (stopped, c3) = all_ok (stop_path_threads E R) ks c2
     in if \<not> stopped then c3
        else
    (let c4 = send_thread_stop E R c3
     in if c_send_thread c4 then c4 else dispose_connect_resources c4)))"

definition alloc_first_pkt :: "runtime \<Rightarrow> nat \<Rightarrow> potr_context \<Rightarrow> bool \<times> potr_context" where
  "alloc_first_pkt R i c =
    malloc R (POTR_PACKET_HEADER_SIZE + unat (gc_max_payload (c_global c)))
      (upd_tcp (\<lambda>t. t\<lparr>t_first_pkt_buf := (t_first_pkt_buf t)[i := []]\<rparr>) c)"

definition create_connect_thread :: "cplat \<Rightarrow> nat \<Rightarrow> potr_context \<Rightarrow> bool \<times> potr_context" where
  "create_connect_thread E i c =
    (let (created, c1) = plat_call (upd_tcp (\<lambda>t. t\<lparr>t_connect_thread_running := (t_connect_thread_running t)[i := True]\<rparr>) c)
           (thread_create_ok E)
     in if \<not> created then (False, upd_tcp (\<lambda>t. t\<lparr>t_connect_thread_running := (t_connect_thread_running t)[i := False]\<rparr>) c1)
        else (True, upd_tcp (\<lambda>t. t\<lparr>t_connect_thread := (t_connect_thread t)[i := True]\<rparr>) c1))"

definition connect_thread_start :: "cplat \<Rightarrow> runtime \<Rightarrow> potr_context \<Rightarrow> potr_result \<times> potr_context" where
  "connect_thread_start E R c =
    (let ks = [0..<c_n_path c];
         (r, c1) =
           (if c_role c \<noteq> POTR_ROLE_RECEIVER then (POTR_OK, c)
            else (let (locked, c1) = plat_call c (lock_create_ok E)
                  in if \<not> locked then (POTR_ERR_UNKNOWN, c1)
                     else (let (alloc, c2) = all_ok (alloc_first_pkt R) ks c1
                           in if \<not> alloc then (POTR_ERR_OUT_OF_MEMORY, dispose_connect_resources c2) else (POTR_OK, c2))))
     in if r \<noteq> POTR_OK then (r, c1)
        else (let (created, c2) = all_ok (create_connect_thread E) ks c1
              in if \<not> created then (POTR_ERR_UNKNOWN, connect_thread_stop E R c2) else (POTR_OK, c2)))"

section \<open>Release of a context\<close>

abbreviation (input) POTR_CRYPTO_KEY_SIZE :: nat where "POTR_CRYPTO_KEY_SIZE \<equiv> 32"

definition api_context_has_threads :: "potr_context \<Rightarrow> bool" where
  "api_context_has_threads c \<longleftrightarrow> c_send_thread c \<or>
     list_ex (\<lambda>i. t_connect_thread (c_tcp c) ! i \<or> c_recv_thread c ! i \<or> c_health_thread c ! i) [0..<POTR_MAX_PATH]"

text \<open>
  Memory that is freed has no state of its own beyond the windows, the peer table and the fragment
  buffer; the key is overwritten in place.
\<close>

definition dispose_path_sockets :: "nat \<Rightarrow> potr_context \<Rightarrow> potr_context" where
  "dispose_path_sockets i c =
    (let c1 = close_listen_sock i c;
         c2 = upd_tcp (\<lambda>t. t\<lparr>t_conn_fd := (t_conn_fd t)[i := False]\<rparr>) c1
     in c2\<lparr>c_sock := (c_sock c2)[i := False]\<rparr>)"

definition api_context_dispose_resources :: "potr_context \<Rightarrow> potr_context" where
  "api_context_dispose_resources c =
    (let c1 = upd_slot c CtxSlot (\<lambda>st. st\<lparr>s_send_window := window_dispose (s_send_window st),
                s_recv_window := window_dispose (s_recv_window st)\<rparr>);
         c2 = (if c_peers c1 \<noteq> [] then peer_table_dispose c1 else c1);
         c3 = upd_slot c2 CtxSlot (\<lambda>st. st\<lparr>s_frag_buf := []\<rparr>);
         c4 = fold dispose_path_sockets [0..<POTR_MAX_PATH] c3
     in c4\<lparr>c_service := (c_service c4)\<lparr>sd_encrypt_key := replicate POTR_CRYPTO_KEY_SIZE 0\<rparr>\<rparr>)"

section \<open>Everything is stopped\<close>

text \<open>
  The handles of a context, and what a thread may still do to them before it ends: a connection
  thread joins the threads of its own path and may have started the send thread; no other thread
  writes a handle.  The arrays of the context keep their size.
\<close>

definition handles :: "potr_context \<Rightarrow> bool \<times> bool list \<times> bool list \<times> bool list" where
  "handles c = (c_send_thread c, t_connect_thread (c_tcp c), c_recv_thread c, c_health_thread c)"

definition lens :: "potr_context \<Rightarrow> nat \<times> nat \<times> nat" where
  "lens c = (length (c_sock c), length (t_conn_fd (c_tcp c)), length (t_listen_sock (c_tcp c)))"

definition tidy :: "runtime \<Rightarrow> bool" where
  "tidy R \<longleftrightarrow> (\<forall>t c. let c' = rt_rest R t c
     in c_n_path c' = c_n_path c \<and> lens c' = lens c \<and>
        (case t of
           Connect_thread i \<Rightarrow> t_connect_thread (c_tcp c') = t_connect_thread (c_tcp c) \<and>
             length (c_recv_thread c') = length (c_recv_thread c) \<and> length (c_health_thread c') = length (c_health_thread c) \<and>
             (\<forall>k. k \<noteq> i \<longrightarrow> c_recv_thread c' ! k = c_recv_thread c ! k \<and> c_health_thread c' ! k = c_health_thread c ! k)
         | _ \<Rightarrow> handles c' = handles c))"

definition joins_ok :: "cplat \<Rightarrow> bool" where
  "joins_ok E \<longleftrightarrow> (\<forall>n. thread_join_ok E n)"

lemma has_threads_handles:
  "api_context_has_threads c \<longleftrightarrow> (case handles c of (s, cs, rs, hs) \<Rightarrow> s \<or> (\<exists>i<POTR_MAX_PATH. cs ! i \<or> rs ! i \<or> hs ! i))"
  by (auto simp: api_context_has_threads_def handles_def list_ex_iff)

lemma plat_call_simps [simp]:
  "fst (plat_call c f) = f (c_tick c)" "snd (plat_call c f) = c\<lparr>c_tick := Suc (c_tick c)\<rparr>"
  by (simp_all add: plat_call_def)

lemma plat_call_handles: "plat_call c f = (x, c') \<Longrightarrow> handles c' = handles c \<and> lens c' = lens c \<and> c_n_path c' = c_n_path c"
  by (auto simp: plat_call_def handles_def lens_def)

lemma tidyD:
  assumes "tidy R"
  shows "c_n_path (rt_rest R t c) = c_n_path c" "lens (rt_rest R t c) = lens c"
    and "\<forall>i. t \<noteq> Connect_thread i \<Longrightarrow> handles (rt_rest R t c) = handles c"
    and "t_connect_thread (c_tcp (rt_rest R t c)) = t_connect_thread (c_tcp c)"
    and "length (c_recv_thread (rt_rest R t c)) = length (c_recv_thread c)" "length (c_health_thread (rt_rest R t c)) = length (c_health_thread c)"
    and "t = Connect_thread i \<Longrightarrow> k \<noteq> i \<Longrightarrow> c_recv_thread (rt_rest R t c) ! k = c_recv_thread c ! k \<and>
      c_health_thread (rt_rest R t c) ! k = c_health_thread c ! k"
proof -
  from assms have *: "let c' = rt_rest R t c
     in c_n_path c' = c_n_path c \<and> lens c' = lens c \<and>
        (case t of
           Connect_thread i \<Rightarrow> t_connect_thread (c_tcp c') = t_connect_thread (c_tcp c) \<and>
             length (c_recv_thread c') = length (c_recv_thread c) \<and> length (c_health_thread c') = length (c_health_thread c) \<and>
             (\<forall>k. k \<noteq> i \<longrightarrow> c_recv_thread c' ! k = c_recv_thread c ! k \<and> c_health_thread c' ! k = c_health_thread c ! k)
         | _ \<Rightarrow> handles c' = handles c)"
    unfolding tidy_def by blast
  show "c_n_path (rt_rest R t c) = c_n_path c" "lens (rt_rest R t c) = lens c" using * by (simp_all add: Let_def)
  show "handles (rt_rest R t c) = handles c" if "\<forall>i. t \<noteq> Connect_thread i" using * that by (cases t) (simp_all add: Let_def)
  show "t_connect_thread (c_tcp (rt_rest R t c)) = t_connect_thread (c_tcp c)"
    "length (c_recv_thread (rt_rest R t c)) = length (c_recv_thread c)" "length (c_health_thread (rt_rest R t c)) = length (c_health_thread c)"
    using * by (cases t; simp add: Let_def handles_def)+
  show "c_recv_thread (rt_rest R t c) ! k = c_recv_thread c ! k \<and> c_health_thread (rt_rest R t c) ! k = c_health_thread c ! k"
    if "t = Connect_thread i" "k \<noteq> i"
    using * that by (simp add: Let_def)
qed

lemma join_ok: "joins_ok E \<Longrightarrow> thread_join E R t c = (True, rt_rest R t (c\<lparr>c_tick := Suc (c_tick c)\<rparr>))"
  by (simp add: thread_join_def plat_call_def joins_ok_def)

lemma lens_simps [simp]:
  "lens (c\<lparr>c_tick := n\<rparr>) = lens c" "lens (c\<lparr>c_send_thread := b\<rparr>) = lens c" "lens (c\<lparr>c_send_thread_running := b\<rparr>) = lens c"
  "lens (c\<lparr>c_recv_thread := l\<rparr>) = lens c" "lens (c\<lparr>c_health_thread := l\<rparr>) = lens c" "lens (c\<lparr>c_running := l\<rparr>) = lens c"
  "lens (c\<lparr>c_health_running := l\<rparr>) = lens c" "lens (emit c x) = lens c" "lens (c\<lparr>c_trace := tr\<rparr>) = lens c"
  by (simp_all add: lens_def emit_def)

lemma handles_simps [simp]:
  "handles (c\<lparr>c_tick := n\<rparr>) = handles c" "handles (c\<lparr>c_send_thread_running := b\<rparr>) = handles c" "handles (c\<lparr>c_running := l\<rparr>) = handles c"
  "handles (c\<lparr>c_health_running := l\<rparr>) = handles c" "handles (emit c x) = handles c" "handles (c\<lparr>c_trace := tr\<rparr>) = handles c"
  by (simp_all add: handles_def emit_def)

lemma send_stop_handles:
  assumes "tidy R" "joins_ok E"
  shows "handles (send_thread_stop E R c) = (False, snd (handles c)) \<and> lens (send_thread_stop E R c) = lens c \<and>
    c_n_path (send_thread_stop E R c) = c_n_path c"
  using tidyD(1-3)[OF assms(1), of Send_thread "c\<lparr>c_send_thread_running := False, c_tick := Suc (c_tick c)\<rparr>"]
  by (auto simp: send_thread_stop_def join_ok[OF assms(2)] handles_def)

lemma health_stop_handles:
  assumes "tidy R" "joins_ok E"
  shows "\<exists>c'. health_thread_stop E R c = (POTR_OK, c') \<and>
    handles c' = (c_send_thread c, t_connect_thread (c_tcp c), c_recv_thread c, (c_health_thread c)[0 := False]) \<and> lens c' = lens c"
proof (cases "c_health_thread c ! 0")
  case True
  let ?c1 = "emit (c\<lparr>c_health_running := (c_health_running c)[0 := False]\<rparr>) (Io_wake_health 0)"
  show ?thesis using True tidyD(1-3)[OF assms(1), of "Health_thread 0" "?c1\<lparr>c_tick := Suc (c_tick ?c1)\<rparr>"]
    by (simp add: health_thread_stop_def join_ok[OF assms(2)] handles_def emit_def)
next
  case False
  then have "(c_health_thread c)[0 := False] = c_health_thread c" by (metis list_update_id)
  then show ?thesis using False by (simp add: health_thread_stop_def handles_def)
qed

text \<open>The threads of one path.\<close>

lemma stop_path_handles:
  assumes "tidy R" "joins_ok E" "i < POTR_MAX_PATH"
  shows "\<exists>c'. stop_path_threads E R i c = (True, c') \<and> lens c' = lens c \<and>
    handles c' = (c_send_thread c, t_connect_thread (c_tcp c), (c_recv_thread c)[i := False], (c_health_thread c)[i := False])"
proof -
  let ?c0 = "c\<lparr>c_running := (c_running c)[i := False]\<rparr>"
  have same: "xs[i := False] = xs" if "\<not> xs ! i" for xs using that by (metis list_update_id)
  obtain c1 where c1: "tcp_recv_thread_stop E R c i = (POTR_OK, c1)" "lens c1 = lens c"
    "handles c1 = (c_send_thread c, t_connect_thread (c_tcp c), (c_recv_thread c)[i := False], c_health_thread c)"
  proof (cases "c_recv_thread c ! i")
    case True
    then show ?thesis using assms(3) that tidyD(2,3)[OF assms(1), of "Recv_thread i" "?c0\<lparr>c_tick := Suc (c_tick ?c0)\<rparr>"]
      by (simp add: tcp_recv_thread_stop_def join_ok[OF assms(2)] handles_def)
  next
    case False
    then show ?thesis using assms(3) that[of ?c0] same by (simp add: tcp_recv_thread_stop_def handles_def)
  qed
  let ?d = "emit (c1\<lparr>c_health_running := (c_health_running c1)[i := False]\<rparr>) (Io_wake_health i)"
  obtain c2 where c2: "tcp_health_thread_stop E R c1 i = (POTR_OK, c2)" "lens c2 = lens c1"
    "handles c2 = (c_send_thread c1, t_connect_thread (c_tcp c1), c_recv_thread c1, (c_health_thread c1)[i := False])"
  proof (cases "c_health_thread c1 ! i")
    case True
    then show ?thesis using assms(3) that tidyD(2,3)[OF assms(1), of "Health_thread i" "?d\<lparr>c_tick := Suc (c_tick ?d)\<rparr>"]
      by (simp add: tcp_health_thread_stop_def join_ok[OF assms(2)] handles_def emit_def)
  next
    case False
    then show ?thesis using assms(3) that[of c1] same by (simp add: tcp_health_thread_stop_def handles_def)
  qed
  show ?thesis using c1 c2 by (simp add: stop_path_threads_def handles_def)
qed

text \<open>Stopping the connection threads of a service leaves no thread behind.\<close>

definition idle_beyond :: "potr_context \<Rightarrow> nat \<Rightarrow> bool" where
  "idle_beyond c n \<longleftrightarrow> length (t_connect_thread (c_tcp c)) = POTR_MAX_PATH \<and> length (c_recv_thread c) = POTR_MAX_PATH \<and>
     length (c_health_thread c) = POTR_MAX_PATH \<and>
     (\<forall>k. n \<le> k \<and> k < POTR_MAX_PATH \<longrightarrow> \<not> t_connect_thread (c_tcp c) ! k \<and> \<not> c_recv_thread c ! k \<and> \<not> c_health_thread c ! k)"

lemma idle_beyond_cong: "handles c' = handles c \<Longrightarrow> idle_beyond c' n = idle_beyond c n"
  by (simp add: handles_def idle_beyond_def)

lemma fold_tcp:
  assumes "\<And>i c. handles (f i c) = handles c \<and> lens (f i c) = lens c"
  shows "handles (fold f ks c) = handles c \<and> lens (fold f ks c) = lens c"
  by (induction ks arbitrary: c) (simp_all add: assms)

lemma tcp_handles [simp]:
  "handles (upd_tcp (\<lambda>t. t\<lparr>t_connect_thread_running := g t\<rparr>) c) = handles c \<and> lens (upd_tcp (\<lambda>t. t\<lparr>t_connect_thread_running := g t\<rparr>) c) = lens c"
  "handles (close_tcp_conn i c) = handles c \<and> lens (close_tcp_conn i c) = lens c"
  "handles (close_listen_sock i c) = handles c \<and> lens (close_listen_sock i c) = lens c"
  "handles (dispose_connect_resources c) = handles c \<and> lens (dispose_connect_resources c) = lens c"
  by (simp_all add: upd_tcp_def close_tcp_conn_def close_listen_sock_def dispose_connect_resources_def handles_def lens_def)

lemma join_connect_handles:
  assumes "tidy R" "joins_ok E" "idle_beyond c n" "i < n"
  shows "\<exists>c'. join_connect_thread E R i c = (True, c') \<and> lens c' = lens c \<and> idle_beyond c' n \<and>
    t_connect_thread (c_tcp c') = (t_connect_thread (c_tcp c))[i := False]"
proof (cases "t_connect_thread (c_tcp c) ! i")
  case True
  let ?d = "c\<lparr>c_tick := Suc (c_tick c)\<rparr>"
  note D = tidyD[OF assms(1), where t = "Connect_thread i" and c = ?d]
  show ?thesis using True assms(3,4) D(2,4,5,6) D(7)[OF refl]
    by (auto simp: join_connect_thread_def join_ok[OF assms(2)] upd_tcp_def lens_def idle_beyond_def)
next
  case False
  then have "(t_connect_thread (c_tcp c))[i := False] = t_connect_thread (c_tcp c)" by (metis list_update_id)
  then show ?thesis using False assms(3) by (simp add: join_connect_thread_def)
qed

lemma connect_stop_none:
  assumes "tidy R" "joins_ok E" "c_n_path c \<le> POTR_MAX_PATH" "idle_beyond c (c_n_path c)"
  shows "\<not> api_context_has_threads (connect_thread_stop E R c) \<and> lens (connect_thread_stop E R c) = lens c"
proof -
  let ?n = "c_n_path c"
  let ?ks = "[0..<?n]"
  let ?c1 = "fold (\<lambda>i. upd_tcp (\<lambda>t. t\<lparr>t_connect_thread_running := (t_connect_thread_running t)[i := False]\<rparr>)) ?ks c"
  have h1: "handles ?c1 = handles c \<and> lens ?c1 = lens c" by (rule fold_tcp) simp
  let ?c1' = "fold close_tcp_conn ?ks (if c_role c = POTR_ROLE_RECEIVER then fold close_listen_sock ?ks ?c1 else ?c1)"
  have h1': "handles ?c1' = handles c \<and> lens ?c1' = lens c"
    using fold_tcp[of close_tcp_conn ?ks] fold_tcp[of close_listen_sock ?ks ?c1] h1 by simp
  define has where "has = list_ex (\<lambda>i. t_connect_thread (c_tcp c) ! i) ?ks"
  define start where "start = (if has then ?c1' else ?c1)"
  have st: "idle_beyond start ?n" "lens start = lens c" "t_connect_thread (c_tcp start) = t_connect_thread (c_tcp c)"
    using assms(4) h1 h1' idle_beyond_cong[of start c ?n] by (auto simp: start_def handles_def)
  obtain c2 where c2: "(if has then all_ok (join_connect_thread E R) ?ks start else (True, start)) = (True, c2)"
    "idle_beyond c2 ?n" "lens c2 = lens c" "\<forall>i<?n. \<not> t_connect_thread (c_tcp c2) ! i"
  proof (cases has)
    case True
    let ?Q = "\<lambda>i d. i < POTR_MAX_PATH \<and> \<not> t_connect_thread (c_tcp d) ! i"
    let ?P = "\<lambda>d. idle_beyond d ?n \<and> lens d = lens c"
    have step: "\<exists>d'. join_connect_thread E R i d = (True, d') \<and> ?P d' \<and> ?Q i d' \<and> (\<forall>y. ?Q y d \<longrightarrow> ?Q y d')"
      if "i \<in> set ?ks" "?P d" for i d
    proof -
      from that obtain d' where d': "join_connect_thread E R i d = (True, d')" "lens d' = lens d" "idle_beyond d' ?n"
        "t_connect_thread (c_tcp d') = (t_connect_thread (c_tcp d))[i := False]"
        using join_connect_handles[OF assms(1,2), of d ?n i] by auto
      have "length (t_connect_thread (c_tcp d)) = POTR_MAX_PATH" using that by (simp add: idle_beyond_def)
      then show ?thesis using d' that assms(3) by (intro exI[of _ d']) (auto simp: nth_list_update)
    qed
    have "\<exists>c2. all_ok (join_connect_thread E R) ?ks start = (True, c2) \<and> ?P c2 \<and> (\<forall>i\<in>set ?ks. ?Q i c2) \<and> (\<forall>y. ?Q y start \<longrightarrow> ?Q y c2)"
      by (rule all_ok_all[of ?P, OF _ step]) (use st in auto)
    then show ?thesis using that True by auto
  next
    case False
    then have "\<forall>i<?n. \<not> t_connect_thread (c_tcp start) ! i" using st(3) by (auto simp: has_def list_ex_iff)
    then show ?thesis using that[of start] False st by simp
  qed
  let ?Q = "\<lambda>i d. i < POTR_MAX_PATH \<and> \<not> c_recv_thread d ! i \<and> \<not> c_health_thread d ! i"
  let ?P = "\<lambda>d. idle_beyond d ?n \<and> lens d = lens c \<and> t_connect_thread (c_tcp d) = t_connect_thread (c_tcp c2)"
  have step: "\<exists>d'. stop_path_threads E R i d = (True, d') \<and> ?P d' \<and> ?Q i d' \<and> (\<forall>y. ?Q y d \<longrightarrow> ?Q y d')"
    if "i \<in> set ?ks" "?P d" for i d
  proof -
    from that assms(3) obtain d' where d': "stop_path_threads E R i d = (True, d')" "lens d' = lens d"
      "handles d' = (c_send_thread d, t_connect_thread (c_tcp d), (c_recv_thread d)[i := False], (c_health_thread d)[i := False])"
      using stop_path_handles[OF assms(1,2), of i d] by auto
    then show ?thesis using that assms(3)
      by (intro exI[of _ d']) (auto simp: handles_def idle_beyond_def nth_list_update)
  qed
  have "\<exists>c3. all_ok (stop_path_threads E R) ?ks c2 = (True, c3) \<and> ?P c3 \<and> (\<forall>i\<in>set ?ks. ?Q i c3) \<and> (\<forall>y. ?Q y c2 \<longrightarrow> ?Q y c3)"
    by (rule all_ok_all[of ?P, OF _ step]) (use c2 in auto)
  then obtain c3 where c3: "all_ok (stop_path_threads E R) ?ks c2 = (True, c3)" "?P c3" "\<forall>i\<in>set ?ks. ?Q i c3" by blast
  have none: "\<not> t_connect_thread (c_tcp c3) ! i \<and> \<not> c_recv_thread c3 ! i \<and> \<not> c_health_thread c3 ! i" if "i < POTR_MAX_PATH" for i
    using c2(4) c3(2,3) that by (cases "i < ?n") (auto simp: idle_beyond_def)
  have "connect_thread_stop E R c = dispose_connect_resources (send_thread_stop E R c3)"
    using c2(1) c3(1) send_stop_handles[OF assms(1,2), of c3]
    by (auto simp: connect_thread_stop_def Let_def has_def start_def handles_def split: if_splits)
  then show ?thesis using c3(2) none send_stop_handles[OF assms(1,2), of c3]
    by (simp add: has_threads_handles) (simp add: handles_def)
qed

text \<open>The arrays keep their size also when a thread cannot be joined.\<close>

lemma join_lens: "tidy R \<Longrightarrow> thread_join E R t c = (b, c') \<Longrightarrow> lens c' = lens c"
  by (auto simp: thread_join_def plat_call_def tidyD split: if_splits)

lemma stop_lens:
  assumes "tidy R"
  shows "lens (send_thread_stop E R c) = lens c" "lens (snd (health_thread_stop E R c)) = lens c"
    "lens (snd (tcp_recv_thread_stop E R c i)) = lens c" "lens (snd (tcp_health_thread_stop E R c i)) = lens c"
  unfolding send_thread_stop_def health_thread_stop_def tcp_recv_thread_stop_def tcp_health_thread_stop_def Let_def
  using join_lens[OF assms] by (simp_all split: prod.split)

lemma connect_stop_lens:
  assumes "tidy R"
  shows "lens (connect_thread_stop E R c) = lens c"
proof -
  let ?ks = "[0..<c_n_path c]"
  have j: "lens d' = lens d" if "join_connect_thread E R i d = (b, d')" for i d b d'
    using that join_lens[OF assms] by (auto simp: join_connect_thread_def upd_tcp_def lens_def split: if_splits prod.splits)
  have s: "lens d' = lens d" if "stop_path_threads E R i d = (b, d')" for i d b d'
    using that stop_lens(3)[OF assms, of E d i] stop_lens(4)[OF assms, of E "snd (tcp_recv_thread_stop E R d i)" i]
    by (auto simp: stop_path_threads_def Let_def case_prod_beta split: if_splits)
  have J: "lens d' = lens d" if "all_ok (join_connect_thread E R) ks d = (b, d')" for ks d b d'
    by (rule all_ok_inv[OF that, where P = "\<lambda>x. lens x = lens d"]) (use j in auto)
  have S: "lens d' = lens d" if "all_ok (stop_path_threads E R) ks d = (b, d')" for ks d b d'
    by (rule all_ok_inv[OF that, where P = "\<lambda>x. lens x = lens d"]) (use s in auto)
  have F: "lens (fold close_tcp_conn ks d) = lens d" "lens (fold close_listen_sock ks d) = lens d"
    "lens (fold (\<lambda>i. upd_tcp (\<lambda>t. t\<lparr>t_connect_thread_running := (t_connect_thread_running t)[i := False]\<rparr>)) ks d) = lens d" for ks d
    using fold_tcp[of close_tcp_conn] fold_tcp[of close_listen_sock]
      fold_tcp[of "\<lambda>i. upd_tcp (\<lambda>t. t\<lparr>t_connect_thread_running := (t_connect_thread_running t)[i := False]\<rparr>)"] by auto
  define c1 where "c1 = fold (\<lambda>i. upd_tcp (\<lambda>t. t\<lparr>t_connect_thread_running := (t_connect_thread_running t)[i := False]\<rparr>)) ?ks c"
  define x where "x = (if \<not> list_ex (\<lambda>i. t_connect_thread (c_tcp c) ! i) ?ks then (True, c1)
    else all_ok (join_connect_thread E R) ?ks (fold close_tcp_conn ?ks (if c_role c = POTR_ROLE_RECEIVER then fold close_listen_sock ?ks c1 else c1)))"
  have x: "lens (snd x) = lens c"
    using J[OF prod.collapse[symmetric]] F by (simp add: x_def c1_def)
  define y where "y = all_ok (stop_path_threads E R) ?ks (snd x)"
  have y: "lens (snd y) = lens c" using S[of ?ks "snd x" "fst y" "snd y"] x by (simp add: y_def)
  have "connect_thread_stop E R c = (if \<not> fst x then snd x else if \<not> fst y then snd y
      else let c4 = send_thread_stop E R (snd y) in if c_send_thread c4 then c4 else dispose_connect_resources c4)"
    unfolding connect_thread_stop_def Let_def y_def x_def c1_def by (simp add: case_prod_beta)
  then show ?thesis using x y stop_lens(1)[OF assms] by (simp add: Let_def)
qed

section \<open>Released\<close>

definition released :: "potr_context \<Rightarrow> bool" where
  "released c \<longleftrightarrow> \<not> api_context_has_threads c \<and>
     (\<forall>i<POTR_MAX_PATH. \<not> c_sock c ! i \<and> \<not> t_conn_fd (c_tcp c) ! i \<and> \<not> t_listen_sock (c_tcp c) ! i) \<and>
     win_packets (s_send_window (c_slot c)) = None \<and> win_packets (s_recv_window (c_slot c)) = None \<and> s_frag_buf (c_slot c) = [] \<and>
     c_peers c = [] \<and> sd_encrypt_key (c_service c) = replicate POTR_CRYPTO_KEY_SIZE 0"

lemma dispose_released:
  assumes "\<not> api_context_has_threads c" "lens c = (POTR_MAX_PATH, POTR_MAX_PATH, POTR_MAX_PATH)"
  shows "released (api_context_dispose_resources c)"
proof -
  have ex: "\<exists>a b d e. xs = [a, b, d, e]" if "length xs = POTR_MAX_PATH" for xs :: "bool list"
    using that by (auto simp: numeral_eq_Suc length_Suc_conv)
  obtain a0 a1 a2 a3 b0 b1 b2 b3 d0 d1 d2 d3 where l: "c_sock c = [a0, a1, a2, a3]" "t_conn_fd (c_tcp c) = [b0, b1, b2, b3]"
    "t_listen_sock (c_tcp c) = [d0, d1, d2, d3]" using ex assms(2) unfolding lens_def by (metis prod.inject)
  have p: "c_sock (dispose_path_sockets i d) = (c_sock d)[i := False] \<and> t_conn_fd (c_tcp (dispose_path_sockets i d)) = (t_conn_fd (c_tcp d))[i := False] \<and>
      t_listen_sock (c_tcp (dispose_path_sockets i d)) = (if t_listen_sock (c_tcp d) ! i then (t_listen_sock (c_tcp d))[i := False] else t_listen_sock (c_tcp d)) \<and>
      handles (dispose_path_sockets i d) = handles d \<and> c_slot (dispose_path_sockets i d) = c_slot d \<and>
      c_peers (dispose_path_sockets i d) = c_peers d \<and> c_service (dispose_path_sockets i d) = c_service d" for i d
    by (simp add: dispose_path_sockets_def close_listen_sock_def upd_tcp_def handles_def Let_def)
  have h: "handles (fold dispose_path_sockets ks d) = handles d" for ks d by (induction ks arbitrary: d) (simp_all add: p)
  have "handles (api_context_dispose_resources c) = handles c"
    unfolding api_context_dispose_resources_def Let_def using h
    by (simp add: handles_def peer_table_dispose_def upd_slot_def)
  then have "\<not> api_context_has_threads (api_context_dispose_resources c)" using assms(1) by (simp add: has_threads_handles)
  then show ?thesis unfolding released_def
    by (simp add: api_context_dispose_resources_def Let_def p numeral_eq_Suc All_less_Suc
       peer_table_dispose_def upd_slot_def l window_dispose_def)
qed

end
