(* ===== verification/Service_Open.thy ===== *)
theory Service_Open
  imports Context_Inv Send_Turn Open_Paths Thread_Control
begin

text \<open>
  \<^verbatim>\<open>api/potr_service_open.c\<close>: validation of the arguments and the configuration, the paths, the
  session, the buffers and the threads of a new service.

  A failed call either frees the context, or keeps it when one of its threads could not be joined.
  The model shows the context as it is left in both cases.  The threads that the call starts may
  already run when it returns; their steps are those of the other theories, and the state given
  here is the one they start from.
\<close>

section \<open>Definitions\<close>

definition new_context :: "potr_global_config \<Rightarrow> potr_service_def \<Rightarrow> nat \<Rightarrow> potr_context" where
  "new_context g s tick = \<lparr>c_callback = False, c_service = s, c_global = g, c_role = POTR_ROLE_SENDER,
     c_health_interval_ms = 0, c_health_timeout_ms = 0, c_n_path = 0,
     c_sock = replicate POTR_MAX_PATH False, c_running = replicate POTR_MAX_PATH False,
     c_health_running = replicate POTR_MAX_PATH False, c_recv_thread = replicate POTR_MAX_PATH False,
     c_health_thread = replicate POTR_MAX_PATH False, c_health_send_immediate = replicate POTR_MAX_PATH False,
     c_slot = slot_zero, c_last_ping_send_ms = 0, c_last_valid_data_send_ms = 0,
     c_src_addr_resolved = replicate POTR_MAX_PATH 0, c_dst_addr_resolved = replicate POTR_MAX_PATH 0,
     c_peer_port = replicate POTR_MAX_PATH 0, c_compress_buf_size = 0, c_crypto_buf_size = 0,
     c_send_thread = False, c_send_thread_running = False, c_close_requested = False, c_send_queue = send_queue_zero,
     c_is_multi_peer = False, c_peers = [], c_n_peers = 0, c_next_peer_id = 0,
     c_tcp = \<lparr>t_active_paths = 0, t_conn_fd = replicate POTR_MAX_PATH False, t_close_waiting_ack = False,
       t_close_ack_received = False, t_close_wait_target_seq = 0, t_close_ack_seq = 0,
       t_last_ping_recv_ms = replicate POTR_MAX_PATH 0, t_accepted_session_ts = timespec_zero,
       t_accepted_session_id = 0, t_accepted_session_known = False,
       t_first_pkt_buf = replicate POTR_MAX_PATH [], t_buf_full_suppress_cnt = replicate POTR_MAX_PATH 0,
       t_listen_sock = replicate POTR_MAX_PATH False, t_connect_thread = replicate POTR_MAX_PATH False,
       t_connect_thread_running = replicate POTR_MAX_PATH False\<rparr>,
     c_trace = [], c_tick = tick\<rparr>"

definition generate_session :: "cplat \<Rightarrow> potr_context \<Rightarrow> cplat_result \<times> potr_context" where
  "generate_session E c =
    (let ((ret, rnd), c1) = plat_call c (random_u32 E)
     in if ret \<noteq> CPLAT_OK then (ret, c1)
        else (let (now, c2) = plat_call (upd_slot c1 CtxSlot (\<lambda>st. st\<lparr>s_session_id := rnd\<rparr>)) (clock_realtime E)
              in (CPLAT_OK, (upd_slot c2 CtxSlot (\<lambda>st. st\<lparr>s_session_ts := now\<rparr>))
                    \<lparr>c_last_ping_send_ms := 0, c_last_valid_data_send_ms := 0\<rparr>)))"

definition open_validate_callback :: "potr_context \<Rightarrow> potr_role \<Rightarrow> bool \<Rightarrow> potr_result" where
  "open_validate_callback c role callback =
    (let t = sd_type (c_service c)
     in if role = POTR_ROLE_SENDER \<and> callback \<and> t \<noteq> POTR_TYPE_UNICAST_BIDIR \<and> t \<noteq> POTR_TYPE_TCP_BIDIR
        then POTR_ERR_INVALID_ARGUMENT
        else if role = POTR_ROLE_SENDER \<and> \<not> callback \<and> (t = POTR_TYPE_UNICAST_BIDIR \<or> t = POTR_TYPE_TCP_BIDIR)
        then POTR_ERR_INVALID_ARGUMENT
        else POTR_OK)"

definition open_validate_config :: "potr_context \<Rightarrow> potr_result \<times> potr_context" where
  "open_validate_config c =
    (let g = c_global c; s = c_service c
     in if gc_max_payload g < 64 \<or> unat (gc_max_payload g) > POTR_MAX_PAYLOAD then (POTR_ERR_INVALID_ARGUMENT, c)
        else if gc_window_size g < 2 \<or> unat (gc_window_size g) > POTR_MAX_WINDOW_SIZE then (POTR_ERR_INVALID_ARGUMENT, c)
        else if gc_max_message_size g < ucast (gc_max_payload g) then (POTR_ERR_INVALID_ARGUMENT, c)
        else if gc_send_queue_depth g < 2 then (POTR_ERR_INVALID_ARGUMENT, c)
        else
    (let c1 = (if is_tcp_type (sd_type s)
               then c\<lparr>c_health_interval_ms := gc_tcp_health_interval_ms g, c_health_timeout_ms := gc_tcp_health_timeout_ms g\<rparr>
               else c\<lparr>c_health_interval_ms := gc_udp_health_interval_ms g, c_health_timeout_ms := gc_udp_health_timeout_ms g\<rparr>);
         c2 = (if sd_health_interval_ms s \<noteq> 0 then c1\<lparr>c_health_interval_ms := sd_health_interval_ms s\<rparr> else c1);
         c3 = (if sd_health_timeout_ms s \<noteq> 0 then c2\<lparr>c_health_timeout_ms := sd_health_timeout_ms s\<rparr> else c2)
     in (POTR_OK, c3)))"

text \<open>
  The buffers.  The filled part of the fragment buffer is empty; the other buffers matter to the
  model by their size only.
\<close>

definition alloc_context_buffers :: "cplat \<Rightarrow> runtime \<Rightarrow> potr_context \<Rightarrow> potr_result \<times> potr_context" where
  "alloc_context_buffers E R c =
    (let ws = gc_window_size (c_global c); mp = gc_max_payload (c_global c);
         (ret_s, sw) = window_init E (s_send_window (c_slot c)) 0 ws mp;
         c1 = upd_slot c CtxSlot (\<lambda>st. st\<lparr>s_send_window := sw\<rparr>)
     in if ret_s \<noteq> POTR_OK then (ret_s, c1)
        else
    (let (ret_r, rw) = window_init E (s_recv_window (c_slot c)) 0 ws mp;
         c2 = upd_slot c1 CtxSlot (\<lambda>st. st\<lparr>s_send_has_data := False, s_recv_window := rw\<rparr>)
     in if ret_r \<noteq> POTR_OK then (ret_r, c2)
        else
    (let (frag, c3) = malloc R (unat (gc_max_message_size (c_global c2))) c2
     in if \<not> frag then (POTR_ERR_OUT_OF_MEMORY, c3)
        else
    (let size = rt_compress_header_size R + unat (gc_max_message_size (c_global c3)) + 64;
         (comp, c4) = malloc R size (c3\<lparr>c_compress_buf_size := size\<rparr>)
     in if \<not> comp then (POTR_ERR_OUT_OF_MEMORY, c4)
        else
    (let (recv, c5) = malloc R (POTR_PACKET_HEADER_SIZE + unat mp) c4
     in if \<not> recv then (POTR_ERR_OUT_OF_MEMORY, c5)
        else
    (let (wire, c6) = malloc R (POTR_PACKET_HEADER_SIZE + unat mp) c5
     in if \<not> wire then (POTR_ERR_OUT_OF_MEMORY, c6)
        else
    (let (crypt, c7) = malloc R (unat mp + POTR_CRYPTO_TAG_SIZE) (c6\<lparr>c_crypto_buf_size := unat mp + POTR_CRYPTO_TAG_SIZE\<rparr>)
     in if \<not> crypt then (POTR_ERR_OUT_OF_MEMORY, c7)
        else
    (let (rcomp, c8) = malloc R (c_compress_buf_size c7) c7;
         (rcrypt, c9) = malloc R (c_crypto_buf_size c8) c8
     in if \<not> rcomp \<or> \<not> rcrypt then (POTR_ERR_OUT_OF_MEMORY, c9)
        else if \<not> is_tcp_type (sd_type (c_service c9)) then (POTR_OK, c9)
        else (let (bufs, c10) = all_ok (\<lambda>i. malloc R (POTR_PACKET_HEADER_SIZE + unat mp)) [0..<c_n_path c9] c9
              in if \<not> bufs then (POTR_ERR_OUT_OF_MEMORY, c10) else (POTR_OK, c10))))))))))"

text \<open>Creating the synchronisation objects of a queue takes four calls.\<close>

definition open_send_queue :: "cplat \<Rightarrow> potr_context \<Rightarrow> potr_result \<times> potr_context" where
  "open_send_queue E c =
    (let (r, q) = send_queue_init E (\<lambda>k. lock_create_ok E (c_tick c + k)) (unat (gc_send_queue_depth (c_global c)))
           (gc_max_payload (c_global c))
     in (r, c\<lparr>c_send_queue := q, c_tick := c_tick c + 4\<rparr>))"

definition dispose_send_queue :: "potr_context \<Rightarrow> potr_context" where
  "dispose_send_queue c = c\<lparr>c_send_queue := send_queue_dispose (c_send_queue c)\<rparr>"

definition has_send_queue :: "potr_type \<Rightarrow> potr_role \<Rightarrow> bool" where
  "has_send_queue t role \<longleftrightarrow> role = POTR_ROLE_SENDER \<or> t = POTR_TYPE_TCP_BIDIR"

text \<open>The lock, condition variable and mutex objects of TCP: five, three for each path, and one.\<close>

definition start_threads_tcp :: "cplat \<Rightarrow> runtime \<Rightarrow> potr_context \<Rightarrow> potr_role \<Rightarrow> potr_result \<times> potr_context" where
  "start_threads_tcp E R c role =
    (let (sync, c1) = all_ok (\<lambda>_ c. plat_call c (lock_create_ok E)) [0..<5 + 3 * POTR_MAX_PATH + 1] c
     in if \<not> sync then (POTR_ERR_UNKNOWN, c1)
        else
    (let queue = has_send_queue (sd_type (c_service c)) role;
         (r, c2) = (if queue then open_send_queue E c1 else (POTR_OK, c1))
     in if r \<noteq> POTR_OK then (r, c2)
        else
    (let (r', c3) = connect_thread_start E R c2
     in if r' \<noteq> POTR_OK \<and> \<not> api_context_has_threads c3 \<and> queue then (r', dispose_send_queue c3) else (r', c3))))"

definition start_threads_udp :: "cplat \<Rightarrow> runtime \<Rightarrow> potr_context \<Rightarrow> potr_role \<Rightarrow> potr_result \<times> potr_context" where
  "start_threads_udp E R c role =
    (let t = sd_type (c_service c); bidir = (t = POTR_TYPE_UNICAST_BIDIR \<or> t = POTR_TYPE_UNICAST_BIDIR_N1);
         (r, c0) = (if role = POTR_ROLE_RECEIVER \<and> \<not> bidir then comm_recv_thread_start E c else (POTR_OK, c))
     in if r \<noteq> POTR_OK then (r, c0)
        else if \<not> (role = POTR_ROLE_SENDER \<or> bidir) then (POTR_OK, c0)
        else
    (let (r1, c1) = open_send_queue E c0
     in if r1 \<noteq> POTR_OK then (r1, c1)
        else
    (let (r2, c2) = send_thread_start E c1
     in if r2 \<noteq> POTR_OK then (r2, dispose_send_queue c2)
        else
    (let (r3, c3) = health_thread_start E
           (c2\<lparr>c_health_send_immediate := (c_health_send_immediate c2)[0 := type_uses_immediate_health_ping t]\<rparr>)
     in if r3 \<noteq> POTR_OK then
          (let c4 = send_thread_stop E R c3 in (r3, if api_context_has_threads c4 then c4 else dispose_send_queue c4))
        else
    (let (r4, c4) = comm_recv_thread_start E c3
     in if r4 \<noteq> POTR_OK then
          (let (r5, c5) = health_thread_stop E R c4
           in if r5 \<noteq> POTR_OK then (r4, c5)
              else (let c6 = send_thread_stop E R c5 in (r4, if api_context_has_threads c6 then c6 else dispose_send_queue c6)))
        else (POTR_OK, c4))))))"

datatype open_outcome =
    Refused potr_result
  | Released potr_result potr_context
  | Retained potr_result potr_context
  | Opened potr_context

definition ctx_cleanup :: "potr_result \<Rightarrow> potr_context \<Rightarrow> open_outcome" where
  "ctx_cleanup r c = (if api_context_has_threads c then Retained r c else Released r (api_context_dispose_resources c))"

text \<open>
  The call.  A null pointer is the absence of an argument; the first platform call is the one
  numbered \<open>tick\<close>.
\<close>

definition potr_service_open ::
  "cplat \<Rightarrow> runtime \<Rightarrow> nat \<Rightarrow> potr_global_config option \<Rightarrow> potr_service_def option \<Rightarrow> potr_role \<Rightarrow> bool \<Rightarrow> bool \<Rightarrow> open_outcome" where
  "potr_service_open E R tick glob serv role callback handle =
    (case (glob, serv) of
       (Some g, Some s) \<Rightarrow>
         if \<not> handle then Refused POTR_ERR_INVALID_ARGUMENT
         else if role = POTR_ROLE_RECEIVER \<and> \<not> callback then Refused POTR_ERR_INVALID_ARGUMENT
         else if \<not> rt_malloc_ok R tick (rt_context_size R) then Refused POTR_ERR_OUT_OF_MEMORY
         else if \<not> lock_create_ok E (Suc tick) then Refused POTR_ERR_UNKNOWN
         else
    (let c = new_context g s (Suc (Suc tick));
         r1 = open_validate_callback c role callback;
         (r2, c2) = (if r1 = POTR_OK then open_validate_config c else (r1, c))
     in if r2 \<noteq> POTR_OK then ctx_cleanup r2 c2
        else
    (let (r3, c3) = api_open_paths_by_type E (rt_peer_size R) c2 role
     in if r3 \<noteq> POTR_OK then ctx_cleanup r3 c3
        else
    (let (r4, c4) = api_setup_dest_addr E (c3\<lparr>c_callback := callback, c_role := role\<rparr>) role
     in if r4 \<noteq> POTR_OK then ctx_cleanup r4 c4
        else
    (let (r5, c5) = generate_session E c4
     in if r5 \<noteq> CPLAT_OK then ctx_cleanup POTR_ERR_UNKNOWN c5
        else
    (let (r6, c6) = alloc_context_buffers E R c5
     in if r6 \<noteq> POTR_OK then ctx_cleanup r6 c6
        else
    (let (r7, c7) = (if is_tcp_type (sd_type (c_service c6)) then start_threads_tcp E R c6 role else start_threads_udp E R c6 role)
     in if r7 \<noteq> POTR_OK then ctx_cleanup r7 c7 else Opened c7))))))
     | _ \<Rightarrow> Refused POTR_ERR_INVALID_ARGUMENT)"

section \<open>The threads\<close>

text \<open>What starting the threads does not change.\<close>

definition core where
  "core c = (c_callback c, c_service c, c_global c, c_role c, c_n_path c, c_slot c, c_is_multi_peer c, c_peers c,
     c_n_peers c, c_trace c, c_crypto_buf_size c, c_compress_buf_size c, c_close_requested c)"

lemma core_simps [simp]:
  "core (c\<lparr>c_tick := n\<rparr>) = core c" "core (c\<lparr>c_send_queue := q\<rparr>) = core c" "core (c\<lparr>c_send_thread := b\<rparr>) = core c"
  "core (c\<lparr>c_send_thread_running := b\<rparr>) = core c" "core (c\<lparr>c_running := l\<rparr>) = core c" "core (c\<lparr>c_recv_thread := l\<rparr>) = core c"
  "core (c\<lparr>c_health_running := l\<rparr>) = core c" "core (c\<lparr>c_health_thread := l\<rparr>) = core c"
  "core (c\<lparr>c_health_send_immediate := l\<rparr>) = core c" "core (upd_tcp f c) = core c"
  by (simp_all add: core_def upd_tcp_def)

lemma ctx_inv_core: "core c' = core c \<Longrightarrow> ctx_inv c' = ctx_inv c"
  by (simp add: core_def ctx_inv_def view_at_def peer_find_by_id_def table_inv_def cong: option.case_cong)

lemma plat_callD: "plat_call c f = (x, c') \<Longrightarrow> x = f (c_tick c) \<and> c' = c\<lparr>c_tick := Suc (c_tick c)\<rparr>"
  by (simp add: plat_call_def)

lemma start_ok:
  "send_thread_start E c = (POTR_OK, c') \<Longrightarrow> core c' = core c \<and> c_send_queue c' = c_send_queue c \<and> c_send_thread c' \<and> c_send_thread_running c'"
  "health_thread_start E c = (POTR_OK, c') \<Longrightarrow> core c' = core c \<and> c_send_queue c' = c_send_queue c \<and>
     c_send_thread c' = c_send_thread c \<and> c_send_thread_running c' = c_send_thread_running c"
  "comm_recv_thread_start E c = (POTR_OK, c') \<Longrightarrow> core c' = core c \<and> c_send_queue c' = c_send_queue c \<and>
     c_send_thread c' = c_send_thread c \<and> c_send_thread_running c' = c_send_thread_running c \<and> c_recv_thread c' = (c_recv_thread c)[0 := True]"
  by (auto simp: send_thread_start_def health_thread_start_def comm_recv_thread_start_def plat_call_def split: if_splits)

lemma open_queue_ok:
  assumes "open_send_queue E c = (POTR_OK, c')" "0 < unat (gc_send_queue_depth (c_global c))"
  shows "core c' = core c \<and> sq_inv (unat (gc_max_payload (c_global c))) (c_send_queue c') \<and> sq_waiting (c_send_queue c') = [] \<and>
    sq_flying (c_send_queue c') = [] \<and> c_send_thread c' = c_send_thread c"
  using assms sq_init_spec[of E "\<lambda>k. lock_create_ok E (c_tick c + k)" "unat (gc_send_queue_depth (c_global c))" "gc_max_payload (c_global c)"]
  by (auto simp: open_send_queue_def split: prod.splits)

text \<open>Which services send: all but a receiver of a one-way type.\<close>

definition sends :: "potr_type \<Rightarrow> potr_role \<Rightarrow> bool" where
  "sends t role \<longleftrightarrow> role = POTR_ROLE_SENDER \<or> t = POTR_TYPE_UNICAST_BIDIR \<or> t = POTR_TYPE_UNICAST_BIDIR_N1 \<or> t = POTR_TYPE_TCP_BIDIR"

definition queue_ready :: "potr_context \<Rightarrow> bool" where
  "queue_ready c \<longleftrightarrow> sq_inv (unat (gc_max_payload (c_global c))) (c_send_queue c) \<and> sq_waiting (c_send_queue c) = [] \<and>
     sq_flying (c_send_queue c) = []"

lemma udp_started:
  assumes "start_threads_udp E R c role = (POTR_OK, c')" "0 < unat (gc_send_queue_depth (c_global c))" "\<not> is_tcp_type (sd_type (c_service c))"
  shows "core c' = core c \<and> (sends (sd_type (c_service c)) role \<longrightarrow> queue_ready c' \<and> c_send_thread c' \<and> c_send_thread_running c')"
proof (cases "sends (sd_type (c_service c)) role")
  case False
  then have "core c' = core c" using assms start_ok(3)[of E c c']
    by (auto simp: start_threads_udp_def sends_def Let_def split: prod.splits if_splits)
  then show ?thesis using False by simp
next
  case True
  let ?t = "sd_type (c_service c)"
  have b: "role = POTR_ROLE_SENDER \<or> ?t = POTR_TYPE_UNICAST_BIDIR \<or> ?t = POTR_TYPE_UNICAST_BIDIR_N1"
    "\<not> (role = POTR_ROLE_RECEIVER \<and> \<not> (?t = POTR_TYPE_UNICAST_BIDIR \<or> ?t = POTR_TYPE_UNICAST_BIDIR_N1))"
    using True assms(3) by (auto simp: sends_def)
  obtain c1 c2 c3 where o: "open_send_queue E c = (POTR_OK, c1)" "send_thread_start E c1 = (POTR_OK, c2)"
    "health_thread_start E (c2\<lparr>c_health_send_immediate := (c_health_send_immediate c2)[0 := type_uses_immediate_health_ping ?t]\<rparr>) = (POTR_OK, c3)"
    "comm_recv_thread_start E c3 = (POTR_OK, c')"
    using assms(1) b unfolding start_threads_udp_def Let_def by (simp split: prod.splits if_splits)
  have "queue_ready c1" using open_queue_ok[OF o(1) assms(2)] by (simp add: queue_ready_def core_def)
  then show ?thesis using open_queue_ok[OF o(1) assms(2)] start_ok(1)[OF o(2)] start_ok(2)[OF o(3)] start_ok(3)[OF o(4)] True
    by (auto simp: queue_ready_def core_def)
qed

lemma all_ok_core:
  assumes "all_ok f xs c = (b, c')" "\<And>x c b c'. f x c = (b, c') \<Longrightarrow> core c' = core c \<and> c_send_queue c' = c_send_queue c"
  shows "core c' = core c \<and> c_send_queue c' = c_send_queue c"
  by (rule all_ok_inv[OF assms(1), where P = "\<lambda>d. core d = core c \<and> c_send_queue d = c_send_queue c"]) (use assms(2) in fastforce)+

lemma connect_started:
  assumes "connect_thread_start E R c = (POTR_OK, c')"
  shows "core c' = core c \<and> c_send_queue c' = c_send_queue c"
proof -
  let ?ks = "[0..<c_n_path c]"
  have alloc: "core d' = core d \<and> c_send_queue d' = c_send_queue d" if "alloc_first_pkt R i d = (b, d')" for i d b d'
    using that by (auto simp: alloc_first_pkt_def malloc_def plat_call_def upd_tcp_def core_def)
  have create: "core d' = core d \<and> c_send_queue d' = c_send_queue d" if "create_connect_thread E i d = (b, d')" for i d b d'
    using that by (auto simp: create_connect_thread_def plat_call_def upd_tcp_def core_def split: if_splits)
  obtain c1 where c1: "core c1 = core c \<and> c_send_queue c1 = c_send_queue c" "all_ok (create_connect_thread E) ?ks c1 = (True, c')"
  proof (cases "c_role c = POTR_ROLE_RECEIVER")
    case True
    let ?c = "c\<lparr>c_tick := Suc (c_tick c)\<rparr>"
    from assms True obtain c1 where a: "all_ok (alloc_first_pkt R) ?ks ?c = (True, c1)" and t: "all_ok (create_connect_thread E) ?ks c1 = (True, c')"
      by (auto simp: connect_thread_start_def plat_call_def Let_def split: prod.splits if_splits)
    show ?thesis using that[OF _ t] all_ok_core[OF a alloc] by simp
  next
    case False
    then show ?thesis using assms that[of c] by (auto simp: connect_thread_start_def Let_def split: prod.splits if_splits)
  qed
  show ?thesis using all_ok_core[OF c1(2) create] c1(1) by simp
qed

lemma tcp_started:
  assumes "start_threads_tcp E R c role = (POTR_OK, c')" "0 < unat (gc_send_queue_depth (c_global c))" "is_tcp_type (sd_type (c_service c))"
  shows "core c' = core c \<and> (sends (sd_type (c_service c)) role \<longrightarrow> queue_ready c')"
proof -
  let ?q = "has_send_queue (sd_type (c_service c)) role"
  from assms(1) obtain c1 c2 where l: "all_ok (\<lambda>_ c. plat_call c (lock_create_ok E)) [0..<5 + 3 * POTR_MAX_PATH + 1] c = (True, c1)"
    and q: "(if ?q then open_send_queue E c1 else (POTR_OK, c1)) = (POTR_OK, c2)" and t: "connect_thread_start E R c2 = (POTR_OK, c')"
    unfolding start_threads_tcp_def Let_def by (simp split: prod.splits if_splits)
  have k1: "core c1 = core c \<and> c_send_queue c1 = c_send_queue c" by (rule all_ok_core[OF l]) (auto simp: plat_call_def)
  have k2: "core c2 = core c1 \<and> (?q \<longrightarrow> queue_ready c2)"
  proof (cases ?q)
    case True
    then show ?thesis using q open_queue_ok[of E c1 c2] assms(2) k1 by (auto simp: queue_ready_def core_def)
  qed (use q in simp)
  have k3: "core c' = core c2 \<and> c_send_queue c' = c_send_queue c2" by (rule connect_started[OF t])
  have "sends (sd_type (c_service c)) role \<longleftrightarrow> ?q" using assms(3) by (auto simp: sends_def has_send_queue_def)
  then show ?thesis using k1 k2 k3 by (auto simp: queue_ready_def core_def)
qed

section \<open>The state before the threads start\<close>

definition valid_config :: "potr_global_config \<Rightarrow> bool" where
  "valid_config g \<longleftrightarrow> 64 \<le> unat (gc_max_payload g) \<and> unat (gc_max_payload g) \<le> POTR_MAX_PAYLOAD \<and>
     2 \<le> unat (gc_window_size g) \<and> unat (gc_window_size g) \<le> POTR_MAX_WINDOW_SIZE \<and>
     unat (gc_max_payload g) \<le> unat (gc_max_message_size g) \<and> 2 \<le> unat (gc_send_queue_depth g)"

lemma validated:
  assumes "open_validate_config c = (POTR_OK, c')"
  shows "valid_config (c_global c) \<and> (\<exists>i t. c' = c\<lparr>c_health_interval_ms := i, c_health_timeout_ms := t\<rparr>)"
proof
  show "valid_config (c_global c)"
    using assms by (auto simp: open_validate_config_def valid_config_def Let_def word_less_nat_alt not_less split: if_splits)
  have "c' = c\<lparr>c_health_interval_ms := c_health_interval_ms c', c_health_timeout_ms := c_health_timeout_ms c'\<rparr>"
    using assms by (auto simp: open_validate_config_def Let_def split: if_splits)
  then show "\<exists>i t. c' = c\<lparr>c_health_interval_ms := i, c_health_timeout_ms := t\<rparr>" by blast
qed

lemma fold_update_length: "length (fold (\<lambda>i ds. ds[i := f i]) ks xs) = length xs"
  by (induction ks arbitrary: xs) simp_all

lemma dests_set:
  assumes "api_setup_dest_addr E c role = (r, c')"
  shows "\<exists>ds. length ds = length (s_dest_addr (c_slot c)) \<and> c' = c\<lparr>c_slot := (c_slot c)\<lparr>s_dest_addr := ds\<rparr>\<rparr>"
proof -
  have same: "c = c\<lparr>c_slot := (c_slot c)\<lparr>s_dest_addr := s_dest_addr (c_slot c)\<rparr>\<rparr>" by simp
  have sets: "\<exists>ds. length ds = length (s_dest_addr (c_slot c)) \<and> set_dests E c a p = c\<lparr>c_slot := (c_slot c)\<lparr>s_dest_addr := ds\<rparr>\<rparr>" for a p
    by (rule exI[of _ "fold (\<lambda>i ds. ds[i := \<lparr>ep_address = a i, ep_port = hton16 E p\<rparr>]) [0..<c_n_path c] (s_dest_addr (c_slot c))"])
      (simp add: set_dests_def upd_slot_def fold_update_length)
  have "c' = c \<or> (\<exists>a p. c' = set_dests E c a p)"
    using assms by (auto simp: api_setup_dest_addr_def Let_def split: if_splits potr_type.splits sum.splits)
  then show ?thesis using same sets by metis
qed

lemma session_set:
  assumes "generate_session E c = (r, c')"
  shows "\<exists>i ts a b n. c' = c\<lparr>c_slot := (c_slot c)\<lparr>s_session_id := i, s_session_ts := ts\<rparr>, c_last_ping_send_ms := a,
    c_last_valid_data_send_ms := b, c_tick := n\<rparr>"
proof -
  have "c' = c\<lparr>c_slot := (c_slot c)\<lparr>s_session_id := s_session_id (c_slot c'), s_session_ts := s_session_ts (c_slot c')\<rparr>,
     c_last_ping_send_ms := c_last_ping_send_ms c', c_last_valid_data_send_ms := c_last_valid_data_send_ms c', c_tick := c_tick c'\<rparr>"
    using assms by (auto simp: generate_session_def plat_call_def upd_slot_def Let_def split: prod.splits if_splits)
  then show ?thesis by blast
qed

lemma all_ok_malloc: "all_ok (\<lambda>i. malloc R k) xs c = (b, c') \<Longrightarrow> \<exists>n. c' = c\<lparr>c_tick := n\<rparr>"
  by (erule all_ok_inv[where P = "\<lambda>d. \<exists>n. d = c\<lparr>c_tick := n\<rparr>"]) (auto simp: malloc_def plat_call_def intro: exI[of _ "c_tick c"])

lemma buffers_allocated:
  assumes "alloc_context_buffers E R c = (POTR_OK, c')" "c_slot c = st" "s_send_window st = window_zero" "s_recv_window st = window_zero"
    and "0 < unat (gc_window_size (c_global c))"
  shows "\<exists>sw rw n. c' = c\<lparr>c_slot := st\<lparr>s_send_window := sw, s_send_has_data := False, s_recv_window := rw\<rparr>,
      c_compress_buf_size := rt_compress_header_size R + unat (gc_max_message_size (c_global c)) + 64,
      c_crypto_buf_size := unat (gc_max_payload (c_global c)) + POTR_CRYPTO_TAG_SIZE, c_tick := n\<rparr> \<and>
    send_inv E sw \<and> win_max_payload sw = gc_max_payload (c_global c) \<and> win_next_seq sw = 0 \<and>
    recv_inv rw \<and> win_window_size rw = gc_window_size (c_global c) \<and> win_max_payload rw = gc_max_payload (c_global c)"
proof -
  let ?ws = "gc_window_size (c_global c)" and ?mp = "gc_max_payload (c_global c)"
  obtain r1 sw where i1: "window_init E window_zero 0 ?ws ?mp = (r1, sw)" by (meson surj_pair)
  have ok: "r1 = POTR_OK" using assms(1-4) i1 by (auto simp: alloc_context_buffers_def Let_def split: if_splits)
  have pre: "win_init_pre window_zero" by (simp add: win_init_pre_def window_zero_def)
  note w = window_init_wf[OF pre assms(5) i1[unfolded ok]]
  have sr: "send_inv E sw" "recv_inv sw"
    using window_init_send[OF pre assms(5) i1[unfolded ok]] window_init_recv[OF pre assms(5) i1[unfolded ok]] by auto
  let ?size = "rt_compress_header_size R + unat (gc_max_message_size (c_global c)) + 64"
  let ?d = "\<lambda>n. c\<lparr>c_slot := st\<lparr>s_send_window := sw, s_send_has_data := False, s_recv_window := sw\<rparr>,
      c_compress_buf_size := ?size, c_crypto_buf_size := unat ?mp + POTR_CRYPTO_TAG_SIZE, c_tick := n\<rparr>"
  let ?n = "Suc (Suc (Suc (Suc (Suc (Suc (Suc (c_tick c)))))))"
  obtain b c10 where a: "all_ok (\<lambda>i. malloc R (POTR_PACKET_HEADER_SIZE + unat ?mp)) [0..<c_n_path c] (?d ?n) = (b, c10)" by (meson surj_pair)
  have "c' = ?d ?n \<or> c' = c10"
    using assms(1-4) i1 ok a unfolding alloc_context_buffers_def
    by (simp add: malloc_def plat_call_def upd_slot_def Let_def split: if_splits)
  then have "\<exists>n. c' = ?d n" using all_ok_malloc[OF a] by auto
  then show ?thesis using sr w by blast
qed

section \<open>An opened service\<close>

lemma cleanup_not_opened [simp]: "ctx_cleanup r c \<noteq> Opened c'"
  by (simp add: ctx_cleanup_def)

lemma open_steps:
  assumes "potr_service_open E R tick glob serv role callback handle = Opened c"
  obtains g s c2 c3 c4 c5 c6 where "glob = Some g" "serv = Some s" "handle" "role = POTR_ROLE_RECEIVER \<longrightarrow> callback"
    "open_validate_config (new_context g s (Suc (Suc tick))) = (POTR_OK, c2)"
    "api_open_paths_by_type E (rt_peer_size R) c2 role = (POTR_OK, c3)"
    "api_setup_dest_addr E (c3\<lparr>c_callback := callback, c_role := role\<rparr>) role = (POTR_OK, c4)"
    "generate_session E c4 = (CPLAT_OK, c5)" "alloc_context_buffers E R c5 = (POTR_OK, c6)"
    "(if is_tcp_type (sd_type (c_service c6)) then start_threads_tcp E R c6 role else start_threads_udp E R c6 role) = (POTR_OK, c)"
  using assms unfolding potr_service_open_def Let_def
  by (simp split: option.splits if_splits prod.splits)

text \<open>What holds of the context before its threads start.\<close>

definition prepared :: "cplat \<Rightarrow> runtime \<Rightarrow> potr_global_config \<Rightarrow> potr_service_def \<Rightarrow> potr_role \<Rightarrow> bool \<Rightarrow> potr_context \<Rightarrow> bool" where
  "prepared E R g s role callback c \<longleftrightarrow> ctx_inv c \<and> valid_config g \<and> c_global c = g \<and> c_role c = role \<and> c_callback c = callback \<and>
     c_service c = s\<lparr>sd_broadcast_addr := sd_broadcast_addr (c_service c)\<rparr> \<and>
     send_inv E (s_send_window (c_slot c)) \<and> win_max_payload (s_send_window (c_slot c)) = gc_max_payload g \<and>
     win_next_seq (s_send_window (c_slot c)) = 0 \<and>
     c_crypto_buf_size c = unat (gc_max_payload g) + POTR_CRYPTO_TAG_SIZE \<and>
     c_compress_buf_size c = rt_compress_header_size R + unat (gc_max_message_size g) + 64 \<and>
     0 < c_n_path c \<and> c_n_path c \<le> POTR_MAX_PATH \<and> (\<forall>i<c_n_path c. path_given (c_service c) role i) \<and>
     binds_of (c_trace c) = bound_list (bound_to E (c_service c) role) [0..<c_n_path c] \<and>
     (\<forall>pid. events_of pid (c_trace c) = []) \<and> s_frag_buf (c_slot c) = [] \<and> \<not> s_health_alive (c_slot c) \<and> \<not> c_close_requested c \<and>
     (c_is_multi_peer c \<longleftrightarrow> sd_type s = POTR_TYPE_UNICAST_BIDIR_N1)"

lemma n1_max_peers_int: "n1_max_peers s \<le> 2147483647"
proof (cases "sint (sd_max_peers s) \<le> 0")
  case False
  have b: "sint (sd_max_peers s) < 2147483648" using sint_lt[of "sd_max_peers s"] by simp
  have "uint (sd_max_peers s) = sint (sd_max_peers s)"
    using False b by (simp add: uint_sint take_bit_int_eq_self_iff)
  then have "unat (sd_max_peers s) \<le> 2147483647" using b by (simp add: unat_eq_nat_uint)
  then show ?thesis using False by (simp add: n1_max_peers_def)
qed (simp add: n1_max_peers_def)

text \<open>A table without active peers.\<close>

lemma no_active_ids: "\<forall>p\<in>set ps. \<not> p_active p \<Longrightarrow> active_ids ps = []"
  by (simp add: active_ids_def filter_empty_conv)

lemma find_inactive: "\<forall>p\<in>set (c_peers c). \<not> p_active p \<Longrightarrow> peer_find_by_id c pid = None"
  by (auto simp: peer_find_by_id_def find_peer_None)

lemma same_type: "s' = s\<lparr>sd_broadcast_addr := b\<rparr> \<Longrightarrow> sd_type s' = sd_type s"
  by simp

lemma opening_prepared:
  assumes "causes_ok E" "open_validate_config (new_context g s tick) = (POTR_OK, c2)"
    "api_open_paths_by_type E (rt_peer_size R) c2 role = (POTR_OK, c3)"
    "api_setup_dest_addr E (c3\<lparr>c_callback := callback, c_role := role\<rparr>) role = (POTR_OK, c4)"
    "generate_session E c4 = (CPLAT_OK, c5)" "alloc_context_buffers E R c5 = (POTR_OK, c6)"
  shows "prepared E R g s role callback c6"
proof -
  let ?c = "new_context g s tick"
  have v: "valid_config g" using validated[OF assms(2)] by (simp add: new_context_def)
  obtain hi ht where c2: "c2 = ?c\<lparr>c_health_interval_ms := hi, c_health_timeout_ms := ht\<rparr>" using validated[OF assms(2)] by blast
  note p = by_type_opens[OF assms(1) _ _ _ assms(3), simplified, unfolded c2 new_context_def, simplified]
  obtain ds where c4: "length ds = length (s_dest_addr (c_slot c3))"
    "c4 = c3\<lparr>c_callback := callback, c_role := role, c_slot := (c_slot c3)\<lparr>s_dest_addr := ds\<rparr>\<rparr>"
    using dests_set[OF assms(4)] by auto
  obtain i ts a b n where c5: "c5 = c4\<lparr>c_slot := (c_slot c4)\<lparr>s_session_id := i, s_session_ts := ts\<rparr>, c_last_ping_send_ms := a,
    c_last_valid_data_send_ms := b, c_tick := n\<rparr>" using session_set[OF assms(5)] by blast
  have k: "c_slot c3 = slot_zero" "c_global c3 = g" "\<not> c_close_requested c3" "\<And>pid. events_of pid (c_trace c3) = []"
    "\<forall>p\<in>set (c_peers c3). \<not> p_active p" "c_n_peers c3 = 0" "length (c_peers c3) \<le> 2147483647"
    using p n1_max_peers_int by (auto simp: paths_ready_def kept_def Let_def peer_zero_def fun_eq_iff)
  have st: "c_slot c5 = slot_zero\<lparr>s_dest_addr := ds, s_session_id := i, s_session_ts := ts\<rparr>" using k by (simp add: c5 c4(2))
  have g5: "c_global c5 = g" using k by (simp add: c5 c4(2))
  obtain sw rw m where c6: "c6 = c5\<lparr>c_slot := slot_zero\<lparr>s_dest_addr := ds, s_session_id := i, s_session_ts := ts,
        s_send_window := sw, s_send_has_data := False, s_recv_window := rw\<rparr>,
      c_compress_buf_size := rt_compress_header_size R + unat (gc_max_message_size g) + 64,
      c_crypto_buf_size := unat (gc_max_payload g) + POTR_CRYPTO_TAG_SIZE, c_tick := m\<rparr>"
    and w: "send_inv E sw" "win_max_payload sw = gc_max_payload g" "win_next_seq sw = 0"
      "recv_inv rw" "win_window_size rw = gc_window_size g" "win_max_payload rw = gc_max_payload g"
    using buffers_allocated[OF assms(6) st] v unfolding g5 by (auto simp: slot_zero_def valid_config_def)
  have inv: "slot_inv g (c_slot c6)" using w c4(1) k(1) by (simp add: c6 slot_inv_def slot_zero_def)
  have f: "c_peers c6 = c_peers c3" "c_n_peers c6 = 0" "c_trace c6 = c_trace c3" "c_service c6 = c_service c3" "c_n_path c6 = c_n_path c3"
    "c_is_multi_peer c6 = c_is_multi_peer c3" "c_callback c6 = callback" "c_role c6 = role" "\<not> c_close_requested c6" "c_global c6 = g"
    using k by (simp_all add: c6 c5 c4(2))
  have "table_inv c6" using f k no_active_ids[of "c_peers c6"] by (simp add: table_inv_def)
  moreover have "view_at c6 pid = view_start" for pid
    using find_inactive[of c6 pid] f k by (simp add: view_at_def c6 view_of_def view_start_def slot_zero_def)
  moreover have "\<not> p_active (c_peers c6 ! j)" if "j < length (c_peers c6)" for j using that f k by simp
  moreover have "c_is_multi_peer c6 \<longleftrightarrow> sd_type s = POTR_TYPE_UNICAST_BIDIR_N1"
    using p f by (cases "sd_type s") auto
  moreover have "sd_type (c_service c6) = sd_type s" using p f(4) same_type by metis
  ultimately have ctx: "ctx_inv c6" "c_is_multi_peer c6 \<longleftrightarrow> sd_type s = POTR_TYPE_UNICAST_BIDIR_N1"
    using inv v f(3,10) k(4) by (auto simp: ctx_inv_def valid_config_def)
  show ?thesis unfolding prepared_def
    using ctx v w f k(4) p by (simp add: paths_ready_def Let_def) (simp add: c6 slot_zero_def)
qed

text \<open>
  C9: A service that was opened is ready.  Its context satisfies the invariant that the receive
  threads keep, and, if the service sends, the invariant that the send thread keeps, with an empty
  queue and a running send thread (which a TCP service starts when it connects).  The
  configuration is within its bounds and the buffers have the sizes it implies; the paths are the
  configured ones, bound to the documented endpoints; no event was reported.
\<close>

theorem service_open_ready:
  assumes "causes_ok E" "potr_service_open E R tick glob serv role callback handle = Opened c"
  shows "\<exists>g s. glob = Some g \<and> serv = Some s \<and> prepared E R g s role callback c \<and> (role = POTR_ROLE_RECEIVER \<longrightarrow> callback) \<and>
    (sends (sd_type s) role \<longrightarrow> sender_inv E c \<and> sq_waiting (c_send_queue c) = [] \<and>
      (\<not> is_tcp_type (sd_type s) \<longrightarrow> c_send_thread c \<and> c_send_thread_running c))"
proof -
  from open_steps[OF assms(2)] obtain g s c2 c3 c4 c5 c6 where o: "glob = Some g" "serv = Some s" "role = POTR_ROLE_RECEIVER \<longrightarrow> callback"
    "open_validate_config (new_context g s (Suc (Suc tick))) = (POTR_OK, c2)"
    "api_open_paths_by_type E (rt_peer_size R) c2 role = (POTR_OK, c3)"
    "api_setup_dest_addr E (c3\<lparr>c_callback := callback, c_role := role\<rparr>) role = (POTR_OK, c4)"
    "generate_session E c4 = (CPLAT_OK, c5)" "alloc_context_buffers E R c5 = (POTR_OK, c6)"
    "(if is_tcp_type (sd_type (c_service c6)) then start_threads_tcp E R c6 role else start_threads_udp E R c6 role) = (POTR_OK, c)"
    by metis
  have p6: "prepared E R g s role callback c6" by (rule opening_prepared[OF assms(1) o(4-8)])
  have t: "sd_type (c_service c6) = sd_type s" using p6 same_type unfolding prepared_def by metis
  have d: "0 < unat (gc_send_queue_depth (c_global c6))" using p6 by (simp add: prepared_def valid_config_def)
  have k: "core c = core c6" "sends (sd_type s) role \<longrightarrow> queue_ready c \<and> (\<not> is_tcp_type (sd_type s) \<longrightarrow> c_send_thread c \<and> c_send_thread_running c)"
    using tcp_started[OF _ d, of E R role c] udp_started[OF _ d, of E R role c] o(9) unfolding t by (cases "is_tcp_type (sd_type s)"; simp)+
  have p: "prepared E R g s role callback c" using p6 k(1) ctx_inv_core[OF k(1)] by (simp add: prepared_def core_def)
  have "sender_inv E c" if "queue_ready c" using that p by (simp add: sender_inv_def prepared_def queue_ready_def valid_config_def)
  then show ?thesis using o(1-3) p k(2) by (auto simp: queue_ready_def)
qed

text \<open>A bidirectional receiver with the smallest configuration, on a platform where every call succeeds.\<close>

definition demo_runtime :: runtime where
  "demo_runtime = \<lparr>rt_rest = (\<lambda>t c. c), rt_malloc_ok = (\<lambda>n k. True), rt_shutdown_keeps = (\<lambda>i. True), rt_peer_size = 1,
     rt_context_size = 1, rt_compress_header_size = 4\<rparr>"

definition demo_least :: potr_global_config where
  "demo_least = demo_global\<lparr>gc_window_size := 2, gc_max_payload := 64, gc_max_message_size := 64, gc_send_queue_depth := 2\<rparr>"

definition demo_open :: "cplat \<Rightarrow> open_outcome" where
  "demo_open E = potr_service_open E demo_runtime 0 (Some demo_least) (Some demo_service) POTR_ROLE_RECEIVER True True"

fun outcome_kind :: "open_outcome \<Rightarrow> nat" where
  "outcome_kind (Refused r) = 0"
| "outcome_kind (Released r c) = 1"
| "outcome_kind (Retained r c) = 2"
| "outcome_kind (Opened c) = 3"

lemmas demo_open_eval = demo_open_def potr_service_open_def demo_runtime_def demo_cplat_def open_validate_callback_def
  new_context_def demo_service_def demo_least_def demo_global_def open_validate_config_def Let_def api_open_paths_by_type_def
  api_open_paths_unicast_bidir_def open_socket_unicast_def plat_call_def emit_def api_setup_dest_addr_def set_dests_def upd_slot_def
  generate_session_def alloc_context_buffers_def window_init_def malloc_def start_threads_udp_def slot_zero_def window_zero_def
  open_send_queue_def send_queue_init_def send_queue_zero_def send_thread_start_def health_thread_start_def
  comm_recv_thread_start_def word_less_nat_alt

lemma demo_opened: "outcome_kind (demo_open demo_cplat) = 3"
  by (simp add: demo_open_eval)

lemma demo_causes [simp]: "causes_ok demo_cplat"
  by (simp add: causes_ok_def demo_cplat_def)

theorem service_open_ready_witness:
  "\<exists>c. potr_service_open demo_cplat demo_runtime 0 (Some demo_least) (Some demo_service) POTR_ROLE_RECEIVER True True = Opened c \<and>
     prepared demo_cplat demo_runtime demo_least demo_service POTR_ROLE_RECEIVER True c \<and> sender_inv demo_cplat c \<and> c_send_thread c"
proof -
  obtain c where c: "potr_service_open demo_cplat demo_runtime 0 (Some demo_least) (Some demo_service) POTR_ROLE_RECEIVER True True = Opened c"
    using demo_opened unfolding demo_open_def
    by (cases "potr_service_open demo_cplat demo_runtime 0 (Some demo_least) (Some demo_service) POTR_ROLE_RECEIVER True True") auto
  have "sends (sd_type demo_service) POTR_ROLE_RECEIVER" "\<not> is_tcp_type (sd_type demo_service)" by (simp_all add: sends_def demo_service_def)
  then show ?thesis using service_open_ready[OF demo_causes c] c by auto
qed

end
