(* ===== verification/Open_Failure.thy ===== *)
theory Open_Failure
  imports Service_Open
begin

text \<open>
  A call of \<^verbatim>\<open>potr_service_open\<close> that fails: the threads it had started are stopped, and the
  sockets, the buffers and the key are released.
\<close>

section \<open>A failed call\<close>

text \<open>Opening the paths starts no thread and keeps the arrays of the context.\<close>

definition same :: "potr_context \<Rightarrow> potr_context \<Rightarrow> bool" where
  "same c c' \<longleftrightarrow> handles c' = handles c \<and> lens c' = lens c"

fun step_same :: "potr_context \<Rightarrow> path_step \<Rightarrow> bool" where
  "step_same c Path_end = True"
| "step_same c (Path_fail r c') = same c c'"
| "step_same c (Path_ok c') = same c c'"

lemma same_refl [simp]: "same c c"
  by (simp add: same_def)

lemma same_trans: "same a b \<Longrightarrow> same b c \<Longrightarrow> same a c"
  by (simp add: same_def)

lemma same_updates [simp]:
  "same a (set_src_resolved c i x) = same a c" "same a (set_dst_resolved c i x) = same a c" "same a (c\<lparr>c_tick := n\<rparr>) = same a c"
  "same a (c\<lparr>c_n_path := n\<rparr>) = same a c" "same a (emit c y) = same a c" "same a (c\<lparr>c_sock := (c_sock c)[i := b]\<rparr>) = same a c"
  "same a (c\<lparr>c_sock := (c_sock c)[i := b], c_n_path := n\<rparr>) = same a c" "same a (c\<lparr>c_is_multi_peer := b\<rparr>) = same a c"
  "same a (c\<lparr>c_service := s\<rparr>) = same a c" "same a (c\<lparr>c_peers := ps\<rparr>) = same a c"
  "same a (c\<lparr>c_peers := ps, c_n_peers := np, c_next_peer_id := ni\<rparr>) = same a c"
  by (simp_all add: same_def set_src_resolved_def set_dst_resolved_def handles_def lens_def emit_def)

lemma open_each_same: "(\<And>i c. step_same c (f i c)) \<Longrightarrow> same c (snd (open_each f ks c))"
proof (induction ks arbitrary: c)
  case (Cons i ks)
  then show ?case using Cons.prems[of c i] by (cases "f i c") (auto intro: same_trans)
qed simp

lemma open_socket_same:
  "same a (snd (open_socket_unicast E c i x p)) = same a c" "same a (snd (open_socket_multicast E c i y b)) = same a c"
  "same a (snd (open_socket_broadcast E c i p q z b)) = same a c"
  by (simp_all add: open_socket_unicast_def open_socket_multicast_def open_socket_broadcast_def plat_call_def Let_def split: sum.split)

lemma add_path_same: "same c (snd x) \<Longrightarrow> step_same c (add_path i x)"
  by (auto simp: add_path_def split: prod.split)

lemma unicast_same: "open_socket_unicast E c i x p = (ok, c') \<Longrightarrow> same a c \<Longrightarrow> same a c'"
  using open_socket_same(1)[of a E c i x p] by simp

lemma resolve_same:
  "map_sum id (set_src_resolved c i) x = Inr c' \<Longrightarrow> same a c \<Longrightarrow> same a c'"
  "map_sum id (\<lambda>v. (v, set_dst_resolved c i v)) x = Inr (u, c') \<Longrightarrow> same a c \<Longrightarrow> same a c'"
  by (cases x; auto)+

lemma path_same:
  "step_same c (unicast_path E role i c)" "step_same c (multicast_path E role i c)" "step_same c (broadcast_path E role i c)"
  by (auto simp: unicast_path_def multicast_path_def broadcast_path_def Let_def open_socket_same split: sum.split
      intro!: add_path_same)

lemma n1_path_same: "step_same c (n1_path E i c)"
  by (auto simp: n1_path_def Let_def split: sum.split prod.split elim!: unicast_same)

lemma bidir_path_same: "step_same c (unicast_bidir_path E role i c)"
  by (auto simp: unicast_bidir_path_def Let_def open_socket_same split: sum.split intro!: add_path_same elim!: resolve_same)

lemma tcp_sender_same: "same c (snd (open_socket_tcp_sender E c i))"
  by (auto simp: open_socket_tcp_sender_def Let_def split: sum.split)

lemma listener_same: "same a (snd (tcp_listener E i addr c)) = same a c"
  by (auto simp: tcp_listener_def same_def handles_def lens_def Let_def split: option.split)

lemma tcp_path_same: "step_same c (tcp_path E role i c)"
proof (cases "sd_dst_addr (c_service c) ! i = []")
  case False
  have "same c (snd (open_socket_tcp_receiver E c i))"
    unfolding tcp_receiver_eq[OF False] by (simp add: Let_def listener_same split: sum.split)
  then show ?thesis using False tcp_sender_same[of c E i] by (auto simp: tcp_path_def Let_def split: prod.split)
qed (simp add: tcp_path_def)

lemma at_least_one_snd: "snd (at_least_one x) = snd x"
  by (simp add: at_least_one_def split: prod.split)

lemma peer_init_same: "same a (snd (peer_table_init E b k c n)) = same a c"
  by (simp add: peer_table_init_def)

lemma by_type_same: "same c (snd (api_open_paths_by_type E psz c role))"
proof -
  note loops = open_each_same[OF path_same(1)] open_each_same[OF path_same(2)] open_each_same[OF path_same(3)]
    open_each_same[OF bidir_path_same] open_each_same[OF tcp_path_same]
  have m: "same c (c\<lparr>c_is_multi_peer := b\<rparr>)" for b by simp
  have uni: "same c (snd (api_open_paths_unicast E c role))" "same c (snd (api_open_paths_multicast E c role))"
    "same c (snd (api_open_paths_tcp E c role))"
    using loops(1,2,5) by (simp_all add: api_open_paths_unicast_def api_open_paths_multicast_def api_open_paths_tcp_def at_least_one_snd)
  have broad: "same c (snd (api_open_paths_broadcast E c role))"
    using same_trans[OF _ loops(3)] by (simp add: api_open_paths_broadcast_def at_least_one_snd Let_def)
  have bidir: "same c (snd (api_open_paths_unicast_bidir E c role))"
    using same_trans[OF m loops(4)]
    by (auto simp: api_open_paths_unicast_bidir_def at_least_one_snd Let_def split: sum.split prod.split elim!: unicast_same resolve_same)
  have n1: "same c (snd (api_open_paths_unicast_bidir_n1 E psz c))"
    using same_trans[OF m[of True] open_each_same[of "n1_path E" "c\<lparr>c_is_multi_peer := True\<rparr>" "[0..<POTR_MAX_PATH]", OF n1_path_same]]
    by (auto simp: api_open_paths_unicast_bidir_n1_def plat_call_def Let_def peer_init_same split: prod.split if_splits elim!: unicast_same)
  show ?thesis using uni broad bidir n1 by (simp add: api_open_paths_by_type_def split: potr_type.split)
qed

lemma early_same:
  "open_validate_config c = (r, c') \<Longrightarrow> same c c'"
  "api_setup_dest_addr E c role = (r, c') \<Longrightarrow> same c c'"
  "generate_session E c = (r', c') \<Longrightarrow> same c c'"
proof -
  show "same c c'" if "open_validate_config c = (r, c')"
    using that by (auto simp: open_validate_config_def same_def handles_def lens_def Let_def split: if_splits)
  show "same c c'" if "api_setup_dest_addr E c role = (r, c')"
    using dests_set[OF that] by (auto simp: same_def handles_def lens_def)
  show "same c c'" if "generate_session E c = (r', c')"
    using session_set[OF that] by (auto simp: same_def handles_def lens_def)
qed

lemma malloc_same: "malloc R k c = (b, c') \<Longrightarrow> same a c \<Longrightarrow> same a c'"
  by (auto simp: malloc_def plat_call_def)

lemma all_malloc_same: "all_ok (\<lambda>i. malloc R k) xs c = (b, c') \<Longrightarrow> same a c \<Longrightarrow> same a c'"
  by (drule all_ok_malloc) auto

lemma size_same [simp]:
  "same a (upd_slot c CtxSlot f) = same a c" "same a (c\<lparr>c_compress_buf_size := k\<rparr>) = same a c" "same a (c\<lparr>c_crypto_buf_size := k\<rparr>) = same a c"
  by (simp_all add: same_def handles_def lens_def upd_slot_def)

lemma alloc_same: "alloc_context_buffers E R c = (r, c') \<Longrightarrow> same c c'"
  unfolding alloc_context_buffers_def Let_def
  by (auto split: prod.splits if_splits elim!: malloc_same all_malloc_same)

lemma no_threads: "handles c = (False, replicate POTR_MAX_PATH False, replicate POTR_MAX_PATH False, replicate POTR_MAX_PATH False) \<Longrightarrow>
    \<not> api_context_has_threads c"
  by (simp add: has_threads_handles)

text \<open>A start that failed leaves the handles alone.\<close>

lemma start_failed:
  "send_thread_start E c = (r, c') \<Longrightarrow> r \<noteq> POTR_OK \<Longrightarrow> same c c'"
  "health_thread_start E c = (r, c') \<Longrightarrow> r \<noteq> POTR_OK \<Longrightarrow> same c c'"
  "comm_recv_thread_start E c = (r, c') \<Longrightarrow> r \<noteq> POTR_OK \<Longrightarrow> same c c'"
  "open_send_queue E c = (r, c') \<Longrightarrow> same c c'"
  by (auto simp: send_thread_start_def health_thread_start_def comm_recv_thread_start_def open_send_queue_def plat_call_def same_def handles_def lens_def
      split: if_splits prod.splits)

lemma started_handles:
  "send_thread_start E c = (POTR_OK, c') \<Longrightarrow> handles c' = (True, snd (handles c)) \<and> lens c' = lens c"
  "health_thread_start E c = (POTR_OK, c') \<Longrightarrow> lens c' = lens c \<and>
     (\<exists>h. handles c' = (c_send_thread c, t_connect_thread (c_tcp c), c_recv_thread c, (c_health_thread c)[0 := h]) \<or> handles c' = handles c)"
  by (auto simp: send_thread_start_def health_thread_start_def plat_call_def handles_def lens_def split: if_splits)

abbreviation no_handles :: "bool \<times> bool list \<times> bool list \<times> bool list" where
  "no_handles \<equiv> (False, replicate POTR_MAX_PATH False, replicate POTR_MAX_PATH False, replicate POTR_MAX_PATH False)"

lemma dispose_queue_same [simp]: "same a (dispose_send_queue c) = same a c"
  by (simp add: same_def dispose_send_queue_def handles_def lens_def)

text \<open>After a failed start of the threads, those already started have been stopped.\<close>

lemma stop_two:
  assumes "tidy R" "handles c = (True, replicate POTR_MAX_PATH False, replicate POTR_MAX_PATH False, (replicate POTR_MAX_PATH False)[0 := h])"
  shows "lens (send_thread_stop E R c) = lens c" "lens (snd (health_thread_stop E R c)) = lens c"
    and "joins_ok E \<Longrightarrow> h = False \<Longrightarrow> \<not> api_context_has_threads (send_thread_stop E R c)"
    and "joins_ok E \<Longrightarrow> \<exists>c1. health_thread_stop E R c = (POTR_OK, c1) \<and>
      handles c1 = (True, replicate POTR_MAX_PATH False, replicate POTR_MAX_PATH False, (replicate POTR_MAX_PATH False)[0 := False])"
proof -
  show "lens (send_thread_stop E R c) = lens c" "lens (snd (health_thread_stop E R c)) = lens c" using stop_lens[OF assms(1)] by auto
  have h: "(replicate POTR_MAX_PATH False)[0 := False] = replicate POTR_MAX_PATH False" by (simp add: numeral_eq_Suc)
  show "\<not> api_context_has_threads (send_thread_stop E R c)" if "joins_ok E" "h = False"
    using send_stop_handles[OF assms(1) that(1), of c] assms(2) h unfolding that(2) by (simp add: no_threads)
  show "\<exists>c1. health_thread_stop E R c = (POTR_OK, c1) \<and>
      handles c1 = (True, replicate POTR_MAX_PATH False, replicate POTR_MAX_PATH False, (replicate POTR_MAX_PATH False)[0 := False])" if "joins_ok E"
    using health_stop_handles[OF assms(1) that, of c] assms(2) by (auto simp: handles_def)
qed

lemma udp_failed:
  assumes "tidy R" "start_threads_udp E R c role = (r, c')" "r \<noteq> POTR_OK" "handles c = no_handles"
  shows "lens c' = lens c \<and> (joins_ok E \<longrightarrow> \<not> api_context_has_threads c')"
proof -
  let ?t = "sd_type (c_service c)"
  let ?b = "?t = POTR_TYPE_UNICAST_BIDIR \<or> ?t = POTR_TYPE_UNICAST_BIDIR_N1"
  have fin: "lens c' = lens c \<and> (joins_ok E \<longrightarrow> \<not> api_context_has_threads c')" if "same c c'"
    using that assms(4) no_threads[of c'] by (simp add: same_def)
  obtain r1 c1 where q: "open_send_queue E c = (r1, c1)" by (meson surj_pair)
  obtain r2 c2 where s: "send_thread_start E c1 = (r2, c2)" by (meson surj_pair)
  let ?c2 = "c2\<lparr>c_health_send_immediate := (c_health_send_immediate c2)[0 := type_uses_immediate_health_ping ?t]\<rparr>"
  obtain r3 c3 where h: "health_thread_start E ?c2 = (r3, c3)" by (meson surj_pair)
  obtain r4 c4 where v: "comm_recv_thread_start E c3 = (r4, c4)" by (meson surj_pair)
  obtain r5 c5 where hs: "health_thread_stop E R c4 = (r5, c5)" by (meson surj_pair)
  consider "role = POTR_ROLE_RECEIVER" "\<not> ?b" | "role = POTR_ROLE_SENDER \<or> ?b" by (cases role) auto
  then show ?thesis
  proof cases
    case 1
    then have "comm_recv_thread_start E c = (r, c')" using assms(2,3) by (auto simp: start_threads_udp_def Let_def split: prod.splits if_splits)
    then show ?thesis using fin start_failed(3)[OF _ assms(3)] by blast
  next
    case 2
    then have nb: "\<not> (role = POTR_ROLE_RECEIVER \<and> \<not> ?b)" by auto
    have U: "(if r1 \<noteq> POTR_OK then (r1, c1) else if r2 \<noteq> POTR_OK then (r2, dispose_send_queue c2)
        else if r3 \<noteq> POTR_OK then
          (r3, if api_context_has_threads (send_thread_stop E R c3) then send_thread_stop E R c3 else dispose_send_queue (send_thread_stop E R c3))
        else if r4 \<noteq> POTR_OK then
          (if r5 \<noteq> POTR_OK then (r4, c5)
           else (r4, if api_context_has_threads (send_thread_stop E R c5) then send_thread_stop E R c5 else dispose_send_queue (send_thread_stop E R c5)))
        else (POTR_OK, c4)) = (r, c')"
      using assms(2) unfolding start_threads_udp_def Let_def if_not_P[OF nb] prod.case q s h v hs by (simp add: 2[simplified])
    have k1: "same c c1" by (rule start_failed(4)[OF q])
    have disp: "lens (dispose_send_queue d) = lens d" "api_context_has_threads (dispose_send_queue d) = api_context_has_threads d" for d
      by (simp_all add: lens_def dispose_send_queue_def has_threads_handles handles_def)
    show ?thesis
    proof (cases "r1 = POTR_OK \<and> r2 = POTR_OK")
      case False
      have "same c1 c2" if "r2 \<noteq> POTR_OK" by (rule start_failed(1)[OF s that])
      then have "same c c'" using U False k1 same_trans[OF k1] by (auto split: if_splits)
      then show ?thesis by (rule fin)
    next
      case True
      have k2: "handles c2 = (True, snd no_handles)" "lens c2 = lens c"
        using started_handles(1)[of E c1 c2] s True k1 assms(4) by (auto simp: same_def)
      have i2: "handles ?c2 = handles c2" "lens ?c2 = lens c2" by (simp_all add: handles_def lens_def)
      show ?thesis
      proof (cases "r3 = POTR_OK")
        case False
        then have k3: "handles c3 = (True, snd no_handles)" "lens c3 = lens c" using start_failed(2)[OF h] k2 i2 by (auto simp: same_def)
        then have "handles c3 = (True, replicate POTR_MAX_PATH False, replicate POTR_MAX_PATH False, (replicate POTR_MAX_PATH False)[0 := False])"
          by (simp add: numeral_eq_Suc)
        note z = stop_two[OF assms(1) this, of E]
        show ?thesis using U True False z k3 disp by (auto split: if_splits)
      next
        case h3: True
        obtain b where "handles c3 = (True, replicate POTR_MAX_PATH False, replicate POTR_MAX_PATH False, (replicate POTR_MAX_PATH False)[0 := b])" "lens c3 = lens c"
        proof (cases "c_health_interval_ms c2 = 0")
          case True
          then have "c3 = ?c2" using h h3 by (simp add: health_thread_start_def)
          then show ?thesis using that[of False] k2 i2 by (simp add: numeral_eq_Suc)
        next
          case False
          have "handles ?c2 = (True, snd no_handles)" "lens ?c2 = lens c" using k2 i2 by auto
          then show ?thesis using that[of True] h h3 False by (auto simp: health_thread_start_def plat_call_def handles_def lens_def split: if_splits)
        qed
        then have k4: "handles c4 = (True, replicate POTR_MAX_PATH False, replicate POTR_MAX_PATH False, (replicate POTR_MAX_PATH False)[0 := b])" "lens c4 = lens c"
          if "r4 \<noteq> POTR_OK" using start_failed(3)[OF v that] by (simp_all add: same_def)
        have n4: "r4 \<noteq> POTR_OK" using U True h3 assms(3) by (auto split: if_splits)
        note z = stop_two[OF assms(1) k4(1)[OF n4], of E]
        have l5: "lens c5 = lens c" using z(2) k4(2)[OF n4] hs by simp
        have "lens c' = lens c" using U True h3 n4 l5 disp stop_lens(1)[OF assms(1)] by (auto split: if_splits)
        moreover have "\<not> api_context_has_threads c'" if j: "joins_ok E"
        proof -
          from z(4)[OF j] hs have r5: "r5 = POTR_OK"
            "handles c5 = (True, replicate POTR_MAX_PATH False, replicate POTR_MAX_PATH False, (replicate POTR_MAX_PATH False)[0 := False])" by auto
          show ?thesis using U True h3 n4 r5(1) stop_two(3)[OF assms(1) r5(2) j refl] disp by (auto split: if_splits)
        qed
        ultimately show ?thesis by blast
      qed
    qed
  qed
qed

lemma connect_failed:
  assumes "tidy R" "connect_thread_start E R c = (r, c')" "r \<noteq> POTR_OK" "handles c = no_handles" "c_n_path c \<le> POTR_MAX_PATH"
  shows "lens c' = lens c \<and> (joins_ok E \<longrightarrow> \<not> api_context_has_threads c')"
proof -
  let ?n = "c_n_path c"
  let ?P = "\<lambda>d. idle_beyond d ?n \<and> lens d = lens c \<and> c_n_path d = ?n"
  have create: "?P d'" if "?P d" "create_connect_thread E i d = (b, d')" "i < ?n" for i d b d'
    using that by (auto simp: create_connect_thread_def plat_call_def upd_tcp_def idle_beyond_def lens_def split: if_splits)
  have idle: "idle_beyond d ?n" if "handles d = no_handles" for d using that by (simp add: idle_beyond_def handles_def)
  have stop: "lens c' = lens c \<and> (joins_ok E \<longrightarrow> \<not> api_context_has_threads c')"
    if h: "handles c1 = no_handles" "lens c1 = lens c" "c_n_path c1 = ?n" and a: "all_ok (create_connect_thread E) [0..<?n] c1 = (False, c2)"
      and s: "c' = connect_thread_stop E R c2" for c1 c2
  proof -
    have "?P c1" using h idle by simp
    then have "?P c2" by (rule all_ok_inv[OF a]) (rule create, assumption+, simp)
    then show ?thesis using s connect_stop_lens[OF assms(1), of E c2] connect_stop_none[OF assms(1), of E c2] assms(5) by simp
  qed
  show ?thesis
  proof (cases "c_role c = POTR_ROLE_RECEIVER")
    case True
    let ?c = "c\<lparr>c_tick := Suc (c_tick c)\<rparr>"
    obtain b c1 where a: "all_ok (alloc_first_pkt R) [0..<?n] ?c = (b, c1)" by (meson surj_pair)
    have k: "handles c1 = no_handles \<and> lens c1 = lens c \<and> c_n_path c1 = ?n"
      by (rule all_ok_inv[OF a]) (use assms(4) in \<open>auto simp: alloc_first_pkt_def malloc_def plat_call_def upd_tcp_def handles_def lens_def\<close>)
    obtain b2 c2 where z: "all_ok (create_connect_thread E) [0..<?n] c1 = (b2, c2)" by (meson surj_pair)
    consider "c' = ?c" | "c' = dispose_connect_resources c1" | "b2 = False" "c' = connect_thread_stop E R c2"
      using assms(2,3) True by (auto simp: connect_thread_start_def plat_call_def Let_def a z split: if_splits)
    then show ?thesis
    proof cases
      case 3
      then show ?thesis using stop[of c1 c2] k z by simp
    qed (use assms(4) k no_threads in simp_all)
  next
    case False
    obtain b2 c2 where z: "all_ok (create_connect_thread E) [0..<?n] c = (b2, c2)" by (meson surj_pair)
    have "b2 = False" "c' = connect_thread_stop E R c2"
      using assms(2,3) False by (auto simp: connect_thread_start_def Let_def z split: if_splits)
    then show ?thesis using stop[of c c2] assms(4) z by simp
  qed
qed

lemma tcp_failed:
  assumes "tidy R" "start_threads_tcp E R c role = (r, c')" "r \<noteq> POTR_OK" "handles c = no_handles" "c_n_path c \<le> POTR_MAX_PATH"
  shows "lens c' = lens c \<and> (joins_ok E \<longrightarrow> \<not> api_context_has_threads c')"
proof -
  let ?q = "has_send_queue (sd_type (c_service c)) role"
  obtain b c1 where l: "all_ok (\<lambda>_ c. plat_call c (lock_create_ok E)) [0..<5 + 3 * POTR_MAX_PATH + 1] c = (b, c1)" by (meson surj_pair)
  have k1: "same c c1 \<and> c_n_path c1 = c_n_path c" by (rule all_ok_inv[OF l]) (auto simp: plat_call_def same_def)
  obtain r2 c2 where q: "(if ?q then open_send_queue E c1 else (POTR_OK, c1)) = (r2, c2)" by (meson surj_pair)
  have k2: "same c c2 \<and> c_n_path c2 = c_n_path c" using q k1 start_failed(4)[of E c1 r2 c2]
    by (auto simp: open_send_queue_def same_def split: if_splits prod.splits)
  obtain r3 c3 where t: "connect_thread_start E R c2 = (r3, c3)" by (meson surj_pair)
  have k3: "lens c3 = lens c \<and> (joins_ok E \<longrightarrow> \<not> api_context_has_threads c3)" if "r3 \<noteq> POTR_OK"
    using connect_failed[OF assms(1) t that] k2 assms(4,5) by (simp add: same_def)
  have U: "(if \<not> b then (POTR_ERR_UNKNOWN, c1) else if r2 \<noteq> POTR_OK then (r2, c2)
      else if r3 \<noteq> POTR_OK \<and> \<not> api_context_has_threads c3 \<and> ?q then (r3, dispose_send_queue c3) else (r3, c3)) = (r, c')"
    using assms(2) unfolding start_threads_tcp_def Let_def l prod.case q t .
  have disp: "lens (dispose_send_queue c3) = lens c3" "api_context_has_threads (dispose_send_queue c3) = api_context_has_threads c3"
    by (simp_all add: lens_def dispose_send_queue_def has_threads_handles handles_def)
  have early: "lens d = lens c \<and> \<not> api_context_has_threads d" if "same c d" for d
    using that assms(4) no_threads[of d] by (simp add: same_def)
  consider "c' = c1" | "c' = c2" | "r3 \<noteq> POTR_OK" "c' = dispose_send_queue c3 \<or> c' = c3" using U assms(3) by (auto split: if_splits)
  then show ?thesis
  proof cases
    case 3
    then show ?thesis using k3[OF 3(1)] disp by (elim disjE) simp_all
  qed (use early[of c1] early[of c2] k1 k2 in simp_all)
qed

definition clean :: "cplat \<Rightarrow> open_outcome \<Rightarrow> bool" where
  "clean E out \<longleftrightarrow> (case out of
      Refused r \<Rightarrow> r \<noteq> POTR_OK
    | Released r c \<Rightarrow> r \<noteq> POTR_OK \<and> released c
    | Retained r c \<Rightarrow> r \<noteq> POTR_OK \<and> api_context_has_threads c \<and> \<not> joins_ok E
    | Opened c \<Rightarrow> True)"

lemma cleanup_clean:
  assumes "r \<noteq> POTR_OK" "lens c = (POTR_MAX_PATH, POTR_MAX_PATH, POTR_MAX_PATH)" "joins_ok E \<longrightarrow> \<not> api_context_has_threads c"
  shows "clean E (ctx_cleanup r c)"
  using assms dispose_released[of c] by (auto simp: clean_def ctx_cleanup_def)

lemma cleanup_same:
  assumes "r \<noteq> POTR_OK" "same (new_context g s n) c"
  shows "clean E (ctx_cleanup r c)"
proof -
  have "handles c = no_handles" "lens c = (POTR_MAX_PATH, POTR_MAX_PATH, POTR_MAX_PATH)"
    using assms(2) by (simp_all add: same_def new_context_def handles_def lens_def)
  then show ?thesis by (intro cleanup_clean assms(1) impI no_threads)
qed

lemma open_clean:
  assumes "causes_ok E" "tidy R"
  shows "clean E (potr_service_open E R tick glob serv role callback handle)"
proof (cases glob; cases serv)
  fix g s assume gs: "glob = Some g" "serv = Some s"
  let ?c = "new_context g s (Suc (Suc tick))"
  let ?r1 = "open_validate_callback ?c role callback"
  obtain r2 c2 where o2: "(if ?r1 = POTR_OK then open_validate_config ?c else (?r1, ?c)) = (r2, c2)" by (meson surj_pair)
  obtain r3 c3 where o3: "api_open_paths_by_type E (rt_peer_size R) c2 role = (r3, c3)" by (meson surj_pair)
  let ?c3 = "c3\<lparr>c_callback := callback, c_role := role\<rparr>"
  obtain r4 c4 where o4: "api_setup_dest_addr E ?c3 role = (r4, c4)" by (meson surj_pair)
  obtain r5 c5 where o5: "generate_session E c4 = (r5, c5)" by (meson surj_pair)
  obtain r6 c6 where o6: "alloc_context_buffers E R c5 = (r6, c6)" by (meson surj_pair)
  obtain r7 c7 where o7: "(if is_tcp_type (sd_type (c_service c6)) then start_threads_tcp E R c6 role else start_threads_udp E R c6 role) = (r7, c7)"
    by (meson surj_pair)
  have s2: "same ?c c2" using o2 early_same(1)[of ?c r2 c2] by (auto split: if_splits)
  have s3: "same ?c c3" using same_trans[OF s2 by_type_same[of c2 E "rt_peer_size R" role]] o3 by simp
  then have "same ?c ?c3" by (simp add: same_def handles_def lens_def)
  then have s4: "same ?c c4" using early_same(2)[OF o4] by (rule same_trans)
  have s5: "same ?c c5" using s4 early_same(3)[OF o5] by (rule same_trans)
  have s6: "same ?c c6" using s5 alloc_same[OF o6] by (rule same_trans)
  have U: "potr_service_open E R tick glob serv role callback handle =
     (if \<not> handle then Refused POTR_ERR_INVALID_ARGUMENT
      else if role = POTR_ROLE_RECEIVER \<and> \<not> callback then Refused POTR_ERR_INVALID_ARGUMENT
      else if \<not> rt_malloc_ok R tick (rt_context_size R) then Refused POTR_ERR_OUT_OF_MEMORY
      else if \<not> lock_create_ok E (Suc tick) then Refused POTR_ERR_UNKNOWN
      else if r2 \<noteq> POTR_OK then ctx_cleanup r2 c2 else if r3 \<noteq> POTR_OK then ctx_cleanup r3 c3 else if r4 \<noteq> POTR_OK then ctx_cleanup r4 c4
      else if r5 \<noteq> CPLAT_OK then ctx_cleanup POTR_ERR_UNKNOWN c5 else if r6 \<noteq> POTR_OK then ctx_cleanup r6 c6
      else if r7 \<noteq> POTR_OK then ctx_cleanup r7 c7 else Opened c7)"
    unfolding potr_service_open_def gs prod.case option.case Let_def o2 o3 o4 o5 o6 o7 ..
  have t: "clean E (ctx_cleanup r7 c7)"
    if ok: "r2 = POTR_OK" "r3 = POTR_OK" "r4 = POTR_OK" "r5 = CPLAT_OK" "r6 = POTR_OK" and f: "r7 \<noteq> POTR_OK"
  proof -
    have v: "open_validate_config ?c = (POTR_OK, c2)" using o2 ok(1) by (simp split: if_splits)
    have n: "c_n_path c6 \<le> POTR_MAX_PATH"
      using opening_prepared[OF assms(1) v o3[unfolded ok] o4[unfolded ok] o5[unfolded ok] o6[unfolded ok]] by (simp add: prepared_def)
    have h6: "handles c6 = no_handles" "lens c6 = (POTR_MAX_PATH, POTR_MAX_PATH, POTR_MAX_PATH)"
      using s6 by (simp_all add: same_def new_context_def handles_def lens_def)
    have "lens c7 = lens c6 \<and> (joins_ok E \<longrightarrow> \<not> api_context_has_threads c7)"
      using tcp_failed[OF assms(2) _ f h6(1) n] udp_failed[OF assms(2) _ f h6(1)] o7 by (cases "is_tcp_type (sd_type (c_service c6))") auto
    then show ?thesis using h6(2) by (intro cleanup_clean f) auto
  qed
  show "clean E (potr_service_open E R tick glob serv role callback handle)"
    unfolding U using cleanup_same[OF _ s2] cleanup_same[OF _ s3] cleanup_same[OF _ s4] cleanup_same[OF _ s5] cleanup_same[OF _ s6] t
    by (auto simp: clean_def split: if_splits)
qed (simp_all add: potr_service_open_def clean_def)

text \<open>
  C10: A failed open leaves nothing behind.  A call that does not open the service returns an
  error.  Either no context was created, or its threads have ended and its sockets, windows,
  peers and buffers are released and the key is overwritten, or it is kept because one of its
  threads may still run.  The last happens only when the platform cannot join a thread.
\<close>

theorem failed_open_releases:
  assumes "causes_ok E" "tidy R"
  shows "case potr_service_open E R tick glob serv role callback handle of
      Refused r \<Rightarrow> r \<noteq> POTR_OK
    | Released r c \<Rightarrow> r \<noteq> POTR_OK \<and> released c
    | Retained r c \<Rightarrow> r \<noteq> POTR_OK \<and> api_context_has_threads c \<and> \<not> joins_ok E
    | Opened c \<Rightarrow> True"
  using open_clean[OF assms] by (simp only: clean_def)

text \<open>The demonstration service on a platform that can create two threads, but not a third.\<close>

definition two_threads :: cplat where
  "two_threads = demo_cplat\<lparr>thread_create_ok := (\<lambda>n. n < 22)\<rparr>"

lemma demo_released: "outcome_kind (demo_open two_threads) = 1"
  by (simp add: two_threads_def demo_open_eval ctx_cleanup_def send_thread_stop_def health_thread_stop_def thread_join_def
      api_context_has_threads_def dispose_send_queue_def send_queue_dispose_def upt_rec)

theorem failed_open_releases_witness:
  "\<exists>r c. potr_service_open two_threads demo_runtime 0 (Some demo_least) (Some demo_service) POTR_ROLE_RECEIVER True True = Released r c \<and>
     r \<noteq> POTR_OK \<and> released c"
proof -
  have "causes_ok two_threads" by (simp add: causes_ok_def two_threads_def demo_cplat_def)
  moreover have "tidy demo_runtime" by (simp add: tidy_def demo_runtime_def split: thread_id.split)
  ultimately show ?thesis
    using failed_open_releases[of two_threads demo_runtime 0 "Some demo_least" "Some demo_service" POTR_ROLE_RECEIVER True True] demo_released
    unfolding demo_open_def by (auto split: open_outcome.splits)
qed

end
