(* ===== verification/Service_Close.thy ===== *)
theory Service_Close
  imports Tcp_Control Recv_Validate Open_Failure
begin

text \<open>
  \<^verbatim>\<open>api/potr_service_close.c\<close>: the queue is sent out, the end of the session is announced with a
  FIN, the threads are stopped and the context is released.

  Two calls block: the wait for the send queue to drain and the wait for the FIN_ACK of a TCP
  peer.  What the other threads do meanwhile is an argument (\<open>close_env\<close>); a call that still
  waits at the end of it is \<open>Blocked\<close>.
\<close>

unbundle bit_operations_syntax

section \<open>Definitions\<close>

datatype condvar_result = Cv_ok | Cv_timeout | Cv_error

record close_env =
  ce_drain :: "potr_context \<Rightarrow> potr_context"
  ce_wakes :: "(condvar_result \<times> (potr_context \<Rightarrow> potr_context)) list"

definition close_wait_drained :: "close_env \<Rightarrow> potr_context \<Rightarrow> potr_context option" where
  "close_wait_drained W c =
    (let c1 = ce_drain W c in case send_queue_wait_drained (c_send_queue c1) of Wait \<Rightarrow> None | Done _ \<Rightarrow> Some c1)"

text \<open>The FIN of a service with one peer.  The packet is in network byte order.\<close>

definition fin_wire :: "cplat \<Rightarrow> potr_context \<Rightarrow> bytes option" where
  "fin_wire E c =
    (let st = c_slot c;
         fin_pkt = packet_build_fin E (own_session_hdr c st);
         wire_target_seq = win_next_seq (s_send_window st);
         fin_pkt = (if s_send_has_data st
                    then fin_pkt\<lparr>flags := flags fin_pkt OR hton16 E POTR_FLAG_FIN_TARGET_VALID,
                                 ack_num := hton32 E wire_target_seq\<rparr>
                    else fin_pkt)
     in if sd_encrypt_enabled (c_service c) then
          (let fin_pkt = fin_pkt\<lparr>flags := flags fin_pkt OR hton16 E POTR_FLAG_ENCRYPTED,
                                 payload_len := hton16 E (of_nat POTR_CRYPTO_TAG_SIZE)\<rparr>;
               nonce = mem32 E (session_id fin_pkt) @ mem16 E (flags fin_pkt) @ replicate 4 0 @ replicate 2 0;
               hdr = packet_header_bytes E fin_pkt
           in map_option (\<lambda>enc. hdr @ enc)
                (crypto_encrypt E POTR_CRYPTO_TAG_SIZE (sd_encrypt_key (c_service c)) nonce hdr []))
        else Some (take (packet_wire_size E fin_pkt) (packet_header_bytes E fin_pkt)))"

definition send_fin :: "cplat \<Rightarrow> potr_context \<Rightarrow> potr_context" where
  "send_fin E c =
    (case fin_wire E c of
       None \<Rightarrow> c
     | Some wire \<Rightarrow> fold (\<lambda>i c. if \<not> c_sock c ! i then c
                               else snd (socket_sendto E c i (s_dest_addr (c_slot c) ! i) wire)) [0..<c_n_path c] c)"

definition get_fin_target_seq :: "potr_context \<Rightarrow> u32" where
  "get_fin_target_seq c = win_next_seq (s_send_window (c_slot c))"

definition send_tcp_fin :: "cplat \<Rightarrow> potr_context \<Rightarrow> u32 \<Rightarrow> potr_result \<times> potr_context" where
  "send_tcp_fin E c fin_target_seq =
    (let fin_pkt = packet_build_fin E (own_session_hdr c (c_slot c));
         fin_pkt = fin_pkt\<lparr>flags := flags fin_pkt OR hton16 E POTR_FLAG_FIN_TARGET_VALID,
                           ack_num := hton32 E fin_target_seq\<rparr>
     in tcp_send_control_packet E c fin_pkt 0)"

definition reset_tcp_close_wait :: "potr_context \<Rightarrow> potr_context" where
  "reset_tcp_close_wait c =
    upd_tcp (\<lambda>t. t\<lparr>t_close_waiting_ack := False, t_close_ack_received := False,
                   t_close_wait_target_seq := 0, t_close_ack_seq := 0\<rparr>) c"

definition begin_tcp_close_wait :: "potr_context \<Rightarrow> u32 \<Rightarrow> potr_context" where
  "begin_tcp_close_wait c fin_target_seq =
    upd_tcp (\<lambda>t. t\<lparr>t_close_waiting_ack := True, t_close_ack_received := False,
                   t_close_wait_target_seq := fin_target_seq, t_close_ack_seq := 0\<rparr>) c"

definition awaits_ack :: "potr_context \<Rightarrow> bool" where
  "awaits_ack c \<longleftrightarrow> t_close_waiting_ack (c_tcp c) \<and> \<not> t_close_ack_received (c_tcp c)"

text \<open>The loop around the condition variable, one element of the list for each return of the wait.\<close>

fun close_ack_loop :: "(condvar_result \<times> (potr_context \<Rightarrow> potr_context)) list \<Rightarrow> potr_context \<Rightarrow> (potr_result \<times> potr_context) option" where
  "close_ack_loop [] c = (if \<not> awaits_ack c then Some (POTR_OK, c) else None)"
| "close_ack_loop ((wait_result, others) # ws) c =
    (if \<not> awaits_ack c then Some (POTR_OK, c)
     else case wait_result of
            Cv_ok \<Rightarrow> close_ack_loop ws (others c)
          | Cv_timeout \<Rightarrow> Some (POTR_ERR_TIMEOUT, others c)
          | Cv_error \<Rightarrow> Some (POTR_ERR_UNKNOWN, others c))"

definition wait_for_tcp_close_ack :: "close_env \<Rightarrow> potr_context \<Rightarrow> u32 \<Rightarrow> (potr_result \<times> potr_context) option" where
  "wait_for_tcp_close_ack W c timeout_ms =
    (if timeout_ms = 0 then Some (POTR_OK, reset_tcp_close_wait c)
     else case close_ack_loop (ce_wakes W) c of
            None \<Rightarrow> None
          | Some (result, c1) \<Rightarrow> Some (if awaits_ack c1 then POTR_ERR_TIMEOUT else result, reset_tcp_close_wait c1))"

definition stop_tcp_health_threads :: "cplat \<Rightarrow> runtime \<Rightarrow> potr_context \<Rightarrow> potr_context" where
  "stop_tcp_health_threads E R c =
    fold (\<lambda>i c. if c_health_thread c ! i then snd (tcp_health_thread_stop E R c i) else c) [0..<c_n_path c] c"

text \<open>The first part of closing a TCP service: the queue and the FIN.\<close>

definition finish_tcp_session :: "cplat \<Rightarrow> runtime \<Rightarrow> close_env \<Rightarrow> potr_context \<Rightarrow> (potr_result \<times> potr_context) option" where
  "finish_tcp_session E R W c =
    (if \<not> c_send_thread_running c then Some (POTR_OK, c)
     else case close_wait_drained W (stop_tcp_health_threads E R c) of
       None \<Rightarrow> None
     | Some c1 \<Rightarrow>
         (let fin_target_seq = get_fin_target_seq c1
          in if t_active_paths (c_tcp c1) > 0 then
               (let (close_result, c2) = send_tcp_fin E (begin_tcp_close_wait c1 fin_target_seq) fin_target_seq
                in if close_result \<noteq> POTR_OK then Some (close_result, reset_tcp_close_wait c2)
                   else wait_for_tcp_close_ack W c2 (gc_tcp_close_timeout_ms (c_global c2)))
             else if s_send_has_data (c_slot c1) then Some (POTR_ERR_DISCONNECTED, c1)
             else Some (POTR_OK, reset_tcp_close_wait c1)))"

text \<open>
  The outcome: the context is freed, or kept because a thread could not be joined, or the call
  waits.  Leaving a multicast group has no state; the locks that are disposed have none either.
\<close>

datatype close_outcome =
    Close_refused potr_result
  | Closed potr_result potr_context
  | Not_closed potr_result potr_context
  | Blocked

definition close_tcp :: "cplat \<Rightarrow> runtime \<Rightarrow> close_env \<Rightarrow> potr_context \<Rightarrow> close_outcome" where
  "close_tcp E R W c =
    (case finish_tcp_session E R W c of
       None \<Rightarrow> Blocked
     | Some (ret, c1) \<Rightarrow>
         (let c2 = connect_thread_stop E R c1
          in if api_context_has_threads c2 then Not_closed POTR_ERR_UNKNOWN c2
             else (let c3 = (if has_send_queue (sd_type (c_service c2)) (c_role c2) then dispose_send_queue c2 else c2)
                   in Closed ret (api_context_dispose_resources c3))))"

definition stop_recv :: "cplat \<Rightarrow> runtime \<Rightarrow> potr_context \<Rightarrow> potr_result \<times> potr_context" where
  "stop_recv E R c = (if c_recv_thread c ! 0 then comm_recv_thread_stop E R c else (POTR_OK, c))"

text \<open>The second part of closing another service: queue, FIN, receive thread and send thread.\<close>

definition finish_udp_session :: "cplat \<Rightarrow> runtime \<Rightarrow> close_env \<Rightarrow> potr_context \<Rightarrow> (potr_result \<times> potr_context) option" where
  "finish_udp_session E R W c =
    (if \<not> c_send_thread c then Some (POTR_OK, c)
     else case close_wait_drained W c of
       None \<Rightarrow> None
     | Some c1 \<Rightarrow>
         (let c2 = (if c_is_multi_peer c1 then peer_table_send_fin E c1 else send_fin E c1);
              (r, c3) = stop_recv E R c2
          in if r \<noteq> POTR_OK then Some (POTR_ERR_UNKNOWN, c3)
             else (let c4 = send_thread_stop E R c3
                   in if c_send_thread c4 then Some (POTR_ERR_UNKNOWN, c4) else Some (POTR_OK, dispose_send_queue c4))))"

definition close_sockets :: "potr_context \<Rightarrow> potr_context" where
  "close_sockets c = fold (\<lambda>i c. if c_sock c ! i then c\<lparr>c_sock := (c_sock c)[i := False]\<rparr> else c) [0..<c_n_path c] c"

definition close_udp :: "cplat \<Rightarrow> runtime \<Rightarrow> close_env \<Rightarrow> potr_context \<Rightarrow> close_outcome" where
  "close_udp E R W c =
    (let (r, c1) = (if c_health_thread c ! 0 then health_thread_stop E R c else (POTR_OK, c))
     in if r \<noteq> POTR_OK then Not_closed POTR_ERR_UNKNOWN c1
        else case finish_udp_session E R W (c1\<lparr>c_last_ping_send_ms := 0, c_last_valid_data_send_ms := 0\<rparr>) of
          None \<Rightarrow> Blocked
        | Some (r, c2) \<Rightarrow>
            if r \<noteq> POTR_OK then Not_closed r c2
            else (let (r, c3) = stop_recv E R c2
                  in if r \<noteq> POTR_OK then Not_closed POTR_ERR_UNKNOWN c3
                     else Closed POTR_OK (api_context_dispose_resources (close_sockets c3))))"

definition potr_service_close :: "cplat \<Rightarrow> runtime \<Rightarrow> close_env \<Rightarrow> potr_context option \<Rightarrow> close_outcome" where
  "potr_service_close E R W handle =
    (case handle of
       None \<Rightarrow> Close_refused POTR_ERR_INVALID_ARGUMENT
     | Some ctx \<Rightarrow>
         (let c = ctx\<lparr>c_close_requested := True\<rparr>
          in if is_tcp_type (sd_type (c_service c)) then close_tcp E R W c else close_udp E R W c))"

section \<open>The context is released only when no thread uses it\<close>

text \<open>
  What the other threads may do while a call waits: the arrays keep their sizes, and only the
  connection threads of a TCP service write thread handles, those of its paths.
\<close>

definition calm_step :: "bool \<Rightarrow> (potr_context \<Rightarrow> potr_context) \<Rightarrow> bool" where
  "calm_step tcp f \<longleftrightarrow> (\<forall>c. lens (f c) = lens c \<and> c_n_path (f c) = c_n_path c \<and>
     (idle_beyond c (c_n_path c) \<longrightarrow> idle_beyond (f c) (c_n_path c)) \<and> (\<not> tcp \<longrightarrow> handles (f c) = handles c))"

definition calm :: "bool \<Rightarrow> close_env \<Rightarrow> bool" where
  "calm tcp W \<longleftrightarrow> calm_step tcp (ce_drain W) \<and> list_all (\<lambda>(r, f). calm_step tcp f) (ce_wakes W)"

text \<open>The queue drains and the wait for the acknowledgement ends.\<close>

definition prompt :: "close_env \<Rightarrow> bool" where
  "prompt W \<longleftrightarrow> (\<forall>c. send_queue_wait_drained (c_send_queue (ce_drain W c)) \<noteq> Wait) \<and> (\<exists>w\<in>set (ce_wakes W). fst w \<noteq> Cv_ok)"

text \<open>Which threads a service can have: those of its paths, without connection threads unless it uses TCP.\<close>

definition closable :: "potr_context \<Rightarrow> bool" where
  "closable c \<longleftrightarrow> lens c = (POTR_MAX_PATH, POTR_MAX_PATH, POTR_MAX_PATH) \<and>
     (if is_tcp_type (sd_type (c_service c)) then c_n_path c \<le> POTR_MAX_PATH \<and> idle_beyond c (c_n_path c)
      else idle_beyond c 1 \<and> \<not> t_connect_thread (c_tcp c) ! 0)"

definition udp_idle :: "potr_context \<Rightarrow> bool" where
  "udp_idle c \<longleftrightarrow> lens c = (POTR_MAX_PATH, POTR_MAX_PATH, POTR_MAX_PATH) \<and> idle_beyond c 1 \<and> \<not> t_connect_thread (c_tcp c) ! 0"

lemma udp_idle_cong: "handles c' = handles c \<Longrightarrow> lens c' = lens c \<Longrightarrow> udp_idle c' = udp_idle c"
  by (simp add: udp_idle_def idle_beyond_def handles_def)

lemma udp_idle_threads:
  assumes "udp_idle c"
  shows "api_context_has_threads c \<longleftrightarrow> c_send_thread c \<or> c_recv_thread c ! 0 \<or> c_health_thread c ! 0"
proof -
  have "(\<exists>i<POTR_MAX_PATH. t_connect_thread (c_tcp c) ! i \<or> c_recv_thread c ! i \<or> c_health_thread c ! i) \<longleftrightarrow>
      c_recv_thread c ! 0 \<or> c_health_thread c ! 0"
    using assms unfolding udp_idle_def idle_beyond_def by (metis One_nat_def Suc_leI gr0I zero_less_numeral)
  then show ?thesis by (simp add: has_threads_handles handles_def)
qed

lemma join_cases:
  assumes "tidy R" "thread_join E R t c = (b, c')" "\<forall>i. t \<noteq> Connect_thread i"
  shows "handles c' = handles c \<and> lens c' = lens c \<and> c_n_path c' = c_n_path c \<and> (b \<or> \<not> joins_ok E)"
  using assms(2) tidyD(1,2)[OF assms(1), of t] tidyD(3)[OF assms(1,3)]
  by (auto simp: thread_join_def plat_call_def joins_ok_def split: if_splits)

lemma fold_shutdown: "lens (fold (shutdown_receive R) ks c) = lens c \<and> handles (fold (shutdown_receive R) ks c) = handles c"
  by (induction ks arbitrary: c) (auto simp: shutdown_receive_def lens_def handles_def)

text \<open>One thread after the other is stopped, or its handle stays.\<close>

lemma stop_health_cases:
  assumes "tidy R" "(if c_health_thread c ! 0 then health_thread_stop E R c else (POTR_OK, c)) = (r, c')"
  shows "lens c' = lens c \<and>
    (if r = POTR_OK then handles c' = (c_send_thread c, t_connect_thread (c_tcp c), c_recv_thread c, (c_health_thread c)[0 := False])
     else handles c' = handles c \<and> c_health_thread c' ! 0 \<and> \<not> joins_ok E)"
proof (cases "c_health_thread c ! 0")
  case True
  let ?d = "emit (c\<lparr>c_health_running := (c_health_running c)[0 := False]\<rparr>) (Io_wake_health 0)"
  obtain b c1 where j: "thread_join E R (Health_thread 0) ?d = (b, c1)" by (meson surj_pair)
  from join_cases[OF assms(1) j] have "handles c1 = handles c" "lens c1 = lens c" "b \<or> \<not> joins_ok E" by auto
  then show ?thesis using assms(2) True j by (auto simp: health_thread_stop_def Let_def handles_def split: if_splits)
next
  case False
  then have "(c_health_thread c)[0 := False] = c_health_thread c" by (metis list_update_id)
  then show ?thesis using False assms(2) by (auto simp: handles_def)
qed

lemma stop_recv_cases:
  assumes "tidy R" "stop_recv E R c = (r, c')"
  shows "lens c' = lens c \<and>
    (if r = POTR_OK then handles c' = (c_send_thread c, t_connect_thread (c_tcp c), (c_recv_thread c)[0 := False], c_health_thread c)
     else handles c' = handles c \<and> c_recv_thread c' ! 0 \<and> \<not> joins_ok E)"
proof (cases "c_recv_thread c ! 0")
  case True
  let ?d = "fold (shutdown_receive R) [0..<c_n_path c] (c\<lparr>c_running := (c_running c)[0 := False]\<rparr>)"
  have d: "handles ?d = handles c" "lens ?d = lens c" using fold_shutdown by simp_all
  obtain b c1 where j: "thread_join E R (Recv_thread 0) ?d = (b, c1)" by (meson surj_pair)
  from join_cases[OF assms(1) j] d have "handles c1 = handles c" "lens c1 = lens c" "b \<or> \<not> joins_ok E" by auto
  then show ?thesis using assms(2) True j d(1)
    by (auto simp: stop_recv_def comm_recv_thread_stop_def Let_def handles_def split: if_splits)
next
  case False
  then have "(c_recv_thread c)[0 := False] = c_recv_thread c" by (metis list_update_id)
  then show ?thesis using False assms(2) by (auto simp: stop_recv_def handles_def)
qed

lemma stop_send_cases:
  assumes "tidy R"
  shows "lens (send_thread_stop E R c) = lens c \<and> snd (handles (send_thread_stop E R c)) = snd (handles c) \<and>
    (c_send_thread (send_thread_stop E R c) \<longrightarrow> \<not> joins_ok E)"
proof -
  obtain b c1 where j: "thread_join E R Send_thread (c\<lparr>c_send_thread_running := False\<rparr>) = (b, c1)" by (meson surj_pair)
  from join_cases[OF assms j] have "handles c1 = handles c" "lens c1 = lens c" "b \<or> \<not> joins_ok E" by auto
  then show ?thesis using j by (auto simp: send_thread_stop_def handles_def)
qed

lemma sendto_keeps: "handles (snd (socket_sendto E c i ep b)) = handles c \<and> lens (snd (socket_sendto E c i ep b)) = lens c"
  by (simp add: socket_sendto_def)

lemma fold_keeps:
  assumes "\<And>i c. i \<in> set ks \<Longrightarrow> handles (f i c) = handles c \<and> lens (f i c) = lens c"
  shows "handles (fold f ks c) = handles c \<and> lens (fold f ks c) = lens c"
  using assms by (induction ks arbitrary: c) simp_all

lemma peer_fin_keeps: "handles (peer_send_fin E c i) = handles c \<and> lens (peer_send_fin E c i) = lens c"
proof -
  have p: "handles (peer_send_paths E c st w) = handles c \<and> lens (peer_send_paths E c st w) = lens c" for st w
    unfolding peer_send_paths_def by (rule fold_keeps) (simp add: sendto_keeps)
  show ?thesis unfolding peer_send_fin_def Let_def by (simp add: p split: option.split)
qed

lemma fin_keeps:
  "handles (if c_is_multi_peer c then peer_table_send_fin E c else send_fin E c) = handles c \<and>
   lens (if c_is_multi_peer c then peer_table_send_fin E c else send_fin E c) = lens c"
proof -
  have "handles (peer_table_send_fin E c) = handles c \<and> lens (peer_table_send_fin E c) = lens c"
    unfolding peer_table_send_fin_def by (rule fold_keeps) (simp add: peer_fin_keeps)
  moreover have "handles (send_fin E c) = handles c \<and> lens (send_fin E c) = lens c"
    unfolding send_fin_def by (auto split: option.split intro!: fold_keeps[THEN conjunct1] fold_keeps[THEN conjunct2] simp: sendto_keeps)
  ultimately show ?thesis by simp
qed

lemma udp_idle_stopped:
  assumes "udp_idle c" "lens c' = lens c" "snd (handles c') = snd (handles d)"
    and "handles d = handles c \<or> handles d = (c_send_thread c, t_connect_thread (c_tcp c), (c_recv_thread c)[0 := False], c_health_thread c) \<or>
      handles d = (c_send_thread c, t_connect_thread (c_tcp c), c_recv_thread c, (c_health_thread c)[0 := False])"
  shows "udp_idle c'"
  using assms unfolding udp_idle_def idle_beyond_def handles_def by auto

lemma finish_udp_cases:
  assumes "tidy R" "calm False W" "udp_idle c" "\<not> c_health_thread c ! 0"
    and "finish_udp_session E R W c = Some (r, c')"
  shows "udp_idle c' \<and> \<not> c_health_thread c' ! 0 \<and>
    (if r = POTR_OK then \<not> c_send_thread c' else r = POTR_ERR_UNKNOWN \<and> api_context_has_threads c' \<and> \<not> joins_ok E)"
proof (cases "c_send_thread c")
  case False
  then show ?thesis using assms(3,4,5) by (auto simp: finish_udp_session_def)
next
  case True
  then obtain c1 where c1: "close_wait_drained W c = Some c1" using assms(5) by (auto simp: finish_udp_session_def split: option.splits)
  have d: "handles c1 = handles c" "lens c1 = lens c"
    using c1 assms(2) by (auto simp: close_wait_drained_def Let_def calm_def calm_step_def split: wait.splits)
  let ?c2 = "if c_is_multi_peer c1 then peer_table_send_fin E c1 else send_fin E c1"
  have k: "handles ?c2 = handles c" "lens ?c2 = lens c" using fin_keeps[of c1 E] d by simp_all
  obtain r3 c3 where r: "stop_recv E R ?c2 = (r3, c3)" by (meson surj_pair)
  note rc = stop_recv_cases[OF assms(1) r]
  have i3: "udp_idle c3" by (rule udp_idle_stopped[OF assms(3), of c3 c3]) (use rc k in \<open>auto simp: handles_def split: if_splits\<close>)
  have h3: "\<not> c_health_thread c3 ! 0" using rc k assms(4) by (auto simp: handles_def split: if_splits)
  show ?thesis
  proof (cases "r3 = POTR_OK")
    case False
    then have "(r, c') = (POTR_ERR_UNKNOWN, c3)" using assms(5) True c1 r by (simp add: finish_udp_session_def Let_def)
    then show ?thesis using False rc i3 h3 udp_idle_threads[OF i3] by simp
  next
    case ok: True
    let ?c4 = "send_thread_stop E R c3"
    note sc = stop_send_cases[OF assms(1), of E c3]
    have i4: "udp_idle ?c4" by (rule udp_idle_stopped[OF i3, of ?c4 c3]) (use sc in simp_all)
    have h4: "\<not> c_health_thread ?c4 ! 0" using sc h3 by (simp add: handles_def)
    have q: "udp_idle (dispose_send_queue ?c4) = udp_idle ?c4"
      by (rule udp_idle_cong) (simp_all add: dispose_send_queue_def handles_def lens_def)
    have "(r, c') = (if c_send_thread ?c4 then (POTR_ERR_UNKNOWN, ?c4) else (POTR_OK, dispose_send_queue ?c4))"
      using assms(5) True c1 r ok by (simp add: finish_udp_session_def Let_def split: if_splits)
    then show ?thesis using i4 h4 q sc udp_idle_threads[OF i4]
      by (cases "c_send_thread ?c4") (simp_all add: dispose_send_queue_def)
  qed
qed

lemma close_sockets_keeps: "handles (close_sockets c) = handles c \<and> lens (close_sockets c) = lens c"
  unfolding close_sockets_def by (rule fold_keeps) (simp add: handles_def lens_def)

definition close_sound :: "cplat \<Rightarrow> close_env \<Rightarrow> close_outcome \<Rightarrow> bool" where
  "close_sound E W out = (case out of
      Close_refused r \<Rightarrow> False
    | Closed r c \<Rightarrow> released c
    | Not_closed r c \<Rightarrow> r = POTR_ERR_UNKNOWN \<and> api_context_has_threads c \<and> \<not> joins_ok E
    | Blocked \<Rightarrow> \<not> prompt W)"

lemma drained_prompt: "prompt W \<Longrightarrow> close_wait_drained W c \<noteq> None"
  by (auto simp: prompt_def close_wait_drained_def Let_def split: wait.splits)

lemma close_udp_sound:
  assumes "tidy R" "calm False W" "udp_idle c"
  shows "close_sound E W (close_udp E R W c)"
proof -
  obtain r1 c1 where h: "(if c_health_thread c ! 0 then health_thread_stop E R c else (POTR_OK, c)) = (r1, c1)" by (meson surj_pair)
  note hc = stop_health_cases[OF assms(1) h]
  have i1: "udp_idle c1" by (rule udp_idle_stopped[OF assms(3), of c1 c1]) (use hc in \<open>auto split: if_splits\<close>)
  show ?thesis
  proof (cases "r1 = POTR_OK")
    case False
    then show ?thesis using hc udp_idle_threads[OF i1] h by (simp add: close_udp_def close_sound_def)
  next
    case True
    let ?d = "c1\<lparr>c_last_ping_send_ms := 0, c_last_valid_data_send_ms := 0\<rparr>"
    have hl: "0 < length (c_health_thread c)" using assms(3) by (simp add: udp_idle_def idle_beyond_def)
    have d: "udp_idle ?d" "\<not> c_health_thread ?d ! 0"
      using i1 True hc hl udp_idle_cong[of ?d c1] by (simp_all add: handles_def lens_def)
    show ?thesis
    proof (cases "finish_udp_session E R W ?d")
      case None
      then have "close_wait_drained W ?d = None" by (auto simp: finish_udp_session_def Let_def split: if_splits option.splits prod.splits)
      then show ?thesis using None True h drained_prompt[of W ?d] by (auto simp: close_udp_def close_sound_def)
    next
      case (Some p)
      obtain r2 c2 where p: "p = (r2, c2)" by (meson surj_pair)
      note f = finish_udp_cases[OF assms(1,2) d(1,2) Some[unfolded p]]
      obtain r3 c3 where r: "stop_recv E R c2 = (r3, c3)" by (meson surj_pair)
      note rc = stop_recv_cases[OF assms(1) r]
      have i3: "udp_idle c3" by (rule udp_idle_stopped[of c2 c3 c3]) (use f rc in \<open>auto split: if_splits\<close>)
      have rl: "0 < length (c_recv_thread c2)" using f by (simp add: udp_idle_def idle_beyond_def)
      consider "r2 \<noteq> POTR_OK" | "r2 = POTR_OK" "r3 \<noteq> POTR_OK" | "r2 = POTR_OK" "r3 = POTR_OK" by blast
      then show ?thesis
      proof cases
        case 1
        then show ?thesis using True h Some p f by (simp add: close_udp_def close_sound_def)
      next
        case 2
        then show ?thesis using True h Some p f r rc udp_idle_threads[OF i3] by (simp add: close_udp_def close_sound_def)
      next
        case 3
        have "\<not> api_context_has_threads c3" using 3 f rc rl udp_idle_threads[OF i3] by (simp add: handles_def)
        then have "\<not> api_context_has_threads (close_sockets c3)" using close_sockets_keeps[of c3] by (simp add: has_threads_handles)
        moreover have "lens (close_sockets c3) = (POTR_MAX_PATH, POTR_MAX_PATH, POTR_MAX_PATH)"
          using close_sockets_keeps[of c3] i3 by (simp add: udp_idle_def)
        ultimately show ?thesis using dispose_released 3 True h Some p r by (simp add: close_udp_def close_sound_def)
      qed
    qed
  qed
qed

text \<open>The same for TCP.\<close>

definition tcp_idle :: "potr_context \<Rightarrow> bool" where
  "tcp_idle c \<longleftrightarrow> lens c = (POTR_MAX_PATH, POTR_MAX_PATH, POTR_MAX_PATH) \<and> c_n_path c \<le> POTR_MAX_PATH \<and> idle_beyond c (c_n_path c)"

lemma tcp_idle_cong: "handles c' = handles c \<Longrightarrow> lens c' = lens c \<Longrightarrow> c_n_path c' = c_n_path c \<Longrightarrow> tcp_idle c' = tcp_idle c"
  by (simp add: tcp_idle_def idle_beyond_def handles_def)

lemma tcp_idle_calm: "calm_step True f \<Longrightarrow> tcp_idle c \<Longrightarrow> tcp_idle (f c)"
  by (simp add: calm_step_def tcp_idle_def)

lemma tcp_health_idle:
  assumes "tidy R" "tcp_idle c"
  shows "tcp_idle (snd (tcp_health_thread_stop E R c i))"
proof -
  let ?d = "emit (c\<lparr>c_health_running := (c_health_running c)[i := False]\<rparr>) (Io_wake_health i)"
  obtain b c1 where j: "thread_join E R (Health_thread i) ?d = (b, c1)" by (meson surj_pair)
  from join_cases[OF assms(1) j] have k: "handles c1 = handles c" "lens c1 = lens c" "c_n_path c1 = c_n_path c" by (auto simp: emit_def)
  have cleared: "m < length xs \<Longrightarrow> xs[i := False] ! m \<Longrightarrow> xs ! m" for xs :: "bool list" and m
    by (cases "i = m") simp_all
  have i1: "tcp_idle c1" using tcp_idle_cong[OF k] assms(2) by simp
  moreover have "tcp_idle (c1\<lparr>c_health_thread := (c_health_thread c1)[i := False]\<rparr>)"
    using i1 unfolding tcp_idle_def idle_beyond_def lens_def by (auto dest: cleared[rotated])
  ultimately show ?thesis using j assms(2) by (auto simp: tcp_health_thread_stop_def Let_def)
qed

lemma stop_health_idle:
  assumes "tidy R" "tcp_idle c"
  shows "tcp_idle (stop_tcp_health_threads E R c)"
proof -
  have "tcp_idle (fold (\<lambda>i c. if c_health_thread c ! i then snd (tcp_health_thread_stop E R c i) else c) ks c)" for ks
    using assms(2) by (induction ks arbitrary: c) (simp_all add: tcp_health_idle[OF assms(1)])
  then show ?thesis by (simp add: stop_tcp_health_threads_def)
qed

text \<open>Writing to the connections changes nothing but the trace and the clock.\<close>

definition quiet :: "potr_context \<Rightarrow> potr_context \<Rightarrow> bool" where
  "quiet c c' \<longleftrightarrow> c' = c\<lparr>c_trace := c_trace c', c_tick := c_tick c'\<rparr>"

lemma quiet_refl [simp]: "quiet c c"
  by (simp add: quiet_def)

lemma quiet_trans:
  assumes "quiet a b" "quiet b c"
  shows "quiet a c"
proof -
  have "c = (a\<lparr>c_trace := c_trace b, c_tick := c_tick b\<rparr>)\<lparr>c_trace := c_trace c, c_tick := c_tick c\<rparr>"
    using assms unfolding quiet_def by metis
  then show ?thesis by (simp add: quiet_def)
qed

lemma quiet_idle:
  assumes "quiet c c'"
  shows "tcp_idle c' = tcp_idle c"
proof -
  have "handles (c\<lparr>c_trace := t, c_tick := n\<rparr>) = handles c" "lens (c\<lparr>c_trace := t, c_tick := n\<rparr>) = lens c"
    "c_n_path (c\<lparr>c_trace := t, c_tick := n\<rparr>) = c_n_path c" for t n
    by (simp_all add: handles_def lens_def)
  then show ?thesis using assms unfolding quiet_def by (metis tcp_idle_cong)
qed

lemma send_all_quiet: "socket_send_all E c i w = (r, c') \<Longrightarrow> quiet c c'"
  by (auto simp: socket_send_all_def emit_def quiet_def)

lemma tcp_paths_quiet: "quiet c (snd (tcp_send_paths E c w))"
proof -
  let ?step = "\<lambda>i ((attempted, sent_any), c).
            if \<not> t_conn_fd (c_tcp c) ! i then ((attempted, sent_any), c)
            else (let (res, c1) = tcp_send_all_locked E c i w in ((True, sent_any \<or> res = POTR_OK), c1))"
  have "quiet d (snd (fold ?step ks ((a, b), d)))" for ks a b d
  proof (induction ks arbitrary: a b d)
    case (Cons i ks)
    obtain res d1 where t: "socket_send_all E d i w = (res, d1)" by (meson surj_pair)
    show ?case using Cons.IH[of d a b] quiet_trans[OF send_all_quiet[OF t] Cons.IH[of d1 True "b \<or> res = POTR_OK"]]
      by (simp add: tcp_send_all_locked_def t)
  qed simp
  then show ?thesis by (simp add: tcp_send_paths_def)
qed

lemma tcp_control_quiet: "quiet c (snd (tcp_send_control_packet E c p v))"
proof -
  have f: "quiet c (snd (let ((attempted, sent_any), c1) = tcp_send_paths E c w
      in (if sent_any then POTR_OK else if \<not> attempted then POTR_ERR_DISCONNECTED else POTR_ERR_IO, c1)))" for w
    using tcp_paths_quiet[of c E w] by (auto split: prod.split)
  show ?thesis unfolding tcp_send_control_packet_def Let_def
    using f[unfolded Let_def] by (simp split: option.split)
qed

lemma ack_loop_idle:
  assumes "list_all (\<lambda>(r, f). calm_step True f) ws" "tcp_idle c" "close_ack_loop ws c = Some (r, c')"
  shows "tcp_idle c'"
  using assms by (induction ws c rule: close_ack_loop.induct) (auto split: if_splits condvar_result.splits intro: tcp_idle_calm)

lemma ack_loop_returns: "\<exists>w\<in>set ws. fst w \<noteq> Cv_ok \<Longrightarrow> close_ack_loop ws c \<noteq> None"
  by (induction ws c rule: close_ack_loop.induct) (auto split: condvar_result.splits)

lemma close_flags_idle [simp]:
  "tcp_idle (reset_tcp_close_wait c) = tcp_idle c" "tcp_idle (begin_tcp_close_wait c n) = tcp_idle c"
  by (rule tcp_idle_cong; simp add: reset_tcp_close_wait_def begin_tcp_close_wait_def upd_tcp_def handles_def lens_def)+

lemma finish_tcp_idle:
  assumes "tidy R" "calm True W" "tcp_idle c" "finish_tcp_session E R W c = Some (r, c')"
  shows "tcp_idle c'"
proof (cases "c_send_thread_running c")
  case True
  let ?h = "stop_tcp_health_threads E R c"
  obtain c1 where c1: "close_wait_drained W ?h = Some c1" using assms(4) True by (auto simp: finish_tcp_session_def split: option.splits)
  have d: "calm_step True (ce_drain W)" "list_all (\<lambda>(r, f). calm_step True f) (ce_wakes W)" using assms(2) by (simp_all add: calm_def)
  have i1: "tcp_idle c1"
    using c1 tcp_idle_calm[OF d(1) stop_health_idle[OF assms(1,3)]] by (auto simp: close_wait_drained_def Let_def split: wait.splits)
  let ?n = "get_fin_target_seq c1"
  obtain r2 c2 where f: "send_tcp_fin E (begin_tcp_close_wait c1 ?n) ?n = (r2, c2)" by (meson surj_pair)
  have "quiet (begin_tcp_close_wait c1 ?n) c2"
    using f tcp_control_quiet[of "begin_tcp_close_wait c1 ?n" E] by (metis send_tcp_fin_def snd_conv)
  then have i2: "tcp_idle c2" using i1 quiet_idle by simp
  have w: "tcp_idle c3" if "wait_for_tcp_close_ack W c2 t = Some (r3, c3)" for t r3 c3
    using that i2 ack_loop_idle[OF d(2) i2] by (auto simp: wait_for_tcp_close_ack_def split: if_splits option.splits)
  show ?thesis using assms(4) True c1 f i1 i2 w
    by (auto simp: finish_tcp_session_def Let_def split: if_splits)
qed (use assms(3,4) in \<open>auto simp: finish_tcp_session_def\<close>)

lemma finish_tcp_prompt:
  assumes "prompt W"
  shows "finish_tcp_session E R W c \<noteq> None"
proof -
  obtain c1 where c1: "close_wait_drained W (stop_tcp_health_threads E R c) = Some c1" using drained_prompt[OF assms] by blast
  have w: "wait_for_tcp_close_ack W d t \<noteq> None" for d t
  proof -
    obtain p where "close_ack_loop (ce_wakes W) d = Some p"
      using ack_loop_returns[of "ce_wakes W" d] assms by (auto simp: prompt_def)
    then show ?thesis by (simp add: wait_for_tcp_close_ack_def split: prod.split)
  qed
  show ?thesis unfolding finish_tcp_session_def c1 option.case Let_def using w by (simp split: prod.split)
qed

lemma close_tcp_sound:
  assumes "tidy R" "calm True W" "tcp_idle c"
  shows "close_sound E W (close_tcp E R W c)"
proof (cases "finish_tcp_session E R W c")
  case None
  then show ?thesis using finish_tcp_prompt[of W E R c] by (auto simp: close_tcp_def close_sound_def)
next
  case (Some p)
  obtain r c1 where p: "p = (r, c1)" by (meson surj_pair)
  have i1: "tcp_idle c1" by (rule finish_tcp_idle[OF assms Some[unfolded p]])
  let ?c2 = "connect_thread_stop E R c1"
  have l: "lens ?c2 = (POTR_MAX_PATH, POTR_MAX_PATH, POTR_MAX_PATH)" using connect_stop_lens[OF assms(1)] i1 by (simp add: tcp_idle_def)
  have n: "joins_ok E \<Longrightarrow> \<not> api_context_has_threads ?c2" using connect_stop_none[OF assms(1)] i1 by (simp add: tcp_idle_def)
  let ?c3 = "if has_send_queue (sd_type (c_service ?c2)) (c_role ?c2) then dispose_send_queue ?c2 else ?c2"
  have "handles ?c3 = handles ?c2" "lens ?c3 = lens ?c2" by (simp_all add: dispose_send_queue_def handles_def lens_def)
  then have "\<not> api_context_has_threads ?c2 \<Longrightarrow> released (api_context_dispose_resources ?c3)"
    using l dispose_released by (simp add: has_threads_handles)
  then show ?thesis using n by (auto simp: close_tcp_def close_sound_def Some p Let_def)
qed

text \<open>
  C11: Closing a service is safe.  The context is freed only after every thread of the service has
  ended, with its sockets closed, its windows, peers and buffers released and the key overwritten.
  Otherwise the call reports an error and leaves the context to the thread that still runs, which
  happens only when the platform cannot join a thread.  The call returns when the send queue
  drains and the wait for the acknowledgement of a TCP peer times out or is answered.
\<close>

theorem close_releases:
  assumes "tidy R" "calm (is_tcp_type (sd_type (c_service c))) W" "closable c"
  shows "case potr_service_close E R W (Some c) of
      Close_refused r \<Rightarrow> False
    | Closed r c' \<Rightarrow> released c'
    | Not_closed r c' \<Rightarrow> r = POTR_ERR_UNKNOWN \<and> api_context_has_threads c' \<and> \<not> joins_ok E
    | Blocked \<Rightarrow> \<not> prompt W"
proof -
  let ?c = "c\<lparr>c_close_requested := True\<rparr>"
  have k: "handles ?c = handles c" "lens ?c = lens c" by (simp_all add: handles_def lens_def)
  have "close_sound E W (potr_service_close E R W (Some c))"
  proof (cases "is_tcp_type (sd_type (c_service c))")
    case True
    then have "tcp_idle c" using assms(3) by (simp add: closable_def tcp_idle_def)
    then have "tcp_idle ?c" using tcp_idle_cong[OF k] by simp
    from close_tcp_sound[OF assms(1) _ this] assms(2) True show ?thesis by (simp add: potr_service_close_def)
  next
    case False
    then have "udp_idle c" using assms(3) by (simp add: closable_def udp_idle_def)
    then have "udp_idle ?c" using udp_idle_cong[OF k] by simp
    from close_udp_sound[OF assms(1) _ this] assms(2) False show ?thesis by (simp add: potr_service_close_def)
  qed
  then show ?thesis by (simp only: close_sound_def)
qed

section \<open>The end of the session is announced\<close>

text \<open>A FIN as it is sealed by both transports: the number in the nonce is zero.\<close>

lemma receive_fin:
  assumes "byteorder_ok E" "crypto_ok E"
    and "sd_encrypt_enabled (c_service c') = sd_encrypt_enabled (c_service c)" "sd_encrypt_key (c_service c') = sd_encrypt_key (c_service c)"
    and "p = (fill_session_hdr E zero_packet sh)\<lparr>seq_num := 0, ack_num := hton32 E n, flags := hton16 E fl, payload_len := 0\<rparr>"
    and "fl = POTR_FLAG_FIN \<or> fl = POTR_FLAG_FIN OR POTR_FLAG_FIN_TARGET_VALID"
    and "q = p\<lparr>flags := flags p OR hton16 E POTR_FLAG_ENCRYPTED, payload_len := hton16 E (of_nat POTR_CRYPTO_TAG_SIZE)\<rparr>"
    and "if sd_encrypt_enabled (c_service c)
         then \<exists>enc. crypto_encrypt E POTR_CRYPTO_TAG_SIZE (sd_encrypt_key (c_service c))
                (mem32 E (session_id q) @ mem16 E (flags q) @ mem32 E 0 @ replicate 2 0) (packet_header_bytes E q) [] = Some enc \<and>
              wire = packet_header_bytes E q @ enc
         else wire = packet_header_bytes E p"
  shows "receive_wire E c' wire = Inr (host_packet sh 0 n fl [])"
proof -
  have z: "hton32 E 0 = 0" "hton16 E 0 = 0" by (simp_all add: hton_zero[OF assms(1)])
  have fl: "fl AND POTR_FLAG_ENCRYPTED = 0" "fl AND (POTR_FLAG_NACK OR POTR_FLAG_REJECT OR POTR_FLAG_FIN_ACK) = 0"
    "fl AND (POTR_FLAG_DATA OR POTR_FLAG_PING) = 0"
    using assms(6) by auto
  show ?thesis
  proof (cases "sd_encrypt_enabled (c_service c)")
    case True
    then obtain enc where e: "crypto_encrypt E POTR_CRYPTO_TAG_SIZE (sd_encrypt_key (c_service c'))
        (mem32 E (session_id q) @ mem16 E (flags q) @ mem32 E (hton32 E 0) @ replicate 2 0) (packet_header_bytes E q) [] = Some enc"
      and w: "wire = packet_header_bytes E q @ enc"
      using assms(8) assms(4) by (auto simp: z)
    have num: "0 = nonce_number (host_packet sh 0 n fl [])"
      unfolding nonce_number_def using fl by (simp add: host_packet_def)
    show ?thesis unfolding w
      by (rule receive_encrypted[OF assms(1,2) _ _ e fl(1) num, where x = "[]"])
        (simp_all add: assms(5,7) z fill_session_hdr_def zero_packet_def)
  next
    case False
    have "wire = packet_wire E p"
      using assms(8) False by (simp add: packet_wire_def assms(5) fill_session_hdr_def zero_packet_def packet_header_bytes_def)
    then show ?thesis
      using receive_plain[OF assms(1) _ _ _ fl(1), where pl = "[]" and sh = sh and seq = 0 and ack = n and p = p and c = c'] False assms(3)
      by (simp add: assms(5) z fill_session_hdr_def zero_packet_def)
  qed
qed

lemma mem32_zero: "byteorder_ok E \<Longrightarrow> mem32 E 0 = replicate 4 0"
proof -
  assume b: "byteorder_ok E"
  then have "mem32 E (hton32 E 0) = be32 0" unfolding byteorder_ok_def by blast
  then show ?thesis using hton_zero[OF b] by (simp add: be32_def numeral_eq_Suc)
qed

definition announced_fin :: "potr_context \<Rightarrow> potr_packet" where
  "announced_fin c =
    (let st = c_slot c
     in if s_send_has_data st
        then host_packet (own_session_hdr c st) 0 (win_next_seq (s_send_window st)) (POTR_FLAG_FIN OR POTR_FLAG_FIN_TARGET_VALID) []
        else host_packet (own_session_hdr c st) 0 0 POTR_FLAG_FIN [])"

lemma fin_wire_received:
  assumes "byteorder_ok E" "crypto_ok E"
    and "sd_encrypt_enabled (c_service c') = sd_encrypt_enabled (c_service c)" "sd_encrypt_key (c_service c') = sd_encrypt_key (c_service c)"
    and "fin_wire E c = Some wire"
  shows "receive_wire E c' wire = Inr (announced_fin c)"
proof -
  define n where "n = (if s_send_has_data (c_slot c) then win_next_seq (s_send_window (c_slot c)) else 0)"
  define fl where "fl = (if s_send_has_data (c_slot c) then POTR_FLAG_FIN OR POTR_FLAG_FIN_TARGET_VALID else POTR_FLAG_FIN)"
  let ?sh = "own_session_hdr c (c_slot c)"
  let ?p = "(fill_session_hdr E zero_packet ?sh)\<lparr>seq_num := 0, ack_num := hton32 E n, flags := hton16 E fl, payload_len := 0\<rparr>"
  let ?q = "?p\<lparr>flags := flags ?p OR hton16 E POTR_FLAG_ENCRYPTED, payload_len := hton16 E (of_nat POTR_CRYPTO_TAG_SIZE)\<rparr>"
  have p: "(if s_send_has_data (c_slot c)
      then (packet_build_fin E ?sh)\<lparr>flags := flags (packet_build_fin E ?sh) OR hton16 E POTR_FLAG_FIN_TARGET_VALID,
              ack_num := hton32 E (win_next_seq (s_send_window (c_slot c)))\<rparr>
      else packet_build_fin E ?sh) = ?p"
    using hton_zero[OF assms(1)] hton16_or[OF assms(1), of POTR_FLAG_FIN POTR_FLAG_FIN_TARGET_VALID]
    by (simp add: packet_build_fin_def n_def fl_def)
  have size: "take (packet_wire_size E ?p) (packet_header_bytes E ?p) = packet_header_bytes E ?p"
    using ntoh_zero(2)[OF assms(1)] by (simp add: packet_wire_size_def packet_header_bytes_def)
  have w: "if sd_encrypt_enabled (c_service c)
         then \<exists>enc. crypto_encrypt E POTR_CRYPTO_TAG_SIZE (sd_encrypt_key (c_service c))
                (mem32 E (session_id ?q) @ mem16 E (flags ?q) @ mem32 E 0 @ replicate 2 0) (packet_header_bytes E ?q) [] = Some enc \<and>
              wire = packet_header_bytes E ?q @ enc
         else wire = packet_header_bytes E ?p"
    using assms(5) unfolding fin_wire_def Let_def p size mem32_zero[OF assms(1)] by (auto split: if_splits)
  have "receive_wire E c' wire = Inr (host_packet ?sh 0 n fl [])"
    by (rule receive_fin[OF assms(1-4) refl _ refl w]) (simp add: fl_def)
  then show ?thesis by (simp add: announced_fin_def n_def fl_def Let_def)
qed

lemma tcp_fin_received:
  assumes "byteorder_ok E" "crypto_ok E"
    and "sd_encrypt_enabled (c_service c') = sd_encrypt_enabled (c_service c)" "sd_encrypt_key (c_service c') = sd_encrypt_key (c_service c)"
    and "send_tcp_fin E c n = (POTR_OK, c1)"
  shows "\<exists>wire. c_trace c1 = c_trace c @ map (\<lambda>i. Io_tcp_send i wire) (filter (\<lambda>i. t_conn_fd (c_tcp c) ! i) [0..<c_n_path c]) \<and>
    receive_wire E c' wire = Inr (host_packet (own_session_hdr c (c_slot c)) 0 n (POTR_FLAG_FIN OR POTR_FLAG_FIN_TARGET_VALID) [])"
proof -
  let ?sh = "own_session_hdr c (c_slot c)" and ?fl = "POTR_FLAG_FIN OR POTR_FLAG_FIN_TARGET_VALID"
  let ?p = "(fill_session_hdr E zero_packet ?sh)\<lparr>seq_num := 0, ack_num := hton32 E n, flags := hton16 E ?fl, payload_len := 0\<rparr>"
  let ?q = "?p\<lparr>flags := flags ?p OR hton16 E POTR_FLAG_ENCRYPTED, payload_len := hton16 E (of_nat POTR_CRYPTO_TAG_SIZE)\<rparr>"
  have p: "(packet_build_fin E ?sh)\<lparr>flags := flags (packet_build_fin E ?sh) OR hton16 E POTR_FLAG_FIN_TARGET_VALID, ack_num := hton32 E n\<rparr> = ?p"
    using hton16_or[OF assms(1), of POTR_FLAG_FIN POTR_FLAG_FIN_TARGET_VALID] by (simp add: packet_build_fin_def)
  have s: "tcp_send_control_packet E c ?p 0 = (POTR_OK, c1)" using assms(5) unfolding send_tcp_fin_def Let_def p .
  let ?fin = "\<lambda>wire. if sd_encrypt_enabled (c_service c)
         then \<exists>enc. crypto_encrypt E POTR_CRYPTO_TAG_SIZE (sd_encrypt_key (c_service c))
                (mem32 E (session_id ?q) @ mem16 E (flags ?q) @ mem32 E 0 @ replicate 2 0) (packet_header_bytes E ?q) [] = Some enc \<and>
              wire = packet_header_bytes E ?q @ enc
         else wire = packet_header_bytes E ?p"
  have z: "hton32 E 0 = 0" using hton_zero[OF assms(1)] by simp
  have sent: "c1 = snd (tcp_send_paths E c wire)"
    if "(let ((attempted, sent_any), c1) = tcp_send_paths E c wire
         in (if sent_any then POTR_OK else if \<not> attempted then POTR_ERR_DISCONNECTED else POTR_ERR_IO, c1)) = (POTR_OK, c1)" for wire
    using that by (auto split: prod.splits)
  obtain wire where w: "?fin wire" and t: "c1 = snd (tcp_send_paths E c wire)"
  proof (cases "sd_encrypt_enabled (c_service c)")
    case True
    obtain enc where e: "crypto_encrypt E POTR_CRYPTO_TAG_SIZE (sd_encrypt_key (c_service c))
        (mem32 E (session_id ?q) @ mem16 E (flags ?q) @ mem32 E (hton32 E 0) @ replicate 2 0) (packet_header_bytes E ?q) [] = Some enc"
      using s True unfolding tcp_send_control_packet_def Let_def by (fastforce split: option.splits)
    have "c1 = snd (tcp_send_paths E c (packet_header_bytes E ?q @ enc))"
      by (rule sent) (use s True in \<open>simp only: tcp_send_control_packet_def Let_def if_True e option.case\<close>)
    then show ?thesis using that[of "packet_header_bytes E ?q @ enc"] True e unfolding z by auto
  next
    case False
    have "c1 = snd (tcp_send_paths E c (packet_header_bytes E ?p))"
      by (rule sent) (use s False in \<open>simp only: tcp_send_control_packet_def Let_def if_False\<close>)
    then show ?thesis using that[of "packet_header_bytes E ?p"] False by simp
  qed
  obtain a b d where f: "tcp_send_paths E c wire = ((a, b), d)" by (metis surj_pair)
  have "receive_wire E c' wire = Inr (host_packet ?sh 0 n ?fl [])"
    by (rule receive_fin[OF assms(1-4) refl _ refl w]) simp
  then show ?thesis using tcp_send_paths_io[OF f] t f by auto
qed

lemma send_fin_io:
  assumes "fin_wire E c = Some wire"
  shows "c_trace (send_fin E c) = c_trace c @
    map (\<lambda>i. Io_sendto i (s_dest_addr (c_slot c) ! i) wire) (filter (\<lambda>i. c_sock c ! i) [0..<c_n_path c])"
proof -
  let ?f = "\<lambda>i c. if \<not> c_sock c ! i then c else snd (socket_sendto E c i (s_dest_addr (c_slot c) ! i) wire)"
  have "c_trace (fold ?f ks d) = c_trace d @ map (\<lambda>i. Io_sendto i (s_dest_addr (c_slot d) ! i) wire) (filter (\<lambda>i. c_sock d ! i) ks)" for ks d
    by (induction ks arbitrary: d) (simp_all add: socket_sendto_def emit_def)
  then show ?thesis by (simp add: send_fin_def assms)
qed

lemma fin_wire_total: "encrypt_total E \<Longrightarrow> \<exists>wire. fin_wire E c = Some wire"
  by (auto simp: fin_wire_def Let_def encrypt_total_def)

text \<open>
  A thread that ends may still act, but what was sent before stays sent, and no thread writes the
  definition of the service.
\<close>

definition keeps_history :: "runtime \<Rightarrow> bool" where
  "keeps_history R \<longleftrightarrow> (\<forall>t c. (\<exists>tr. c_trace (rt_rest R t c) = c_trace c @ tr) \<and> c_service (rt_rest R t c) = c_service c)"

definition extends :: "potr_context \<Rightarrow> potr_context \<Rightarrow> bool" where
  "extends c c' \<longleftrightarrow> (\<exists>tr. c_trace c' = c_trace c @ tr)"

lemma join_extends: "keeps_history R \<Longrightarrow> thread_join E R t c = (b, c') \<Longrightarrow> extends c c'"
proof -
  assume k: "keeps_history R" and j: "thread_join E R t c = (b, c')"
  have "\<exists>tr. c_trace (rt_rest R t (c\<lparr>c_tick := Suc (c_tick c)\<rparr>)) = c_trace (c\<lparr>c_tick := Suc (c_tick c)\<rparr>) @ tr"
    using k unfolding keeps_history_def by blast
  then show ?thesis using j by (auto simp: thread_join_def plat_call_def extends_def split: if_splits)
qed

lemma health_stop_service:
  assumes "keeps_history R"
  shows "c_service (stop_tcp_health_threads E R c) = c_service c"
proof -
  have "c_service (rt_rest R t d) = c_service d" for t d using assms unfolding keeps_history_def by blast
  then have one: "c_service (snd (tcp_health_thread_stop E R d i)) = c_service d" for d i
    by (simp add: tcp_health_thread_stop_def thread_join_def plat_call_def emit_def Let_def)
  have "c_service (fold (\<lambda>i c. if c_health_thread c ! i then snd (tcp_health_thread_stop E R c i) else c) ks c) = c_service c" for ks
    by (induction ks arbitrary: c) (simp_all add: one)
  then show ?thesis by (simp add: stop_tcp_health_threads_def)
qed

lemma shutdown_trace: "c_trace (fold (shutdown_receive R) ks c) = c_trace c"
  by (induction ks arbitrary: c) (simp_all add: shutdown_receive_def)

lemma stop_extends:
  assumes "keeps_history R"
  shows "stop_recv E R c = (r, c') \<Longrightarrow> extends c c'" "extends c (send_thread_stop E R c)"
proof -
  let ?d = "fold (shutdown_receive R) [0..<c_n_path c] (c\<lparr>c_running := (c_running c)[0 := False]\<rparr>)"
  obtain b c1 where j: "thread_join E R (Recv_thread 0) ?d = (b, c1)" by (meson surj_pair)
  have d: "c_trace ?d = c_trace c" by (simp add: shutdown_trace)
  have e: "extends c c1" using join_extends[OF assms j] d by (simp add: extends_def)
  show "extends c c'" if "stop_recv E R c = (r, c')"
    using that e d j by (auto simp: stop_recv_def comm_recv_thread_stop_def extends_def Let_def split: if_splits)
  obtain b' c2 where j': "thread_join E R Send_thread (c\<lparr>c_send_thread_running := False\<rparr>) = (b', c2)" by (meson surj_pair)
  have "extends c c2" using join_extends[OF assms j'] by (simp add: extends_def)
  then show "extends c (send_thread_stop E R c)" using j' by (auto simp: send_thread_stop_def extends_def)
qed

lemma udp_announced:
  assumes "keeps_history R" "c_send_thread c" "finish_udp_session E R W c = Some (r, c')"
  shows "\<exists>c1. close_wait_drained W c = Some c1 \<and> (\<not> c_is_multi_peer c1 \<longrightarrow> extends (send_fin E c1) c')"
proof -
  obtain c1 where c1: "close_wait_drained W c = Some c1" using assms(2,3) by (auto simp: finish_udp_session_def split: option.splits)
  let ?c2 = "if c_is_multi_peer c1 then peer_table_send_fin E c1 else send_fin E c1"
  obtain r3 c3 where r: "stop_recv E R ?c2 = (r3, c3)" by (meson surj_pair)
  have e3: "extends ?c2 c3" by (rule stop_extends(1)[OF assms(1) r])
  have e4: "extends ?c2 (send_thread_stop E R c3)" using e3 stop_extends(2)[OF assms(1), of c3 E] by (auto simp: extends_def)
  have "c' = c3 \<or> c' = send_thread_stop E R c3 \<or> c' = dispose_send_queue (send_thread_stop E R c3)"
    using assms(2,3) c1 r by (auto simp: finish_udp_session_def Let_def split: if_splits)
  then have "extends ?c2 c'" using e3 e4 by (auto simp: extends_def dispose_send_queue_def)
  then show ?thesis using c1 by auto
qed

lemma drained_empty: "close_wait_drained W c = Some c1 \<Longrightarrow> sq_count (c_send_queue c1) = 0 \<and> sq_inflight (c_send_queue c1) = 0"
  by (auto simp: close_wait_drained_def send_queue_wait_drained_def Let_def split: wait.splits if_splits)

text \<open>A TCP session that ended well was acknowledged.\<close>

lemma ack_loop_ok: "close_ack_loop ws c = Some (POTR_OK, c') \<Longrightarrow> \<not> awaits_ack c'"
  by (induction ws c rule: close_ack_loop.induct) (auto split: if_splits condvar_result.splits)

definition acknowledged :: "close_env \<Rightarrow> potr_context \<Rightarrow> bool" where
  "acknowledged W c \<longleftrightarrow> (\<exists>c'. close_ack_loop (ce_wakes W) c = Some (POTR_OK, c') \<and> \<not> awaits_ack c')"

lemma wait_ok:
  assumes "wait_for_tcp_close_ack W c t = Some (POTR_OK, c')" "t \<noteq> 0"
  shows "acknowledged W c"
proof -
  obtain r c1 where l: "close_ack_loop (ce_wakes W) c = Some (r, c1)" "(if awaits_ack c1 then POTR_ERR_TIMEOUT else r) = POTR_OK"
    using assms by (auto simp: wait_for_tcp_close_ack_def split: option.splits)
  then have "r = POTR_OK" by (auto split: if_splits)
  then show ?thesis using l(1) ack_loop_ok unfolding acknowledged_def by blast
qed

lemma tcp_announced:
  assumes "c_send_thread_running c" "finish_tcp_session E R W c = Some (POTR_OK, c')"
  shows "\<exists>c1. close_wait_drained W (stop_tcp_health_threads E R c) = Some c1 \<and>
    (if t_active_paths (c_tcp c1) > 0
     then \<exists>c2. send_tcp_fin E (begin_tcp_close_wait c1 (get_fin_target_seq c1)) (get_fin_target_seq c1) = (POTR_OK, c2) \<and>
            (gc_tcp_close_timeout_ms (c_global c2) \<noteq> 0 \<longrightarrow> acknowledged W c2)
     else \<not> s_send_has_data (c_slot c1))"
proof -
  obtain c1 where c1: "close_wait_drained W (stop_tcp_health_threads E R c) = Some c1"
    using assms by (auto simp: finish_tcp_session_def split: option.splits)
  let ?n = "get_fin_target_seq c1"
  obtain r2 c2 where f: "send_tcp_fin E (begin_tcp_close_wait c1 ?n) ?n = (r2, c2)" by (meson surj_pair)
  show ?thesis using assms c1 f wait_ok[of W c2]
    by (auto simp: finish_tcp_session_def Let_def split: if_splits)
qed

text \<open>Both ends in one lemma each.\<close>

lemma drained_service:
  assumes "close_wait_drained W d = Some c1" "\<forall>d. c_service (ce_drain W d) = c_service d"
  shows "c_service c1 = c_service d"
  using assms by (auto simp: close_wait_drained_def Let_def split: wait.splits)

lemma udp_end:
  assumes "byteorder_ok E" "crypto_ok E" "encrypt_total E" "keeps_history R"
    and "\<forall>d. c_service (ce_drain W d) = c_service d"
    and "sd_encrypt_enabled (c_service rc) = sd_encrypt_enabled (c_service c)" "sd_encrypt_key (c_service rc) = sd_encrypt_key (c_service c)"
    and s: "c_send_thread c" "finish_udp_session E R W c = Some (r, c')"
  shows "\<exists>c1. close_wait_drained W c = Some c1 \<and> sq_count (c_send_queue c1) = 0 \<and> sq_inflight (c_send_queue c1) = 0 \<and>
         (c_is_multi_peer c1 \<or> (\<exists>wire later. receive_wire E rc wire = Inr (announced_fin c1) \<and>
            c_trace c' = c_trace c1 @
              map (\<lambda>i. Io_sendto i (s_dest_addr (c_slot c1) ! i) wire) (filter (\<lambda>i. c_sock c1 ! i) [0..<c_n_path c1]) @ later))"
proof -
  from udp_announced[OF assms(4) s] obtain c1 where c1: "close_wait_drained W c = Some c1"
    and e: "\<not> c_is_multi_peer c1 \<longrightarrow> extends (send_fin E c1) c'" by blast
  obtain wire where w: "fin_wire E c1 = Some wire" using fin_wire_total[OF assms(3)] by blast
  have "receive_wire E rc wire = Inr (announced_fin c1)"
    using fin_wire_received[OF assms(1,2) _ _ w] drained_service[OF c1 assms(5)] assms(6,7) by simp
  moreover have "c_is_multi_peer c1 \<or> (\<exists>later. c_trace c' = c_trace c1 @
      map (\<lambda>i. Io_sendto i (s_dest_addr (c_slot c1) ! i) wire) (filter (\<lambda>i. c_sock c1 ! i) [0..<c_n_path c1]) @ later)"
    using e unfolding extends_def send_fin_io[OF w] append.assoc by blast
  ultimately show ?thesis using c1 drained_empty[OF c1] by blast
qed

lemma tcp_end:
  assumes "byteorder_ok E" "crypto_ok E" "keeps_history R"
    and "\<forall>d. c_service (ce_drain W d) = c_service d"
    and "sd_encrypt_enabled (c_service rc) = sd_encrypt_enabled (c_service c)" "sd_encrypt_key (c_service rc) = sd_encrypt_key (c_service c)"
    and s: "c_send_thread_running c" "finish_tcp_session E R W c = Some (POTR_OK, c')"
  shows "\<exists>c1. close_wait_drained W (stop_tcp_health_threads E R c) = Some c1 \<and>
         sq_count (c_send_queue c1) = 0 \<and> sq_inflight (c_send_queue c1) = 0 \<and>
         (t_active_paths (c_tcp c1) \<le> 0 \<and> \<not> s_send_has_data (c_slot c1) \<or>
          (\<exists>wire c2. receive_wire E rc wire = Inr (host_packet (own_session_hdr c1 (c_slot c1)) 0
                 (win_next_seq (s_send_window (c_slot c1))) (POTR_FLAG_FIN OR POTR_FLAG_FIN_TARGET_VALID) []) \<and>
            c_trace c2 = c_trace c1 @ map (\<lambda>i. Io_tcp_send i wire) (filter (\<lambda>i. t_conn_fd (c_tcp c1) ! i) [0..<c_n_path c1]) \<and>
            (gc_tcp_close_timeout_ms (c_global c2) = 0 \<or> acknowledged W c2)))"
proof -
  from tcp_announced[OF s] obtain c1 where c1: "close_wait_drained W (stop_tcp_health_threads E R c) = Some c1"
    and t: "if t_active_paths (c_tcp c1) > 0
     then \<exists>c2. send_tcp_fin E (begin_tcp_close_wait c1 (get_fin_target_seq c1)) (get_fin_target_seq c1) = (POTR_OK, c2) \<and>
            (gc_tcp_close_timeout_ms (c_global c2) \<noteq> 0 \<longrightarrow> acknowledged W c2)
     else \<not> s_send_has_data (c_slot c1)" by blast
  have svc: "c_service c1 = c_service c" using drained_service[OF c1 assms(4)] health_stop_service[OF assms(3)] by simp
  let ?d = "begin_tcp_close_wait c1 (get_fin_target_seq c1)"
  have d: "c_service ?d = c_service c1" "c_slot ?d = c_slot c1" "c_trace ?d = c_trace c1" "c_n_path ?d = c_n_path c1"
    "t_conn_fd (c_tcp ?d) = t_conn_fd (c_tcp c1)" "own_session_hdr ?d st = own_session_hdr c1 st" for st
    by (simp_all add: begin_tcp_close_wait_def upd_tcp_def own_session_hdr_def)
  show ?thesis
  proof (cases "t_active_paths (c_tcp c1) > 0")
    case True
    then obtain c2 where f: "send_tcp_fin E ?d (get_fin_target_seq c1) = (POTR_OK, c2)"
      and a: "gc_tcp_close_timeout_ms (c_global c2) \<noteq> 0 \<longrightarrow> acknowledged W c2" using t by auto
    from tcp_fin_received[OF assms(1,2) _ _ f, of rc, unfolded d svc] assms(5,6) obtain wire where
      "c_trace c2 = c_trace c1 @ map (\<lambda>i. Io_tcp_send i wire) (filter (\<lambda>i. t_conn_fd (c_tcp c1) ! i) [0..<c_n_path c1])"
      "receive_wire E rc wire = Inr (host_packet (own_session_hdr c1 (c_slot c1)) 0 (get_fin_target_seq c1) (POTR_FLAG_FIN OR POTR_FLAG_FIN_TARGET_VALID) [])"
      by blast
    then show ?thesis using c1 drained_empty[OF c1] a unfolding get_fin_target_seq_def by blast
  next
    case False
    then show ?thesis using t c1 drained_empty[OF c1] by simp
  qed
qed


section \<open>Witnesses\<close>

text \<open>The service of the examples, whose queue is emptied while the call waits.\<close>

definition all_sent :: "potr_internal_send_queue \<Rightarrow> potr_internal_send_queue" where
  "all_sent q = q\<lparr>sq_head := sq_tail q, sq_count := 0, sq_inflight := 0\<rparr>"

definition demo_close_env :: close_env where
  "demo_close_env = \<lparr>ce_drain = (\<lambda>c. c\<lparr>c_send_queue := all_sent (c_send_queue c)\<rparr>), ce_wakes = [(Cv_timeout, \<lambda>c. c)]\<rparr>"

lemma demo_tidy: "tidy demo_runtime"
  by (simp add: tidy_def demo_runtime_def split: thread_id.split)

lemma demo_joins: "joins_ok demo_cplat"
  by (simp add: joins_ok_def demo_cplat_def)

lemma demo_calm: "calm tcp demo_close_env" "prompt demo_close_env"
proof -
  have k: "handles (c\<lparr>c_send_queue := q\<rparr>) = handles c" "lens (c\<lparr>c_send_queue := q\<rparr>) = lens c" for c q
    by (simp_all add: handles_def lens_def)
  show "calm tcp demo_close_env"
    using k idle_beyond_cong[OF k(1)] by (simp add: calm_def calm_step_def demo_close_env_def)
  show "prompt demo_close_env"
    by (simp add: prompt_def demo_close_env_def send_queue_wait_drained_def all_sent_def)
qed

lemma demo_closable: "closable demo_ctx"
proof -
  have "\<not> replicate POTR_MAX_PATH False ! k \<and> \<not> [True, False, False, False] ! k" if "1 \<le> k" "k < POTR_MAX_PATH" for k
  proof -
    from that consider "k = 1" | "k = 2" | "k = 3" by linarith
    then show ?thesis by cases (simp_all add: numeral_eq_Suc)
  qed
  then show ?thesis by (simp add: closable_def lens_def idle_beyond_def demo_ctx_def demo_service_def)
qed

theorem close_releases_witness:
  "\<exists>r c'. potr_service_close demo_cplat demo_runtime demo_close_env (Some demo_ctx) = Closed r c' \<and> released c'"
  using close_releases[OF demo_tidy demo_calm(1) demo_closable, of demo_cplat] demo_joins demo_calm(2)
  by (auto split: close_outcome.splits)


end
