(* ===== verification/Recv_Thread.thy ===== *)
theory Recv_Thread
  imports Context_Inv
begin

text \<open>
  The receive threads of \<^verbatim>\<open>thread/potr_recv_thread.c\<close>.  The UDP thread is a loop around a wait for
  readable sockets; what it does with one datagram of one socket, and with a wait that
  timed out, are the two cases of \<open>recv_step\<close>.  The TCP thread reads one packet at a time;
  \<open>tcp_handle_packet\<close> is what it does with it and \<open>tcp_poll_timeout\<close> what it does when the wait
  timed out.  The result None of an operation stands for the abort in the creation of a peer.
\<close>

unbundle bit_operations_syntax

section \<open>UDP\<close>

definition n1_handle_packet ::
  "cplat \<Rightarrow> potr_context \<Rightarrow> potr_packet \<Rightarrow> bytes \<Rightarrow> cplat_ipv4_endpoint \<Rightarrow> nat \<Rightarrow> potr_context option" where
  "n1_handle_packet E c pkt wire_hdr sender_addr path_idx =
    (case authenticate_packet E c pkt wire_hdr of
       Inl _ \<Rightarrow> Some c
     | Inr pkt \<Rightarrow>
       (let pkt_session_ts = session_ts_from_hdr (session_tv_sec pkt) (session_tv_nsec pkt);
            found =
              (case peer_find_by_session E c (session_id pkt) pkt_session_ts of
                 Some i \<Rightarrow> Some (Some i, c)
               | None \<Rightarrow>
                 (if flags pkt AND POTR_FLAG_PING \<noteq> 0 then
                    (case peer_create E c sender_addr path_idx of
                       (PC_created i, c1) \<Rightarrow>
                         Some (Some i, upd_slot c1 (PeerSlot i) (\<lambda>st. (st\<lparr>s_peer_session_id := session_id pkt,
                           s_peer_session_ts := pkt_session_ts, s_peer_session_known := True\<rparr>)\<lparr>
                           s_recv_window := snd (window_init E (s_recv_window st) (seq_num pkt)
                             (gc_window_size (c_global c)) (gc_max_payload (c_global c)))\<rparr>))
                     | (PC_null, c1) \<Rightarrow> Some (None, c1)
                     | (PC_abort, _) \<Rightarrow> None
                     | (PC_loop, _) \<Rightarrow> None)
                  else Some (None, c)))
        in case found of
             None \<Rightarrow> None
           | Some (None, c1) \<Rightarrow> Some c1
           | Some (Some i, c1) \<Rightarrow>
               (let (should_wake_health, c2) = dispatch_packet E c1 (PeerSlot i) pkt path_idx sender_addr
                in Some (if should_wake_health then health_thread_wake c2 else c2))))"

definition sender_handle_packet :: "cplat \<Rightarrow> potr_context \<Rightarrow> potr_packet \<Rightarrow> bool \<times> potr_context" where
  "sender_handle_packet E c pkt =
    (if is_raw_type (sd_type (c_service c)) then (True, c)
     else (let c1 = window_on_nack E c CtxSlot pkt
           in (sd_type (c_service c1) \<noteq> POTR_TYPE_UNICAST_BIDIR, c1)))"

definition recv_poll_ms :: "potr_context \<Rightarrow> u32" where
  "recv_poll_ms c =
    (let receives = (c_role c = POTR_ROLE_RECEIVER \<or> sd_type (c_service c) = POTR_TYPE_UNICAST_BIDIR);
         poll_ms = (if receives \<and> c_health_timeout_ms c > 0
                    then (if c_health_timeout_ms c div 3 < 100 then 100 else c_health_timeout_ms c div 3) else 500);
         reorder = gc_reorder_timeout_ms (c_global c)
     in if receives \<and> reorder > 0 then (if reorder < poll_ms then reorder else poll_ms) else poll_ms)"

definition recv_idle :: "cplat \<Rightarrow> potr_context \<Rightarrow> potr_context" where
  "recv_idle E c =
    (if c_is_multi_peer c then health_check_peers E c
     else if c_role c = POTR_ROLE_RECEIVER \<or> sd_type (c_service c) = POTR_TYPE_UNICAST_BIDIR then
       (let c1 = health_check_service E c
        in if gc_reorder_timeout_ms (c_global c1) > 0 then window_check_reorder_timeout E c1 CtxSlot else c1)
     else c)"

definition recv_datagram :: "cplat \<Rightarrow> potr_context \<Rightarrow> nat \<Rightarrow> cplat_ipv4_endpoint \<Rightarrow> bytes \<Rightarrow> potr_context option" where
  "recv_datagram E c i sender_addr buf =
    (if \<not> c_sock c ! i \<or> buf = [] then Some c
     else case packet_parse E buf of
       Inl _ \<Rightarrow> Some c
     | Inr pkt \<Rightarrow>
       (if service_id pkt \<noteq> sd_service_id (c_service c) then Some c
        else if \<not> check_src_addr E c sender_addr then Some c
        else if c_is_multi_peer c then
          n1_handle_packet E c pkt (take POTR_PACKET_HEADER_SIZE buf) sender_addr i
        else case authenticate_packet E c pkt (take POTR_PACKET_HEADER_SIZE buf) of
          Inl _ \<Rightarrow> Some c
        | Inr pkt \<Rightarrow>
            (let (consumed, c1) = (if c_role c = POTR_ROLE_SENDER then sender_handle_packet E c pkt else (False, c))
             in if consumed then Some c1
                else Some (snd (dispatch_packet E c1 CtxSlot pkt i sender_addr)))))"

datatype recv_input = Rx_idle | Rx_datagram nat cplat_ipv4_endpoint bytes

fun recv_step :: "cplat \<Rightarrow> potr_context \<Rightarrow> recv_input \<Rightarrow> potr_context option" where
  "recv_step E c Rx_idle = Some (recv_idle E c)"
| "recv_step E c (Rx_datagram i sender_addr buf) = recv_datagram E c i sender_addr buf"

section \<open>TCP\<close>

definition tcp_read_all :: "cplat_result \<Rightarrow> potr_result" where
  "tcp_read_all result =
    (if result = CPLAT_OK then POTR_OK else if result = CPLAT_ERR_EOF then POTR_ERR_EOF else POTR_ERR_IO)"

fun tcp_drain_loop :: "nat \<Rightarrow> cplat \<Rightarrow> potr_context \<Rightarrow> potr_context" where
  "tcp_drain_loop 0 E c = c"
| "tcp_drain_loop (Suc fuel) E c =
    (case window_recv_pop (s_recv_window (c_slot c)) of
       (Inl _, _) \<Rightarrow> c
     | (Inr out, w) \<Rightarrow>
         tcp_drain_loop fuel E (fold (\<lambda>elem c. slot_deliver_payload_elem E c CtxSlot elem) (unpack_all E out 0)
           (set_recv_window c CtxSlot w)))"

definition tcp_handle_fin :: "cplat \<Rightarrow> potr_context \<Rightarrow> potr_packet \<Rightarrow> potr_context" where
  "tcp_handle_fin E c pkt =
    (let (adopted, c1) = session_adopt E c CtxSlot pkt
     in if \<not> adopted then c1
        else (let (action, fin_target_seq, c2) = fin_on_packet c1 CtxSlot pkt
              in case action of
                   THREAD_RECV_FIN_FIRE \<Rightarrow> fin_fire E c2 CtxSlot fin_target_seq
                 | THREAD_RECV_FIN_PENDING \<Rightarrow> c2
                 | THREAD_RECV_FIN_IGNORED \<Rightarrow> c2))"

definition tcp_handle_ping :: "cplat \<Rightarrow> potr_context \<Rightarrow> potr_packet \<Rightarrow> nat \<Rightarrow> potr_context" where
  "tcp_handle_ping E c pkt path_idx =
    (let (now_ms, c1) = clock_get_monotonic_ms E c;
         c2 = c1\<lparr>c_tcp := (c_tcp c1)\<lparr>t_last_ping_recv_ms := (t_last_ping_recv_ms (c_tcp c1))[path_idx := now_ms]\<rparr>\<rparr>;
         (ping_state_changed, states) = set_path_ping_state (s_path_ping_state (c_slot c2)) path_idx POTR_PING_STATE_NORMAL;
         c3 = upd_slot c2 CtxSlot (\<lambda>st. st\<lparr>s_path_ping_state := states\<rparr>);
         c4 = (if unat (payload_len pkt) \<ge> POTR_MAX_PATH \<and> payload pkt \<noteq> []
               then upd_slot c3 CtxSlot (\<lambda>st. st\<lparr>s_remote_path_ping_state :=
                      apply_remote_path_ping_state (s_remote_path_ping_state st) (payload pkt) POTR_MAX_PATH\<rparr>)
               else c3);
         c5 = recv_sync_path_state c4 CtxSlot
     in health_wake_tcp E c5 path_idx ping_state_changed)"

definition tcp_handle_data :: "cplat \<Rightarrow> potr_context \<Rightarrow> potr_packet \<Rightarrow> potr_context" where
  "tcp_handle_data E c pkt =
    (let (adopted, c1) = session_adopt E c CtxSlot pkt
     in if \<not> adopted then c1
        else (let (pushed, w) = window_recv_push (s_recv_window (c_slot c1)) pkt;
                  c2 = set_recv_window c1 CtxSlot w
              in if pushed \<noteq> POTR_OK then c2
                 else (let c3 = tcp_drain_loop (Suc (unat (win_window_size (s_recv_window (c_slot c2))))) E c2
                       in case fin_pending_reached c3 CtxSlot of
                            Some fin_target_seq \<Rightarrow> fin_fire E c3 CtxSlot fin_target_seq
                          | None \<Rightarrow> c3)))"

definition tcp_handle_packet :: "cplat \<Rightarrow> potr_context \<Rightarrow> bytes \<Rightarrow> nat \<Rightarrow> potr_result \<times> potr_context" where
  "tcp_handle_packet E c buf path_idx =
    (case packet_parse E buf of
       Inl _ \<Rightarrow> (POTR_ERR_PROTOCOL, c)
     | Inr pkt \<Rightarrow>
       (POTR_OK,
        if service_id pkt \<noteq> sd_service_id (c_service c) then c
        else case authenticate_packet E c pkt (take POTR_PACKET_HEADER_SIZE buf) of
          Inl _ \<Rightarrow> c
        | Inr pkt \<Rightarrow>
          (if c_role c = POTR_ROLE_RECEIVER \<and> t_accepted_session_known (c_tcp c) \<and>
              (session_id pkt \<noteq> t_accepted_session_id (c_tcp c) \<or>
               timespec_cmp E (session_ts_from_hdr (session_tv_sec pkt) (session_tv_nsec pkt))
                 (t_accepted_session_ts (c_tcp c)) \<noteq> 0) then c
           else if flags pkt AND POTR_FLAG_FIN_ACK \<noteq> 0 then fin_on_ack c (ack_num pkt)
           else if flags pkt AND POTR_FLAG_FIN \<noteq> 0 then tcp_handle_fin E c pkt
           else if flags pkt AND POTR_FLAG_PING \<noteq> 0 then tcp_handle_ping E c pkt path_idx
           else if flags pkt AND POTR_FLAG_DATA \<noteq> 0 then tcp_handle_data E c pkt
           else c)))"

text \<open>A wait for the TCP socket that timed out; the flag tells whether the thread leaves its loop.\<close>

definition tcp_poll_timeout :: "cplat \<Rightarrow> potr_context \<Rightarrow> nat \<Rightarrow> bool \<times> potr_context" where
  "tcp_poll_timeout E c path_idx =
    (let last = t_last_ping_recv_ms (c_tcp c) ! path_idx;
         (now_ms, c1) = clock_get_monotonic_ms E c;
         elapsed = now_ms - last
     in if last > 0 \<and> elapsed > ucast (c_health_timeout_ms c1) then
          (let (ping_state_changed, states) = set_path_ping_state (s_path_ping_state (c_slot c1)) path_idx POTR_PING_STATE_ABNORMAL;
               c2 = upd_slot c1 CtxSlot (\<lambda>st. st\<lparr>s_path_ping_state := states\<rparr>);
               c3 = recv_sync_path_state c2 CtxSlot
           in (True, health_wake_tcp E c3 path_idx ping_state_changed))
        else (False, c1))"

datatype tcp_input = Tcp_timeout nat | Tcp_packet nat bytes

fun tcp_step :: "cplat \<Rightarrow> potr_context \<Rightarrow> tcp_input \<Rightarrow> potr_context option" where
  "tcp_step E c (Tcp_timeout path_idx) = Some (snd (tcp_poll_timeout E c path_idx))"
| "tcp_step E c (Tcp_packet path_idx buf) = Some (snd (tcp_handle_packet E c buf path_idx))"

section \<open>The invariant is kept\<close>

text \<open>A step of the receive path as a whole: the invariant holds again and the settings are as before.\<close>

definition ctx_step :: "potr_context \<Rightarrow> potr_context \<Rightarrow> bool" where
  "ctx_step c c' \<longleftrightarrow> ctx_inv c' \<and> c_global c' = c_global c \<and> c_is_multi_peer c' = c_is_multi_peer c \<and>
     c_callback c' = c_callback c"

lemma ctx_step_refl: "ctx_inv c \<Longrightarrow> ctx_step c c"
  by (simp add: ctx_step_def)

lemma ctx_step_trans: "ctx_step a b \<Longrightarrow> ctx_step b c \<Longrightarrow> ctx_step a c"
  by (simp add: ctx_step_def)

lemma slot_run_frame:
  assumes "ctx_inv c" "slot_live c r" "slot_run r c c'"
  shows "c_global c' = c_global c \<and> c_is_multi_peer c' = c_is_multi_peer c \<and> c_callback c' = c_callback c \<and>
    length (c_peers c') = length (c_peers c)"
proof -
  note ok = slot_live_ok[OF assms(1,2)]
  have loc: "c_global d = c_global c \<and> c_is_multi_peer d = c_is_multi_peer c \<and> c_callback d = c_callback c \<and>
      length (c_peers d) = length (c_peers c)"
    if "local_step r c d" for d
    using local_stepD(1)[OF that ok(1,2)] frame_peers(1)[of c d] by (simp add: ctx_frame_def)
  consider "local_step r c c'" | i c1 where "local_step r c c1" "c' = peer_free c1 i"
    using assms(3) ok unfolding slot_run_def by blast
  then show ?thesis
  proof cases
    case 1 then show ?thesis by (rule loc)
  next
    case 2 show ?thesis using loc[OF 2(1)] unfolding 2(2) peer_free_frame .
  qed
qed

lemma ctx_step_run:
  assumes "ctx_inv c" "slot_live c r" "slot_run r c c'"
  shows "ctx_step c c'"
  using ctx_inv_run[OF assms] slot_run_frame[OF assms] by (simp add: ctx_step_def)

lemmas ctx_step_local = ctx_step_run[OF _ _ slot_run_local]

lemma ctx_step_wake: "ctx_inv c \<Longrightarrow> slot_live c r \<Longrightarrow> ctx_step c (health_thread_wake c)"
  by (rule ctx_step_local[OF _ _ local_step_wake])

lemma wake_eq: "\<exists>xs. health_thread_wake c = c\<lparr>c_trace := c_trace c @ xs\<rparr> \<and> (\<forall>pid. events_of pid xs = [])"
proof (cases "c_health_running c ! 0")
  case True
  then show ?thesis by (intro exI[of _ "[Io_wake_health 0]"]) (simp add: health_thread_wake_def signal_health_thread_def emit_def)
next
  case False
  then show ?thesis by (intro exI[of _ "[]"]) (simp add: health_thread_wake_def signal_health_thread_def)
qed

lemma view_at_trace: "view_at (c\<lparr>c_trace := t\<rparr>) pid = view_at c pid"
  by (simp add: view_at_def peer_find_by_id_def split: option.split)

lemma wake_step:
  assumes "ctx_step c c'"
  shows "ctx_step c (if b then health_thread_wake c' else c')"
proof -
  obtain xs where w: "health_thread_wake c' = c'\<lparr>c_trace := c_trace c' @ xs\<rparr>" "\<forall>pid. events_of pid xs = []" using wake_eq by blast
  have "ctx_inv c'" using assms by (simp add: ctx_step_def)
  then have "ctx_inv (health_thread_wake c')" using w(2) unfolding w(1)
    by (simp add: ctx_inv_def table_inv_def view_at_trace events_of_append)
  then show ?thesis using assms w(1) by (simp add: ctx_step_def)
qed

lemma n1_handle_step:
  assumes "ctx_inv c" "c_is_multi_peer c" "decrypt_shortens E" "length buf \<le> POTR_PACKET_HEADER_SIZE + unat (gc_max_payload (c_global c))"
    "packet_parse E buf = Inr pkt"
  shows "\<exists>c'. n1_handle_packet E c pkt (take POTR_PACKET_HEADER_SIZE buf) sender k = Some c' \<and> ctx_step c c'"
proof (cases "authenticate_packet E c pkt (take POTR_PACKET_HEADER_SIZE buf)")
  case (Inl e)
  then show ?thesis using ctx_step_refl[OF assms(1)] by (simp add: n1_handle_packet_def)
next
  case (Inr q)
  have fits: "pkt_fits (c_global c) q"
    by (rule receive_fits[OF assms(3) _ assms(4), where c = c]) (simp add: receive_wire_def assms(5) Inr)
  let ?ts = "session_ts_from_hdr (session_tv_sec q) (session_tv_nsec q)"
  have disp: "\<exists>c'. (let (w, c2) = dispatch_packet E c1 (PeerSlot i) q k sender in Some (if w then health_thread_wake c2 else c2)) = Some c' \<and> ctx_step c c'"
    if step: "ctx_step c c1" and live: "slot_live c1 (PeerSlot i)" for c1 i
  proof -
    have inv: "ctx_inv c1" and f1: "pkt_fits (c_global c1) q" using step fits by (simp_all add: ctx_step_def)
    obtain w c2 where d: "dispatch_packet E c1 (PeerSlot i) q k sender = (w, c2)" by (meson surj_pair)
    have "ctx_step c1 c2" using ctx_step_run[OF inv live slot_run_dispatch[OF f1 slot_live_ok(3)[OF inv live], of E k sender]] d by simp
    from ctx_step_trans[OF step wake_step[OF this]] show ?thesis using d by simp
  qed
  show ?thesis
  proof (cases "peer_find_by_session E c (session_id q) ?ts")
    case (Some i)
    then have "slot_live c (PeerSlot i)" using assms(2) by (auto simp: peer_find_by_session_def find_peer_Some)
    from disp[OF ctx_step_refl[OF assms(1)] this] show ?thesis by (simp add: n1_handle_packet_def Inr Some)
  next
    case None
    show ?thesis
    proof (cases "flags q AND POTR_FLAG_PING = 0")
      case True
      then show ?thesis using ctx_step_refl[OF assms(1)] by (simp add: n1_handle_packet_def Inr None)
    next
      case False
      obtain res c1 where p: "peer_create E c sender k = (res, c1)" by (meson surj_pair)
      have t: "table_inv c" using assms(1) by (simp add: ctx_inv_def)
      note o = peer_create_outcome[OF t p]
      show ?thesis
      proof (cases res)
        case PC_null
        have "ctx_step c c1" using ctx_inv_create_null[OF assms(1) p[unfolded PC_null]] create_outcome_null[OF o[unfolded PC_null] t]
          by (simp add: ctx_step_def)
        then show ?thesis using False by (simp add: n1_handle_packet_def Inr None p PC_null)
      next
        case (PC_created i)
        note cr = ctx_inv_create[OF assms(1) p[unfolded PC_created]] and cb = create_outcome_created[OF o[unfolded PC_created] t]
        have live: "slot_live c1 (PeerSlot i)" by (rule cr(2)[OF assms(2)])
        let ?f = "\<lambda>st. st\<lparr>s_peer_session_id := session_id q, s_peer_session_ts := ?ts, s_peer_session_known := True\<rparr>"
        let ?c2 = "upd_slot c1 (PeerSlot i) (\<lambda>st. (?f st)\<lparr>s_recv_window := snd (window_init E (s_recv_window st) (seq_num q)
            (gc_window_size (c_global c)) (gc_max_payload (c_global c)))\<rparr>)"
        have l: "local_step (PeerSlot i) c1 ?c2" by (rule local_step_reinit[OF cr(3)]) simp_all
        have "ctx_step c ?c2" using ctx_step_local[OF cr(1) live l] cr(3,4) cb by (simp add: ctx_step_def)
        from disp[OF this ctx_inv_local(2)[OF cr(1) live l]] show ?thesis
          using False by (simp add: n1_handle_packet_def Inr None p PC_created)
      qed (use o in \<open>auto simp: create_outcome_def setup_outcome_def\<close>)
    qed
  qed
qed

lemma check_peers_step:
  assumes "ctx_inv c" "c_is_multi_peer c"
  shows "ctx_step c (health_check_peers E c)"
proof -
  obtain now c1 where k: "clock_get_monotonic E c = (now, c1)" by (meson surj_pair)
  have k1: "c1 = c\<lparr>c_tick := Suc (c_tick c)\<rparr>" using k by (simp add: clock_get_monotonic_def)
  have v: "view_at c1 pid = view_at c pid" for pid by (simp add: k1 view_at_def peer_find_by_id_def split: option.split)
  have "ctx_inv c1" using assms(1) v unfolding ctx_inv_def by (simp add: k1 table_inv_def)
  then have s1: "ctx_step c c1" by (simp add: ctx_step_def k1)
  let ?g = "\<lambda>i (wake, c). let (changed, c') = health_check_peer E now c i in (wake \<or> changed, c')"
  have loop: "ctx_step c0 (snd (fold ?g is (w, c0))) \<and> length (c_peers (snd (fold ?g is (w, c0)))) = length (c_peers c0)"
    if "ctx_inv c0" "c_is_multi_peer c0" "\<forall>i\<in>set is. i < length (c_peers c0)" for "is" w c0
    using that
  proof (induction "is" arbitrary: w c0)
    case (Cons i "is")
    obtain ch c' where h: "health_check_peer E now c0 i = (ch, c')" by (meson surj_pair)
    have st: "ctx_step c0 c' \<and> length (c_peers c') = length (c_peers c0)"
    proof (cases "p_active (c_peers c0 ! i)")
      case False
      then show ?thesis using h ctx_step_refl[OF Cons.prems(1)] by (auto simp: health_check_peer_def)
    next
      case True
      then have live: "slot_live c0 (PeerSlot i)" using Cons.prems by simp
      have run: "slot_run (PeerSlot i) c0 c'" using slot_run_check_peer[of i c0 E now] h by simp
      show ?thesis using ctx_step_run[OF Cons.prems(1) live run] slot_run_frame[OF Cons.prems(1) live run] by simp
    qed
    have "ctx_inv c'" "c_is_multi_peer c'" "\<forall>i\<in>set is. i < length (c_peers c')"
      using st Cons.prems by (auto simp: ctx_step_def)
    from Cons.IH[OF this, of "w \<or> ch"] st show ?case using h by (auto intro: ctx_step_trans)
  qed (simp add: ctx_step_refl)
  obtain w c2 where f: "fold ?g [0..<length (c_peers c1)] (False, c1) = (w, c2)" by (meson surj_pair)
  have "ctx_step c1 c2"
    using loop[of c1 "[0..<length (c_peers c1)]" False] s1 assms(2) f by (simp add: ctx_step_def)
  from wake_step[OF ctx_step_trans[OF s1 this]] s1 show ?thesis
    unfolding health_check_peers_def k prod.case Let_def f[unfolded Let_def] by simp
qed

lemma recv_idle_step:
  assumes "ctx_inv c"
  shows "ctx_step c (recv_idle E c)"
proof (cases "c_is_multi_peer c")
  case True
  then show ?thesis using check_peers_step[OF assms True] by (simp add: recv_idle_def)
next
  case False
  then have live: "slot_live c CtxSlot" by simp
  let ?c1 = "health_check_service E c"
  have l: "local_step CtxSlot c ?c1" by (rule local_step_check_service)
  note s1 = ctx_step_local[OF assms live l] and i1 = ctx_inv_local[OF assms live l]
  have "ctx_step ?c1 (window_check_reorder_timeout E ?c1 CtxSlot)"
    by (rule ctx_step_local[OF i1 local_step_check_timeout[OF slot_live_ok(3)[OF i1]]])
  with s1 show ?thesis using False ctx_step_refl[OF assms] by (auto simp: recv_idle_def Let_def intro: ctx_step_trans)
qed

lemma recv_datagram_step:
  assumes "ctx_inv c" "decrypt_shortens E" "length buf \<le> POTR_PACKET_HEADER_SIZE + unat (gc_max_payload (c_global c))"
  shows "\<exists>c'. recv_datagram E c i sender buf = Some c' \<and> ctx_step c c'"
proof (cases "\<exists>pkt. c_sock c ! i \<and> buf \<noteq> [] \<and> packet_parse E buf = Inr pkt \<and> service_id pkt = sd_service_id (c_service c) \<and> check_src_addr E c sender")
  case False
  then have "recv_datagram E c i sender buf = Some c"
    unfolding recv_datagram_def by (auto split: sum.split)
  then show ?thesis using ctx_step_refl[OF assms(1)] by simp
next
  case True
  then obtain pkt where p: "c_sock c ! i" "buf \<noteq> []" "packet_parse E buf = Inr pkt"
    "service_id pkt = sd_service_id (c_service c)" "check_src_addr E c sender" by blast
  show ?thesis
  proof (cases "c_is_multi_peer c")
    case True
    from n1_handle_step[OF assms(1) True assms(2,3) p(3), of sender i] p True show ?thesis by (simp add: recv_datagram_def)
  next
    case single: False
    then have live: "slot_live c CtxSlot" by simp
    show ?thesis
    proof (cases "authenticate_packet E c pkt (take POTR_PACKET_HEADER_SIZE buf)")
      case (Inl e)
      then show ?thesis using p single ctx_step_refl[OF assms(1)] by (simp add: recv_datagram_def)
    next
      case (Inr q)
      have fits: "pkt_fits (c_global c) q"
        by (rule receive_fits[OF assms(2) _ assms(3), where c = c]) (simp add: receive_wire_def p(3) Inr)
      obtain consumed c1 where s: "(if c_role c = POTR_ROLE_SENDER then sender_handle_packet E c q else (False, c)) = (consumed, c1)"
        by (meson surj_pair)
      have l: "local_step CtxSlot c c1"
        using s local_step_on_nack[of CtxSlot c E q] by (auto simp: sender_handle_packet_def Let_def split: if_splits)
      note i1 = ctx_inv_local[OF assms(1) live l] and s1 = ctx_step_local[OF assms(1) live l]
      have "pkt_fits (c_global c1) q" using s1 fits by (simp add: ctx_step_def)
      from ctx_step_run[OF i1 slot_run_dispatch[OF this slot_live_ok(3)[OF i1], of E i sender]]
      have "ctx_step c (snd (dispatch_packet E c1 CtxSlot q i sender))" by (rule ctx_step_trans[OF s1])
      with s1 show ?thesis using p single Inr s by (auto simp: recv_datagram_def)
    qed
  qed
qed

section \<open>TCP\<close>

lemma local_step_tcp_drain: "local_step CtxSlot c (tcp_drain_loop fuel E c)"
proof (induction fuel arbitrary: c)
  case (Suc fuel)
  obtain a w where p: "window_recv_pop (s_recv_window (c_slot c)) = (a, w)" by (meson surj_pair)
  show ?case
  proof (cases a)
    case (Inr out)
    have "local_step CtxSlot c (set_recv_window c CtxSlot w)"
      by (rule local_step_set_window) (use pop_dims[of "s_recv_window (c_slot c)" out w] p Inr in auto)
    from local_step_trans[OF local_step_trans[OF this local_step_fold[OF local_step_deliver_elem]] Suc.IH]
    show ?thesis using p Inr by simp
  qed (simp add: p)
qed simp

declare tcp_drain_loop.simps(2) [simp del]

lemma slot_run_tcp_fin: "slot_run CtxSlot c (tcp_handle_fin E c pkt)"
proof -
  obtain adopted c1 where a: "session_adopt E c CtxSlot pkt = (adopted, c1)" by (meson surj_pair)
  have s1: "local_step CtxSlot c c1" using local_step_session_adopt[of CtxSlot c E pkt] a by simp
  obtain act t c2 where f: "fin_on_packet c1 CtxSlot pkt = (act, t, c2)" by (rule prod_cases3)
  have s2: "local_step CtxSlot c c2" using local_step_trans[OF s1 local_step_fin_on_packet[of CtxSlot c1 pkt]] f by simp
  show ?thesis unfolding tcp_handle_fin_def a prod.case Let_def f
    using slot_run_local[OF s1] slot_run_local[OF s2] slot_run_seq[OF s2 slot_run_fin_fire]
    by (auto split: fin_action.split simp del: fin_fire.simps)
qed

lemma local_step_set_path:
  assumes "set_path_ping_state (s_path_ping_state (c_slot c)) k x = (b, states)"
  shows "local_step CtxSlot c (upd_slot c CtxSlot (\<lambda>st. st\<lparr>s_path_ping_state := states\<rparr>))"
  by (rule local_step_upd)
    (use assms length_set_path_ping[of "s_path_ping_state (c_slot c)" k x] in \<open>auto simp: slot_inv_lengths intro!: slot_inv_lists\<close>)

lemma local_step_tcp_ping: "local_step CtxSlot c (tcp_handle_ping E c pkt k)"
proof -
  obtain now c1 where n: "clock_get_monotonic_ms E c = (now, c1)" by (meson surj_pair)
  let ?c2 = "c1\<lparr>c_tcp := (c_tcp c1)\<lparr>t_last_ping_recv_ms := (t_last_ping_recv_ms (c_tcp c1))[k := now]\<rparr>\<rparr>"
  have s2: "local_step CtxSlot c ?c2"
    by (rule local_step_trans[OF local_step_clock(2)[OF n] local_step_silent]) (simp_all add: ctx_frame_def)
  obtain ch states where p: "set_path_ping_state (s_path_ping_state (c_slot ?c2)) k POTR_PING_STATE_NORMAL = (ch, states)" by (meson surj_pair)
  let ?c3 = "upd_slot ?c2 CtxSlot (\<lambda>st. st\<lparr>s_path_ping_state := states\<rparr>)"
  have s3: "local_step CtxSlot c ?c3" by (rule local_step_trans[OF s2 local_step_set_path[OF p]])
  let ?c4 = "if unat (payload_len pkt) \<ge> POTR_MAX_PATH \<and> payload pkt \<noteq> []
               then upd_slot ?c3 CtxSlot (\<lambda>st. st\<lparr>s_remote_path_ping_state :=
                      apply_remote_path_ping_state (s_remote_path_ping_state st) (payload pkt) POTR_MAX_PATH\<rparr>) else ?c3"
  have "local_step CtxSlot ?c3 ?c4" by (auto intro!: local_step_upd slot_inv_lists simp: slot_inv_lengths)
  from local_step_trans[OF local_step_trans[OF s3 this] local_step_trans[OF local_step_sync local_step_wake_tcp]]
  show ?thesis unfolding tcp_handle_ping_def n prod.case Let_def p .
qed

lemma local_step_tcp_timeout: "local_step CtxSlot c (snd (tcp_poll_timeout E c k))"
proof -
  obtain now c1 where n: "clock_get_monotonic_ms E c = (now, c1)" by (meson surj_pair)
  obtain ch states where p: "set_path_ping_state (s_path_ping_state (c_slot c1)) k POTR_PING_STATE_ABNORMAL = (ch, states)" by (meson surj_pair)
  note s1 = local_step_clock(2)[OF n, of CtxSlot]
  from local_step_trans[OF local_step_trans[OF s1 local_step_set_path[OF p]] local_step_trans[OF local_step_sync local_step_wake_tcp]]
  show ?thesis unfolding tcp_poll_timeout_def n prod.case Let_def p using s1 by (simp only: snd_conv split: if_split) blast
qed

lemma slot_run_tcp_data:
  assumes "pkt_fits (c_global c) pkt"
  shows "slot_run CtxSlot c (tcp_handle_data E c pkt)"
proof -
  obtain adopted c1 where a: "session_adopt E c CtxSlot pkt = (adopted, c1)" by (meson surj_pair)
  have s1: "local_step CtxSlot c c1" using local_step_session_adopt[of CtxSlot c E pkt] a by simp
  obtain pushed w where p: "window_recv_push (s_recv_window (c_slot c1)) pkt = (pushed, w)" by (meson surj_pair)
  let ?c2 = "set_recv_window c1 CtxSlot w"
  have s2: "local_step CtxSlot c ?c2"
  proof (rule local_step_inv)
    assume ok: "slot_ok c CtxSlot" and inv: "slot_inv (c_global c) (get_slot c CtxSlot)"
    have g: "pkt_fits (c_global c1) pkt" using local_step_global[OF s1 ok inv] assms by simp
    show "local_step CtxSlot c ?c2"
      by (rule local_step_trans[OF s1 local_step_set_window]) (use push_dims[OF _ fits_slot[OF _ g] p] in simp)
  qed
  let ?c3 = "tcp_drain_loop (Suc (unat (win_window_size (s_recv_window (c_slot ?c2))))) E ?c2"
  have s3: "local_step CtxSlot c ?c3" by (rule local_step_trans[OF s2 local_step_tcp_drain])
  show ?thesis unfolding tcp_handle_data_def a prod.case Let_def p
    using slot_run_local[OF s1] slot_run_local[OF s2] slot_run_local[OF s3] slot_run_seq[OF s3 slot_run_fin_fire]
    by (auto split: option.split simp del: fin_fire.simps)
qed

lemma local_step_fin_ack: "local_step r c (fin_on_ack c a)"
  unfolding fin_on_ack_def Let_def by (simp add: local_step_silent ctx_frame_def)

lemma slot_run_tcp_packet:
  assumes "decrypt_shortens E" "length buf \<le> POTR_PACKET_HEADER_SIZE + unat (gc_max_payload (c_global c))"
  shows "slot_run CtxSlot c (snd (tcp_handle_packet E c buf k))"
proof -
  have c: "slot_run CtxSlot c c" by (rule slot_run_local[OF local_step_refl])
  show ?thesis
  proof (cases "packet_parse E buf")
    case (Inl e)
    then show ?thesis using c by (simp add: tcp_handle_packet_def)
  next
    case (Inr pkt)
    show ?thesis
    proof (cases "authenticate_packet E c pkt (take POTR_PACKET_HEADER_SIZE buf)")
      case (Inl e)
      then show ?thesis using c Inr by (simp add: tcp_handle_packet_def)
    next
      case q: (Inr q)
      have "pkt_fits (c_global c) q"
        by (rule receive_fits[OF assms(1) _ assms(2), where c = c]) (simp add: receive_wire_def Inr q)
      note d = slot_run_tcp_data[OF this, of E]
      show ?thesis unfolding tcp_handle_packet_def Inr sum.case q snd_conv
        using c d slot_run_local[OF local_step_fin_ack[of CtxSlot c "ack_num q"]] slot_run_tcp_fin[of c E q]
          slot_run_local[OF local_step_tcp_ping[of c E q k]]
        by (simp only: split: if_split) blast
    qed
  qed
qed

section \<open>Every sequence of inputs\<close>

text \<open>
  The contract of a component that reacts to inputs: with the invariant, every acceptable
  input leads to a state with the invariant, and what is acceptable stays so.  Both receive
  threads are such components.
\<close>

primrec react_all :: "('s \<Rightarrow> 'i \<Rightarrow> 's option) \<Rightarrow> 's \<Rightarrow> 'i list \<Rightarrow> 's option" where
  "react_all step s [] = Some s"
| "react_all step s (x # xs) = (case step s x of None \<Rightarrow> None | Some s' \<Rightarrow> react_all step s' xs)"

locale reactive =
  fixes inv :: "'s \<Rightarrow> bool"
    and ok :: "'s \<Rightarrow> 'i \<Rightarrow> bool"
    and step :: "'s \<Rightarrow> 'i \<Rightarrow> 's option"
  assumes progress: "inv s \<Longrightarrow> ok s x \<Longrightarrow> \<exists>s'. step s x = Some s' \<and> inv s' \<and> ok s' = ok s"
begin

lemma run_total: "inv s \<Longrightarrow> list_all (ok s) xs \<Longrightarrow> \<exists>s'. react_all step s xs = Some s' \<and> inv s'"
proof (induction xs arbitrary: s)
  case (Cons x xs)
  from progress[OF Cons.prems(1), of x] Cons.prems(2) obtain s' where s': "step s x = Some s'" "inv s'" "ok s' = ok s" by auto
  with Cons.IH[OF s'(2)] Cons.prems(2) show ?case by simp
qed simp

end

fun input_ok :: "potr_global_config \<Rightarrow> recv_input \<Rightarrow> bool" where
  "input_ok G Rx_idle = True"
| "input_ok G (Rx_datagram i sender_addr buf) = (length buf \<le> POTR_PACKET_HEADER_SIZE + unat (gc_max_payload G))"

fun tcp_input_ok :: "potr_global_config \<Rightarrow> tcp_input \<Rightarrow> bool" where
  "tcp_input_ok G (Tcp_timeout i) = True"
| "tcp_input_ok G (Tcp_packet i buf) = (length buf \<le> POTR_PACKET_HEADER_SIZE + unat (gc_max_payload G))"

interpretation udp_rx: reactive "\<lambda>c. ctx_inv c \<and> c_callback c = cb \<and> decrypt_shortens E"
  "\<lambda>c. input_ok (c_global c)" "recv_step E" for E cb
proof
  fix c x assume c: "ctx_inv c \<and> c_callback c = cb \<and> decrypt_shortens E" and ok: "input_ok (c_global c) x"
  have "\<exists>c'. recv_step E c x = Some c' \<and> ctx_step c c'"
    using c ok recv_idle_step[of c E] recv_datagram_step[of c E] by (cases x) auto
  then show "\<exists>c'. recv_step E c x = Some c' \<and> (ctx_inv c' \<and> c_callback c' = cb \<and> decrypt_shortens E) \<and> input_ok (c_global c') = input_ok (c_global c)"
    using c by (auto simp: ctx_step_def)
qed

interpretation tcp_rx: reactive "\<lambda>c. ctx_inv c \<and> \<not> c_is_multi_peer c \<and> c_callback c = cb \<and> decrypt_shortens E"
  "\<lambda>c. tcp_input_ok (c_global c)" "tcp_step E" for E cb
proof
  fix c x assume c: "ctx_inv c \<and> \<not> c_is_multi_peer c \<and> c_callback c = cb \<and> decrypt_shortens E" and ok: "tcp_input_ok (c_global c) x"
  then have live: "ctx_inv c" "slot_live c CtxSlot" by simp_all
  have "\<exists>c'. tcp_step E c x = Some c' \<and> ctx_step c c'"
  proof (cases x)
    case (Tcp_timeout k)
    then show ?thesis using ctx_step_local[OF live local_step_tcp_timeout] by simp
  next
    case (Tcp_packet k buf)
    then show ?thesis using ctx_step_run[OF live slot_run_tcp_packet] c ok by simp
  qed
  then show "\<exists>c'. tcp_step E c x = Some c' \<and> (ctx_inv c' \<and> \<not> c_is_multi_peer c' \<and> c_callback c' = cb \<and> decrypt_shortens E) \<and>
      tcp_input_ok (c_global c') = tcp_input_ok (c_global c)"
    using c by (auto simp: ctx_step_def)
qed

section \<open>Properties\<close>

text \<open>
  C1: What the application sees of the UDP receive thread.  From a context that meets the
  invariant, on every sequence of datagrams (valid, corrupt, replayed or forged) and of waits that
  time out, the thread never reaches the abort in peer creation and ends in a context that meets
  the invariant.  For each peer the callbacks form a legal history: a path goes up and down in turn,
  CONNECTED comes when the first path is up and DISCONNECTED when none is, DATA comes only in
  between, and the history ends in the path states stored for the peer.
\<close>

theorem recv_history_legal:
  assumes "ctx_inv c" "c_callback c" "decrypt_shortens E" "list_all (input_ok (c_global c)) inputs"
  shows "\<exists>c'. react_all (recv_step E) c inputs = Some c' \<and> ctx_inv c' \<and>
    (\<forall>pid. view_run view_start (events_of pid (c_trace c')) = Some (view_at c' pid))"
proof -
  from udp_rx.run_total[of c True E inputs] assms obtain c' where
    "react_all (recv_step E) c inputs = Some c'" "ctx_inv c'" "c_callback c'" by auto
  then show ?thesis by (auto simp: ctx_inv_def)
qed

text \<open>
  C33: The same for the TCP receive threads of a service, whose packets and timeouts are
  handled one at a time, in whatever order the paths bring them.
\<close>

theorem tcp_recv_history_legal:
  assumes "ctx_inv c" "\<not> c_is_multi_peer c" "c_callback c" "decrypt_shortens E" "list_all (tcp_input_ok (c_global c)) inputs"
  shows "\<exists>c'. react_all (tcp_step E) c inputs = Some c' \<and> ctx_inv c' \<and>
    (\<forall>pid. view_run view_start (events_of pid (c_trace c')) = Some (view_at c' pid))"
proof -
  from tcp_rx.run_total[of c True E inputs] assms obtain c' where
    "react_all (tcp_step E) c inputs = Some c'" "ctx_inv c'" "c_callback c'" by auto
  then show ?thesis by (auto simp: ctx_inv_def)
qed


lemma demo_ctx_inv: "ctx_inv demo_ctx"
proof -
  have v: "view_at demo_ctx pid = view_start" for pid
    by (simp add: view_at_def peer_find_by_id_def find_peer_def demo_ctx_def slot_zero_def view_of_def view_start_def)
  show ?thesis using demo_ctx_slot(2) v
    by (simp add: ctx_inv_def) (simp add: demo_ctx_def table_inv_def active_ids_def demo_global_def)
qed

definition demo_server :: potr_context where
  "demo_server = demo_n1\<lparr>c_global := demo_global\<lparr>gc_max_payload := 8\<rparr>\<rparr>"

lemma demo_server_inv: "ctx_inv demo_server"
proof -
  have v: "view_at demo_server pid = view_start" for pid
    by (simp add: view_at_def peer_find_by_id_def find_peer_def demo_server_def demo_n1_def demo_ctx_def slot_zero_def
        view_of_def view_start_def peer_zero_def numeral_2_eq_2)
  have "table_inv demo_server" using demo_n1_inv(1) by (simp add: table_inv_def demo_server_def)
  then show ?thesis using v unfolding ctx_inv_def
    by (simp add: demo_server_def demo_n1_def demo_ctx_def demo_global_def demo_service_def peer_zero_def)
qed

lemma demo_decrypt: "decrypt_shortens demo_cplat"
  by (auto simp: decrypt_shortens_def demo_cplat_def split: if_splits)

theorem recv_history_legal_witness:
  "\<exists>wire c'. ping_wire demo_cplat demo_server demo_sh 5 [1, 1, 1, 1] = Some wire \<and>
     react_all (recv_step demo_cplat) demo_server [Rx_datagram 0 demo_ep wire, Rx_datagram 1 demo_ep [9], Rx_idle] = Some c' \<and>
     (\<forall>pid. view_run view_start (events_of pid (c_trace c')) = Some (view_at c' pid))"
proof -
  obtain wire where w: "ping_wire demo_cplat demo_server demo_sh 5 [1, 1, 1, 1] = Some wire" "length wire = 44"
    by (simp add: ping_wire_def demo_server_def demo_n1_def demo_service_def packet_header_bytes_def Let_def)
  have cb: "c_callback demo_server" and ok: "list_all (input_ok (c_global demo_server)) [Rx_datagram 0 demo_ep wire, Rx_datagram 1 demo_ep [9], Rx_idle]"
    using w(2) by (simp_all add: demo_server_def demo_n1_def demo_ctx_def demo_global_def)
  from recv_history_legal[OF demo_server_inv cb demo_decrypt ok] w(1) show ?thesis by blast
qed

theorem tcp_recv_history_legal_witness:
  "\<exists>c'. react_all (tcp_step demo_cplat) demo_ctx [Tcp_packet 0 (packet_wire demo_cplat demo_packet), Tcp_timeout 1] = Some c' \<and>
     (\<forall>pid. view_run view_start (events_of pid (c_trace c')) = Some (view_at c' pid))"
proof -
  have "length (packet_wire demo_cplat demo_packet) = 42" by (simp add: packet_wire_def demo_packet_def packet_header_bytes_def)
  then have "list_all (tcp_input_ok (c_global demo_ctx)) [Tcp_packet 0 (packet_wire demo_cplat demo_packet), Tcp_timeout 1]"
    "\<not> c_is_multi_peer demo_ctx" "c_callback demo_ctx"
    by (simp_all add: demo_ctx_def demo_global_def)
  from tcp_recv_history_legal[OF demo_ctx_inv this(2,3) demo_decrypt this(1)] show ?thesis by blast
qed


end
