(* ===== verification/Peer_Disconnect.thy ===== *)
theory Peer_Disconnect
  imports Service_Close Recv_Thread
begin

text \<open>
  \<^verbatim>\<open>api/potr_peer_disconnect.c\<close>: the application ends the session of one peer of an N:1 service.
  The whole call after the checks is one critical section of the peer table.
\<close>

unbundle bit_operations_syntax

section \<open>Definitions\<close>

definition potr_peer_disconnect :: "cplat \<Rightarrow> potr_context option \<Rightarrow> potr_peer_id \<Rightarrow> potr_result \<times> potr_context option" where
  "potr_peer_disconnect E handle peer_id =
    (case handle of
       None \<Rightarrow> (POTR_ERR_INVALID_ARGUMENT, None)
     | Some c \<Rightarrow>
         if peer_id = POTR_PEER_NA \<or> peer_id = POTR_PEER_ALL then (POTR_ERR_INVALID_ARGUMENT, Some c)
         else if \<not> c_is_multi_peer c then (POTR_ERR_UNSUPPORTED, Some c)
         else case peer_find_by_id c peer_id of
           None \<Rightarrow> (POTR_ERR_NOT_FOUND, Some c)
         | Some i \<Rightarrow>
             (let c1 = peer_send_fin E c i;
                  (p, prepared) = sync_peer_path_state_locked (c_peers c1 ! i) zero_path_states;
                  c2 = emit_peer_path_events_locked (c1\<lparr>c_peers := (c_peers c1)[i := p]\<rparr>) p prepared
              in (POTR_OK, Some (peer_free c2 i))))"

section \<open>The peer is gone\<close>

text \<open>The FIN of a peer is the FIN of a service whose session is that of the peer.\<close>

lemma peer_fin_eq:
  "peer_send_fin E c i = (case fin_wire E (c\<lparr>c_slot := p_slot (c_peers c ! i)\<rparr>) of
     None \<Rightarrow> c | Some wire \<Rightarrow> peer_send_paths E c (p_slot (c_peers c ! i)) wire)"
proof -
  have u: "own_session_hdr (c\<lparr>c_slot := st\<rparr>) st' = own_session_hdr c st'" "c_slot (c\<lparr>c_slot := st\<rparr>) = st"
    "c_service (c\<lparr>c_slot := st\<rparr>) = c_service c" for st st' by (simp_all add: own_session_hdr_def)
  show ?thesis
    by (cases "sd_encrypt_enabled (c_service c)")
      (simp_all only: peer_send_fin_def fin_wire_def Let_def u if_True if_False option.case case_map_option comp_def)
qed

lemma peer_paths_io:
  "c_trace (peer_send_paths E c st wire) = c_trace c @ map (\<lambda>k. Io_sendto k (s_dest_addr st ! k) wire)
     (filter (\<lambda>k. \<not> endpoint_is_unset (s_dest_addr st ! k) \<and> c_sock c ! k) [0..<POTR_MAX_PATH])"
proof -
  let ?f = "\<lambda>k c. if endpoint_is_unset (s_dest_addr st ! k) then c else if \<not> c_sock c ! k then c
      else snd (socket_sendto E c k (s_dest_addr st ! k) wire)"
  have "c_trace (fold ?f ks d) = c_trace d @ map (\<lambda>k. Io_sendto k (s_dest_addr st ! k) wire)
      (filter (\<lambda>k. \<not> endpoint_is_unset (s_dest_addr st ! k) \<and> c_sock d ! k) ks)" for ks d
    by (induction ks arbitrary: d) (simp_all add: socket_sendto_def emit_def)
  then show ?thesis by (simp add: peer_send_paths_def)
qed

lemma local_step_peer_fin: "local_step r c (peer_send_fin E c i)"
proof -
  have "local_step r c (peer_send_paths E c st w)" for st w
    unfolding peer_send_paths_def by (rule local_step_fold) (simp add: local_step_sendto)
  then show ?thesis unfolding peer_fin_eq by (simp split: option.split)
qed

lemma disconnect_eq:
  assumes "c_is_multi_peer c" "pid \<noteq> POTR_PEER_NA" "pid \<noteq> POTR_PEER_ALL" "peer_find_by_id c pid = Some i"
  shows "potr_peer_disconnect E (Some c) pid = (POTR_OK, Some (peer_free (recv_disconnect_peer_all_paths (peer_send_fin E c i) i) i))"
  using assms by (simp add: potr_peer_disconnect_def recv_disconnect_peer_all_paths_def Let_def split: prod.split)

lemma peer_free_lookup:
  assumes "table_inv c" "peer_holds c j q"
  shows "peer_find_by_id (peer_free c j) pid = (if pid = q then None else peer_find_by_id c pid)"
proof -
  have j: "j < length (c_peers c)" using assms(2) by (simp add: peer_holds_def)
  note inv' = peer_free_inv[OF assms(1) j]
  have "peer_holds (peer_free c j) m pid = (pid \<noteq> q \<and> peer_holds c m pid)" for m
    using assms pt.holds_unique[OF assms(1), of j q m] peer_free_inactive[OF j] by (cases "m = j") (auto simp: peer_holds_def)
  then show ?thesis using pt.lookup_None[OF inv'] pt.lookup_preserved[OF assms(1) inv', of pid] by auto
qed

text \<open>The steps of a successful call.\<close>

lemma disconnect_steps:
  assumes "ctx_inv c" "slot_live c (PeerSlot i)" "pid = p_peer_id (c_peers c ! i)"
    and d_def: "d = peer_send_fin E c i" and c'_def: "c' = peer_free (recv_disconnect_peer_all_paths d i) i"
  shows "ctx_inv c'" "peer_find_by_id c' q = (if q = pid then None else peer_find_by_id c q)" "c_callback c' = c_callback c"
    and "\<exists>evs. c_trace c' = c_trace d @ evs \<and> (\<forall>q. q \<noteq> pid \<longrightarrow> events_of q evs = [])"
proof -
  let ?r = "PeerSlot i" and ?e = "recv_disconnect_peer_all_paths d i"
  have l1: "local_step ?r c d" unfolding d_def by (rule local_step_peer_fin)
  have l2: "local_step ?r d ?e" by (rule local_step_disconnect_peer)
  note d1 = ctx_inv_local[OF assms(1,2) l1]
  note e1 = ctx_inv_local[OF d1 l2]
  note ok = slot_live_ok[OF assms(1,2)] and okd = slot_live_ok[OF d1]
  have v: "view_of (get_slot ?e ?r) = view_start" using disconnect_view(1)[OF okd(1,2)] by simp
  show "ctx_inv c'" unfolding c'_def by (rule ctx_inv_free[OF e1]) (use v in simp)
  have f: "ctx_frame c ?e" using ctx_frame_trans[OF local_stepD(1)[OF l1 ok(1,2)] local_stepD(1)[OF l2 okd(1,2)]] .
  have t: "table_inv c" "table_inv ?e" using assms(1) e1(1) by (simp_all add: ctx_inv_def)
  have h: "peer_holds ?e i pid" using frame_peers(4)[OF f] assms(2,3) by (simp add: peer_holds_def)
  have "peer_find_by_id ?e q = peer_find_by_id c q" by (rule pt.lookup_preserved[OF t frame_peers(4)[OF f]])
  then show "peer_find_by_id c' q = (if q = pid then None else peer_find_by_id c q)"
    unfolding c'_def by (simp add: peer_free_lookup[OF t(2) h])
  show "c_callback c' = c_callback c" using f by (simp add: c'_def ctx_frame_def)
  have "slot_peer_id d ?r = pid" using ctx_frame_peer_id[OF local_stepD(1)[OF l1 ok(1,2)], of ?r] ok(1) assms(3) by simp
  then show "\<exists>evs. c_trace c' = c_trace d @ evs \<and> (\<forall>q. q \<noteq> pid \<longrightarrow> events_of q evs = [])"
    using local_stepD(4)[OF l2 okd(1,2)] unfolding trace_step_def c'_def by auto
qed

text \<open>
  C13: Disconnecting a peer.  A call that names a connected peer succeeds: the peer is sent one
  and the same FIN on each of its paths, which it reads as the end of this session; the
  application sees the connection of this peer closed, and of no other; afterwards the identifier
  is unknown, every other one is found where it was, and the invariant of the service holds.  Any
  other call is refused with its reason and changes nothing.
\<close>

theorem peer_disconnect_ends_session:
  assumes "ctx_inv c" "byteorder_ok E" "crypto_ok E" "encrypt_total E"
    and "sd_encrypt_enabled (c_service rc) = sd_encrypt_enabled (c_service c)" "sd_encrypt_key (c_service rc) = sd_encrypt_key (c_service c)"
    and "potr_peer_disconnect E (Some c) pid = (r, Some c')"
  shows "case (if pid = POTR_PEER_NA \<or> pid = POTR_PEER_ALL \<or> \<not> c_is_multi_peer c then None else peer_find_by_id c pid) of
      None \<Rightarrow> c' = c \<and> r = (if pid = POTR_PEER_NA \<or> pid = POTR_PEER_ALL then POTR_ERR_INVALID_ARGUMENT
                          else if \<not> c_is_multi_peer c then POTR_ERR_UNSUPPORTED else POTR_ERR_NOT_FOUND)
    | Some i \<Rightarrow> r = POTR_OK \<and> ctx_inv c' \<and>
        (\<forall>q. peer_find_by_id c' q = (if q = pid then None else peer_find_by_id c q)) \<and>
        (\<exists>wire evs. receive_wire E rc wire = Inr (announced_fin (c\<lparr>c_slot := p_slot (c_peers c ! i)\<rparr>)) \<and>
           c_trace c' = c_trace c @ map (\<lambda>k. Io_sendto k (s_dest_addr (p_slot (c_peers c ! i)) ! k) wire)
             (filter (\<lambda>k. \<not> endpoint_is_unset (s_dest_addr (p_slot (c_peers c ! i)) ! k) \<and> c_sock c ! k) [0..<POTR_MAX_PATH]) @ evs \<and>
           (\<forall>q. q \<noteq> pid \<longrightarrow> events_of q evs = [])) \<and>
        (c_callback c \<longrightarrow> view_run view_start (events_of pid (c_trace c')) = Some view_start)"
proof (cases "if pid = POTR_PEER_NA \<or> pid = POTR_PEER_ALL \<or> \<not> c_is_multi_peer c then None else peer_find_by_id c pid")
  case None
  then show ?thesis using assms(7) by (auto simp: potr_peer_disconnect_def split: if_splits)
next
  case (Some i)
  then have m: "c_is_multi_peer c" "pid \<noteq> POTR_PEER_NA" "pid \<noteq> POTR_PEER_ALL" and i: "peer_find_by_id c pid = Some i"
    by (auto split: if_splits)
  have t: "table_inv c" using assms(1) by (simp add: ctx_inv_def)
  have h: "peer_holds c i pid" using pt.lookup_iff[OF t] i by simp
  have live: "slot_live c (PeerSlot i)" using h m(1) by (simp add: peer_holds_def)
  note D = disconnect_steps[OF assms(1) live _ refl refl, of pid E]
  have pid: "pid = p_peer_id (c_peers c ! i)" using h by (simp add: peer_holds_def)
  have c': "r = POTR_OK" "c' = peer_free (recv_disconnect_peer_all_paths (peer_send_fin E c i) i) i"
    using assms(7) disconnect_eq[OF m i, of E] by simp_all
  let ?st = "p_slot (c_peers c ! i)"
  obtain wire where w: "fin_wire E (c\<lparr>c_slot := ?st\<rparr>) = Some wire" using fin_wire_total[OF assms(4)] by blast
  have rx: "receive_wire E rc wire = Inr (announced_fin (c\<lparr>c_slot := ?st\<rparr>))"
    by (rule fin_wire_received[OF assms(2,3) _ _ w]) (use assms(5,6) in simp_all)
  have tr: "c_trace (peer_send_fin E c i) = c_trace c @ map (\<lambda>k. Io_sendto k (s_dest_addr ?st ! k) wire)
      (filter (\<lambda>k. \<not> endpoint_is_unset (s_dest_addr ?st ! k) \<and> c_sock c ! k) [0..<POTR_MAX_PATH])"
    unfolding peer_fin_eq w option.case by (rule peer_paths_io)
  have inv: "ctx_inv c'" and find: "peer_find_by_id c' q = (if q = pid then None else peer_find_by_id c q)"
    and cb: "c_callback c' = c_callback c" for q
    using D(1-3)[OF pid] unfolding c' by simp_all
  obtain evs where evs: "c_trace c' = c_trace (peer_send_fin E c i) @ evs" "\<forall>q. q \<noteq> pid \<longrightarrow> events_of q evs = []"
    using D(4)[OF pid] unfolding c' by blast
  have view: "view_run view_start (events_of pid (c_trace c')) = Some view_start" if "c_callback c"
  proof -
    have "view_at c' pid = view_start" using find[of pid] m(2) by (simp add: view_at_def)
    then show ?thesis using inv that cb unfolding ctx_inv_def by metis
  qed
  show ?thesis unfolding Some option.case
    using c'(1) inv find rx evs view unfolding tr append.assoc by blast
qed

section \<open>Witness\<close>

definition demo_party :: potr_context where
  "demo_party = snd (peer_create demo_cplat demo_server demo_ep 1)"

theorem peer_disconnect_ends_session_witness:
  "\<exists>pid c'. peer_find_by_id demo_party pid = Some 0 \<and> potr_peer_disconnect demo_cplat (Some demo_party) pid = (POTR_OK, Some c') \<and>
     peer_find_by_id c' pid = None \<and> ctx_inv c'"
proof -
  have "fst (peer_create demo_cplat demo_server demo_ep 1) = PC_created 0" by code_simp
  then have c: "peer_create demo_cplat demo_server demo_ep 1 = (PC_created 0, demo_party)" by (simp add: demo_party_def prod_eq_iff)
  note cr = ctx_inv_create[OF demo_server_inv c]
  have m: "c_is_multi_peer demo_server" by (simp add: demo_server_def demo_n1_def)
  let ?pid = "p_peer_id (c_peers demo_party ! 0)"
  have live: "slot_live demo_party (PeerSlot 0)" by (rule cr(2)[OF m])
  have t: "table_inv demo_party" using cr(1) by (simp add: ctx_inv_def)
  have f: "peer_find_by_id demo_party ?pid = Some 0" using pt.lookup_iff[OF t] live by (simp add: peer_holds_def)
  have n: "?pid \<noteq> POTR_PEER_NA \<and> ?pid \<noteq> POTR_PEER_ALL \<and> c_is_multi_peer demo_party"
    using live t f by (auto simp: table_inv_def active_ids_def)
  obtain r c' where d: "potr_peer_disconnect demo_cplat (Some demo_party) ?pid = (r, Some c')"
    using disconnect_eq[of demo_party ?pid 0 demo_cplat] n f by blast
  show ?thesis
    using peer_disconnect_ends_session[OF cr(1) demo_byteorder demo_crypto demo_encrypt refl refl d] n f d by auto
qed

end
