(* ===== verification/Connect_Thread.thy ===== *)
theory Connect_Thread
  imports Connect_Prepare Peer_Disconnect
begin

text \<open>
  The connection threads of a TCP service (\<^verbatim>\<open>thread/potr_connect_thread.c\<close> and
  \<^verbatim>\<open>potr_connected_threads.c\<close>).  Each path has a thread that connects or accepts, starts the threads
  of the connection, waits for its end and cleans up.

  The operations are functions on the context.  The loops of the threads are steps on the context
  and a program counter for each path; a step is one critical section, so that steps of different
  paths, of the receive threads and of a thread that closes the service interleave in any order.
\<close>

unbundle bit_operations_syntax

section \<open>Operations\<close>

definition sync_tcp_service_path_state_locked :: "potr_context \<Rightarrow> potr_context" where
  "sync_tcp_service_path_state_locked c =
    (let (c1, prepared) = sync_service_path_state_locked c (copy_tcp_path_states c)
     in emit_service_path_events_locked c1 prepared)"

definition set_tcp_path_ping_state :: "nat \<Rightarrow> u8 \<Rightarrow> potr_context \<Rightarrow> potr_context" where
  "set_tcp_path_ping_state i next_state c =
    (if s_path_ping_state (c_slot c) ! i = next_state then c
     else tcp_health_thread_wake_all
       (upd_slot c CtxSlot (\<lambda>st. st\<lparr>s_path_ping_state := (s_path_ping_state st)[i := next_state]\<rparr>)))"

definition join_recv_thread :: "cplat \<Rightarrow> runtime \<Rightarrow> nat \<Rightarrow> potr_context \<Rightarrow> potr_context" where
  "join_recv_thread E R i c =
    (if \<not> c_recv_thread c ! i then c
     else (let (joined, c1) = thread_join E R (Recv_thread i) c
           in if joined then c1\<lparr>c_recv_thread := (c_recv_thread c1)[i := False]\<rparr> else c1))"

definition clear_connection :: "slot_state \<Rightarrow> slot_state" where
  "clear_connection st =
    st\<lparr>s_peer_session_known := False, s_frag_buf := [], s_frag_compressed := False, s_pending_fin := False\<rparr>"

definition reset_connection_state :: "potr_context \<Rightarrow> potr_context" where
  "reset_connection_state c = upd_slot c CtxSlot clear_connection"

definition restart_send_window :: "potr_internal_window \<Rightarrow> potr_internal_window" where
  "restart_send_window w =
    w\<lparr>win_next_seq := 0, win_base_seq := 0, win_base_index := 0,
      win_valid := map_option (\<lambda>v. replicate (unat (win_window_size w)) False @ drop (unat (win_window_size w)) v) (win_valid w)\<rparr>"

definition reset_all_paths_disconnected :: "potr_context \<Rightarrow> potr_context" where
  "reset_all_paths_disconnected c =
    (if t_active_paths (c_tcp c) \<noteq> 0 then c
     else upd_tcp (\<lambda>t. t\<lparr>t_accepted_session_known := False\<rparr>)
       (upd_slot c CtxSlot (\<lambda>st. (clear_connection st)
          \<lparr>s_send_window := restart_send_window (s_send_window st), s_send_has_data := False,
           s_remote_path_ping_state := replicate POTR_MAX_PATH 0,
           s_path_logical_alive := zero_path_states, s_health_alive := False\<rparr>)))"

text \<open>
  The threads of a connection.  The receive thread may act as soon as it is started: \<open>others\<close> is
  what happens before the first PING and between it and the start of the health thread.
\<close>

definition start_connected_threads ::
  "cplat \<Rightarrow> runtime \<Rightarrow> (nat \<Rightarrow> potr_context \<Rightarrow> potr_context) \<Rightarrow> potr_context \<Rightarrow> nat \<Rightarrow> potr_result \<times> potr_context" where
  "start_connected_threads E R others c i =
    (let is_bidir = (sd_type (c_service c) = POTR_TYPE_TCP_BIDIR); is_sender = (c_role c = POTR_ROLE_SENDER);
         starts_send = ((is_sender \<or> is_bidir) \<and> i = 0 \<and> \<not> c_send_thread_running c);
         undo = (\<lambda>c. if starts_send then send_thread_stop E R c else c);
         abandon = (\<lambda>c. undo (join_recv_thread E R i (close_tcp_conn i (c\<lparr>c_running := (c_running c)[i := False]\<rparr>))));
         (r, c1) = (if starts_send then send_thread_start E c else (POTR_OK, c))
     in if r \<noteq> POTR_OK then (r, c1)
        else
    (let (r, c2) = tcp_recv_thread_start E (set_tcp_path_ping_state i POTR_PING_STATE_UNDEFINED c1) i
     in if r \<noteq> POTR_OK then (r, undo (close_tcp_conn i c2))
        else
    (let (r, c3) = tcp_send_ping_now E (others 0 c2) i
     in if r \<noteq> POTR_OK then (r, abandon c3)
        else
    (let (r, c4) = tcp_health_thread_start E (others 1 c3) i
     in if r \<noteq> POTR_OK then (r, abandon c4) else (POTR_OK, c4)))))"

definition stop_connected_threads :: "cplat \<Rightarrow> runtime \<Rightarrow> nat \<Rightarrow> potr_context \<Rightarrow> potr_context" where
  "stop_connected_threads E R i c = snd (tcp_health_thread_stop E R (close_tcp_conn i c) i)"

text \<open>A connection becomes visible to the other threads.\<close>

definition publish_connection :: "cplat \<Rightarrow> nat \<Rightarrow> potr_context \<Rightarrow> potr_context" where
  "publish_connection E i c =
    (let (now_ms, c1) = clock_get_monotonic_ms E c
     in upd_tcp (\<lambda>t. t\<lparr>t_conn_fd := (t_conn_fd t)[i := True], t_last_ping_recv_ms := (t_last_ping_recv_ms t)[i := now_ms]\<rparr>) c1)"

definition add_active_paths :: "int \<Rightarrow> potr_context \<Rightarrow> potr_context" where
  "add_active_paths n c = upd_tcp (\<lambda>t. t\<lparr>t_active_paths := t_active_paths t + n\<rparr>) c"

definition sender_publish :: "cplat \<Rightarrow> nat \<Rightarrow> potr_context \<Rightarrow> potr_context" where
  "sender_publish E i c =
    (let c1 = add_active_paths 1 c
     in publish_connection E i (if t_active_paths (c_tcp c1) = 1 then reset_connection_state c1 else c1))"

definition kick_path :: "nat \<Rightarrow> potr_context \<Rightarrow> potr_context" where
  "kick_path k c =
    (if t_conn_fd (c_tcp c) ! k then close_tcp_conn k (c\<lparr>c_running := (c_running c)[k := False]\<rparr>) else c)"

definition first_pkt_timeout_ms :: "potr_context \<Rightarrow> u32" where
  "first_pkt_timeout_ms c =
    (if gc_tcp_health_timeout_ms (c_global c) > 0 then gc_tcp_health_timeout_ms (c_global c) * 3 else 30000)"

text \<open>The first packet of an accepted connection decides; None is a connection that is closed again.\<close>

definition accept_session :: "cplat \<Rightarrow> nat \<Rightarrow> bytes \<Rightarrow> potr_context \<Rightarrow> potr_context option" where
  "accept_session E i buf c =
    (case packet_parse E buf of
       Inl _ \<Rightarrow> None
     | Inr pkt \<Rightarrow>
         if service_id pkt \<noteq> sd_service_id (c_service c) then None
         else case authenticate_packet E c pkt (take POTR_PACKET_HEADER_SIZE buf) of
           Inl _ \<Rightarrow> None
         | Inr pkt \<Rightarrow>
             (case session_compare E c pkt of
                TCP_SESSION_OLD \<Rightarrow> None
              | cmp \<Rightarrow>
                  (let c1 = (if cmp = TCP_SESSION_NEW
                             then upd_tcp (\<lambda>t. t\<lparr>t_accepted_session_id := session_id pkt,
                                    t_accepted_session_ts := session_ts_from_hdr (session_tv_sec pkt) (session_tv_nsec pkt),
                                    t_accepted_session_known := True\<rparr>)
                                  (reset_connection_state (fold (\<lambda>k c. if k = i then c else kick_path k c) [0..<c_n_path c] c))
                             else c)
                   in Some (upd_tcp (\<lambda>t. t\<lparr>t_first_pkt_buf := (t_first_pkt_buf t)[i := buf]\<rparr>)
                        (publish_connection E i (add_active_paths 1 c1))))))"

definition accept_connection ::
  "cplat \<Rightarrow> nat \<Rightarrow> cplat_ipv4_endpoint \<Rightarrow> cplat_cause + bool \<Rightarrow> recv_all_fun \<Rightarrow> potr_context \<Rightarrow> potr_context option" where
  "accept_connection E i peer_addr readable recv_all c =
    (if \<not> peer_allowed E c i peer_addr then None
     else (let (r, buf) = read_first_packet E readable recv_all (POTR_PACKET_HEADER_SIZE + unat (gc_max_payload (c_global c)))
           in if r \<noteq> POTR_OK then None else accept_session E i buf c))"

definition drop_first_pkt :: "nat \<Rightarrow> potr_context \<Rightarrow> potr_context" where
  "drop_first_pkt i c = upd_tcp (\<lambda>t. t\<lparr>t_first_pkt_buf := (t_first_pkt_buf t)[i := []]\<rparr>) c"

definition end_connection :: "nat \<Rightarrow> potr_context \<Rightarrow> potr_context" where
  "end_connection i c =
    (let c1 = sync_tcp_service_path_state_locked (set_tcp_path_ping_state i POTR_PING_STATE_UNDEFINED c)
     in if c_role c = POTR_ROLE_RECEIVER then drop_first_pkt i c1 else c1)"

section \<open>The loops\<close>

datatype conn_pc = Connecting | Starting | Joining | Stopping | Syncing | Releasing | Resetting | Failed | Pausing | Ended

type_synonym conn_state = "potr_context \<times> conn_pc list"

definition conn_running :: "potr_context \<Rightarrow> nat \<Rightarrow> bool" where
  "conn_running c i = t_connect_thread_running (c_tcp c) ! i"

text \<open>Where a loop continues after a connection.\<close>

definition after_connection :: "potr_context \<Rightarrow> nat \<Rightarrow> conn_pc" where
  "after_connection c i =
    (if c_role c = POTR_ROLE_RECEIVER then Connecting
     else if \<not> conn_running c i \<or> sd_reconnect_interval_ms (c_service c) = 0 then Ended else Pausing)"

definition after_failed_start :: "nat \<Rightarrow> potr_context \<Rightarrow> potr_context" where
  "after_failed_start i c = (if c_role c = POTR_ROLE_RECEIVER then close_tcp_conn i (drop_first_pkt i c) else c)"

definition rx_run :: "cplat \<Rightarrow> tcp_input list \<Rightarrow> potr_context \<Rightarrow> potr_context" where
  "rx_run E xs c = (case react_all (tcp_step E) c xs of Some c' \<Rightarrow> c' | None \<Rightarrow> c)"

inductive conn_step :: "cplat \<Rightarrow> runtime \<Rightarrow> conn_state \<Rightarrow> conn_state \<Rightarrow> bool" for E R where
  connected: "conn_step E R (c, pc) (sender_publish E i c', pc[i := Starting])"
    if "i < c_n_path c" "c_role c = POTR_ROLE_SENDER" "pc ! i = Connecting" "conn_running c i"
      "thread_connect_with_timeout E run c i = (True, c')"
| not_connected: "conn_step E R (c, pc) (c', pc[i := after_connection c' i])"
    if "i < c_n_path c" "c_role c = POTR_ROLE_SENDER" "pc ! i = Connecting" "conn_running c i"
      "thread_connect_with_timeout E run c i = (False, c')"
| accepted: "conn_step E R (c, pc) (c', pc[i := Starting])"
    if "i < c_n_path c" "c_role c = POTR_ROLE_RECEIVER" "pc ! i = Connecting" "conn_running c i"
      "accept_connection E i peer_addr readable recv_all c = Some c'"
| loop_ends: "conn_step E R (c, pc) (c, pc[i := Ended])"
    if "i < c_n_path c" "pc ! i = Connecting" "\<not> conn_running c i"
| started: "conn_step E R (c, pc) (c', pc[i := Joining])"
    if "i < c_n_path c" "pc ! i = Starting" "start_connected_threads E R (\<lambda>k. rx_run E (inputs k)) c i = (POTR_OK, c')"
      "\<And>k. list_all (tcp_input_ok (c_global c)) (inputs k)"
| joined: "conn_step E R (c, pc) (join_recv_thread E R i c, pc[i := Stopping])"
    if "i < c_n_path c" "pc ! i = Joining"
| stopped: "conn_step E R (c, pc) (stop_connected_threads E R i c, pc[i := Syncing])"
    if "i < c_n_path c" "pc ! i = Stopping"
| synced: "conn_step E R (c, pc) (end_connection i c, pc[i := Releasing])"
    if "i < c_n_path c" "pc ! i = Syncing"
| released: "conn_step E R (c, pc) (c', pc[i := if t_active_paths (c_tcp c') = 0 then Resetting else after_connection c' i])"
    if "i < c_n_path c" "pc ! i = Releasing" "c' = add_active_paths (- 1) c"
| reset: "conn_step E R (c, pc) (reset_all_paths_disconnected c, pc[i := after_connection c i])"
    if "i < c_n_path c" "pc ! i = Resetting"
| pause_over: "conn_step E R (c, pc) (c, pc[i := Connecting])"
    if "i < c_n_path c" "pc ! i = Pausing"
| receives: "conn_step E R (c, pc) (c', pc)"
    if "i < c_n_path c" "pc ! i = Joining" "tcp_step E c input = Some c'" "tcp_input_ok (c_global c) input"
| pings: "conn_step E R (c, pc) (snd (tcp_send_ping_now E c i), pc)"
    if "i < c_n_path c" "pc ! i = Joining \<or> pc ! i = Stopping"
| told_to_stop: "conn_step E R (c, pc) (upd_tcp (\<lambda>t. t\<lparr>t_connect_thread_running := (t_connect_thread_running t)[i := False]\<rparr>) c, pc)"
    if "i < c_n_path c"
| shut_down: "conn_step E R (c, pc) (close_tcp_conn i c, pc)"
    if "i < c_n_path c"

text \<open>
  A start that fails is kept apart: it ends the attempt and counts the path down, as the loops do,
  but reports nothing to the application.
\<close>

inductive conn_failure :: "cplat \<Rightarrow> runtime \<Rightarrow> conn_state \<Rightarrow> conn_state \<Rightarrow> bool" for E R where
  not_started: "conn_failure E R (c, pc) (c2, pc[i := Failed])"
    if "i < c_n_path c" "pc ! i = Starting" "start_connected_threads E R (\<lambda>k. rx_run E (inputs k)) c i = (r, c1)" "r \<noteq> POTR_OK"
      "c2 = add_active_paths (- 1) c1"
| given_up: "conn_failure E R (c, pc) (c1, pc[i := after_connection c1 i])"
    if "i < c_n_path c" "pc ! i = Failed" "c1 = after_failed_start i (reset_all_paths_disconnected c)"

end
