(* ===== verification/Connect_Inv.thy ===== *)
theory Connect_Inv
  imports Connect_Thread
begin

text \<open>
  The invariant of the connection threads of a TCP service: what the steps of \<^verbatim>\<open>Connect_Thread\<close>
  keep, in every order in which the threads of all paths take them.  A step of a receive or health
  thread is \<^verbatim>\<open>conn_ok\<close>: it keeps the invariant of the service and touches no connection.  The steps
  of a connection thread keep \<^verbatim>\<open>conn_inv\<close>, which ties the counter of active paths, the open
  connections and the reported path states to the positions of the loops.
\<close>

section \<open>What the receive threads do to the path states\<close>

text \<open>
  A step of another thread leaves the connections and their counter alone.  It leaves the
  reported states of the paths alone as well, or sets them to those of open connections.
\<close>

definition path_synced :: "potr_context \<Rightarrow> bool" where
  "path_synced c \<longleftrightarrow> length (s_path_logical_alive (c_slot c)) = POTR_MAX_PATH \<and>
     s_health_alive (c_slot c) = any_path_alive (s_path_logical_alive (c_slot c)) \<and>
     (\<forall>k<POTR_MAX_PATH. s_path_logical_alive (c_slot c) ! k \<longrightarrow> t_conn_fd (c_tcp c) ! k)"

definition conn_frame :: "potr_context \<Rightarrow> potr_context \<Rightarrow> bool" where
  "conn_frame c c' \<longleftrightarrow> t_conn_fd (c_tcp c') = t_conn_fd (c_tcp c) \<and> t_active_paths (c_tcp c') = t_active_paths (c_tcp c) \<and>
     c_service c' = c_service c \<and> c_n_path c' = c_n_path c \<and> (view_of (c_slot c') = view_of (c_slot c) \<or> path_synced c')"

lemma conn_frame_refl [simp]: "conn_frame c c"
  by (simp add: conn_frame_def)

lemma conn_frame_trans [trans]: "conn_frame a b \<Longrightarrow> conn_frame b c \<Longrightarrow> conn_frame a c"
  by (auto simp: conn_frame_def path_synced_def view_of_def)

lemma conn_frame_same:
  "c_tcp c' = c_tcp c \<Longrightarrow> c_service c' = c_service c \<Longrightarrow> c_n_path c' = c_n_path c \<Longrightarrow> view_of (c_slot c') = view_of (c_slot c) \<Longrightarrow> conn_frame c c'"
  by (simp add: conn_frame_def)

lemma conn_frame_upd: "view_of (f (c_slot c)) = view_of (c_slot c) \<Longrightarrow> conn_frame c (upd_slot c CtxSlot f)"
  by (simp add: conn_frame_same upd_slot_def)

lemma conn_frame_put: "view_of st = view_of (c_slot c) \<Longrightarrow> conn_frame c (put_slot c CtxSlot st)"
  by (simp add: conn_frame_same)

lemma conn_frame_fold: "(\<And>x c. conn_frame c (f x c)) \<Longrightarrow> conn_frame c (fold f xs c)"
  by (induction xs arbitrary: c) (auto intro: conn_frame_trans)

lemma conn_frame_quiet:
  assumes "quiet c c'"
  shows "conn_frame c c'"
proof -
  have "conn_frame c (c\<lparr>c_trace := t, c_tick := n\<rparr>)" for t n by (simp add: conn_frame_same)
  then show ?thesis using assms unfolding quiet_def by metis
qed

lemma conn_frame_emit: "conn_frame c (emit c x)"
  by (simp add: conn_frame_same emit_def)

lemma conn_frame_callback: "conn_frame c (callback_emit c pid ev)"
  by (simp add: callback_emit_def callback_emit_locked_def conn_frame_emit)

lemma conn_frame_clock: "clock_get_monotonic_ms E c = (n, c') \<Longrightarrow> conn_frame c c'"
  by (auto simp: clock_get_monotonic_ms_def intro!: conn_frame_same)

text \<open>The synchronisation, whose states are those of open connections, and the disconnection.\<close>

lemma conn_frame_body:
  assumes "length nx = POTR_MAX_PATH" "\<And>k. k < POTR_MAX_PATH \<Longrightarrow> nx ! k \<Longrightarrow> t_conn_fd (c_tcp c) ! k"
    and "sync_path_state_body (get_slot c CtxSlot) nx = (st, prep)"
  shows "conn_frame c (emit_path_events (put_slot c CtxSlot st) pid prep)"
  using assms(1,2) sync_body_eq(1,2)[OF assms(3)] by (simp add: emit_path_events_eq conn_frame_def path_synced_def)

lemma conn_frame_sync:
  assumes "is_tcp_type (sd_type (c_service c))"
  shows "conn_frame c (recv_sync_path_state c CtxSlot)"
proof -
  obtain st prep where b: "sync_path_state_body (get_slot c CtxSlot) (next_path_states c CtxSlot) = (st, prep)" by fastforce
  have n: "next_path_states c CtxSlot = copy_tcp_path_states c" using assms by simp
  show ?thesis unfolding recv_sync_eq[OF b]
    by (rule conn_frame_body[OF length_next_path_states _ b]) (simp only: n, simp add: copy_tcp_path_states_def)
qed

lemma conn_frame_disconnect: "conn_frame c (recv_disconnect_service_all_paths c)"
proof -
  obtain st prep where b: "sync_path_state_body (get_slot c CtxSlot) zero_path_states = (st, prep)" by fastforce
  show ?thesis using recv_disconnect_eq[OF b] conn_frame_body[OF length_path_states(1) _ b] by (simp add: zero_path_states_def)
qed

lemma conn_frame_signal: "conn_frame c (signal_health_thread c i)"
  by (simp add: signal_health_thread_def conn_frame_emit)

lemma conn_frame_wake_all: "conn_frame c (tcp_health_thread_wake_all c)"
  unfolding tcp_health_thread_wake_all_def by (rule conn_frame_fold) (rule conn_frame_signal)

lemma conn_frame_ping_now: "conn_frame c (snd (tcp_send_ping_now E c i))"
proof -
  have "conn_frame c (snd (socket_send_all E c i w))" for w
    using send_all_quiet[of E c i w] conn_frame_quiet by (metis surjective_pairing)
  then show ?thesis by (simp add: tcp_send_ping_now_def tcp_send_ping_packet_def Let_def split: option.split)
qed

lemma conn_frame_wake_tcp: "conn_frame c (health_wake_tcp E c i b)"
  by (simp add: health_wake_tcp_def conn_frame_wake_all conn_frame_ping_now)

lemma conn_frame_adopt: "conn_frame c (snd (session_adopt E c CtxSlot pkt))"
  by (auto simp: session_adopt_def Let_def slot_clear_pending_fin_def view_of_def intro!: conn_frame_same)

lemma conn_frame_fin_fire: "conn_frame c (fin_fire E c CtxSlot n)"
proof -
  let ?c1 = "if sd_type (c_service c) = POTR_TYPE_TCP \<or> sd_type (c_service c) = POTR_TYPE_TCP_BIDIR
      then snd (send_tcp_fin_ack E c n) else c"
  let ?c2 = "upd_slot ?c1 CtxSlot reset_ping_states"
  have 1: "conn_frame c ?c1" by (simp add: send_tcp_fin_ack_def Let_def conn_frame_quiet[OF tcp_control_quiet])
  have 2: "conn_frame ?c1 ?c2" by (rule conn_frame_upd) simp
  have 3: "conn_frame d (upd_slot d CtxSlot (\<lambda>st. (slot_clear_pending_fin st)
          \<lparr>s_peer_session_known := False, s_reorder_pending := False, s_last_recv_ts := (s_last_recv_ts st)\<lparr>tv_sec := 0\<rparr>,
           s_recv_window := snd (window_init E (s_recv_window st) 0 (gc_window_size (c_global c)) (gc_max_payload (c_global c)))\<rparr>))" for d
    by (rule conn_frame_upd) (simp add: slot_clear_pending_fin_def view_of_def)
  show ?thesis unfolding fin_fire.simps Let_def
    by (rule conn_frame_trans[OF conn_frame_trans[OF 1 2] conn_frame_trans[OF conn_frame_disconnect 3]])
qed

lemma conn_frame_deliver: "conn_frame c (slot_deliver_payload_elem E c CtxSlot e)"
proof -
  have d: "conn_frame c (slot_recv_deliver E c CtxSlot x z)" for x z
    by (simp add: slot_recv_deliver_def conn_frame_callback split: option.split)
  have u: "conn_frame d (upd_slot d CtxSlot (\<lambda>st. st\<lparr>s_frag_buf := [], s_frag_compressed := False\<rparr>))" for d
    by (rule conn_frame_upd) (simp add: view_of_def)
  show ?thesis unfolding slot_deliver_payload_elem_def Let_def
    by (auto intro!: conn_frame_put d u conn_frame_trans[OF d u] simp: view_of_def simp del: put_slot.simps)
qed

lemma conn_frame_drain: "conn_frame c (tcp_drain_loop fuel E c)"
proof (induction fuel arbitrary: c)
  case (Suc fuel)
  obtain a w where p: "window_recv_pop (s_recv_window (c_slot c)) = (a, w)" by (meson surj_pair)
  show ?case
  proof (cases a)
    case (Inr out)
    have "conn_frame c (set_recv_window c CtxSlot w)" unfolding set_recv_window_def by (rule conn_frame_upd) (simp add: view_of_def)
    from conn_frame_trans[OF conn_frame_trans[OF this conn_frame_fold[OF conn_frame_deliver]] Suc.IH]
    show ?thesis using p Inr by (simp add: tcp_drain_loop.simps(2))
  qed (simp add: p tcp_drain_loop.simps(2))
qed simp

lemma conn_frame_fin: "conn_frame c (tcp_handle_fin E c pkt)"
proof -
  obtain adopted c1 where a: "session_adopt E c CtxSlot pkt = (adopted, c1)" by (meson surj_pair)
  have s1: "conn_frame c c1" using conn_frame_adopt[of c E pkt] a by simp
  obtain act t c2 where f: "fin_on_packet c1 CtxSlot pkt = (act, t, c2)" by (rule prod_cases3)
  have "conn_frame c1 (snd (snd (fin_on_packet c1 CtxSlot pkt)))"
    by (auto simp: fin_on_packet_def view_of_def intro: conn_frame_upd)
  then have s2: "conn_frame c c2" using conn_frame_trans[OF s1] f by simp
  show ?thesis unfolding tcp_handle_fin_def a prod.case Let_def f
    using s1 s2 conn_frame_trans[OF s2 conn_frame_fin_fire] by (auto split: fin_action.split simp del: fin_fire.simps)
qed

lemma conn_frame_data: "conn_frame c (tcp_handle_data E c pkt)"
proof -
  obtain adopted c1 where a: "session_adopt E c CtxSlot pkt = (adopted, c1)" by (meson surj_pair)
  have s1: "conn_frame c c1" using conn_frame_adopt[of c E pkt] a by simp
  obtain pushed w where p: "window_recv_push (s_recv_window (c_slot c1)) pkt = (pushed, w)" by (meson surj_pair)
  let ?c2 = "set_recv_window c1 CtxSlot w"
  have "conn_frame c1 ?c2" unfolding set_recv_window_def by (rule conn_frame_upd) (simp add: view_of_def)
  from conn_frame_trans[OF s1 this] have s2: "conn_frame c ?c2" .
  let ?c3 = "tcp_drain_loop (Suc (unat (win_window_size (s_recv_window (c_slot ?c2))))) E ?c2"
  have s3: "conn_frame c ?c3" by (rule conn_frame_trans[OF s2 conn_frame_drain])
  show ?thesis unfolding tcp_handle_data_def a prod.case Let_def p
    using s1 s2 s3 conn_frame_trans[OF s3 conn_frame_fin_fire] by (auto split: option.split simp del: fin_fire.simps)
qed

lemma conn_frame_fin_ack: "conn_frame c (fin_on_ack c a)"
  by (simp add: fin_on_ack_def Let_def conn_frame_def)

lemma conn_frame_ping:
  assumes "is_tcp_type (sd_type (c_service c))"
  shows "conn_frame c (tcp_handle_ping E c pkt k)"
proof -
  obtain now c1 where n: "clock_get_monotonic_ms E c = (now, c1)" by (meson surj_pair)
  let ?c2 = "c1\<lparr>c_tcp := (c_tcp c1)\<lparr>t_last_ping_recv_ms := (t_last_ping_recv_ms (c_tcp c1))[k := now]\<rparr>\<rparr>"
  have s2: "conn_frame c ?c2" by (rule conn_frame_trans[OF conn_frame_clock[OF n]]) (simp add: conn_frame_def)
  obtain ch states where p: "set_path_ping_state (s_path_ping_state (c_slot ?c2)) k POTR_PING_STATE_NORMAL = (ch, states)" by (meson surj_pair)
  let ?c3 = "upd_slot ?c2 CtxSlot (\<lambda>st. st\<lparr>s_path_ping_state := states\<rparr>)"
  let ?c4 = "if unat (payload_len pkt) \<ge> POTR_MAX_PATH \<and> payload pkt \<noteq> []
               then upd_slot ?c3 CtxSlot (\<lambda>st. st\<lparr>s_remote_path_ping_state :=
                      apply_remote_path_ping_state (s_remote_path_ping_state st) (payload pkt) POTR_MAX_PATH\<rparr>) else ?c3"
  have "conn_frame ?c2 ?c3" by (rule conn_frame_upd) (simp add: view_of_def)
  moreover have "conn_frame ?c3 ?c4" by (auto intro!: conn_frame_upd simp: view_of_def)
  ultimately have s4: "conn_frame c ?c4" using conn_frame_trans s2 by blast
  then have "is_tcp_type (sd_type (c_service ?c4))" using assms unfolding conn_frame_def by metis
  from conn_frame_trans[OF s4 conn_frame_trans[OF conn_frame_sync[OF this] conn_frame_wake_tcp]]
  show ?thesis unfolding tcp_handle_ping_def n prod.case Let_def p .
qed

lemma conn_frame_timeout:
  assumes "is_tcp_type (sd_type (c_service c))"
  shows "conn_frame c (snd (tcp_poll_timeout E c k))"
proof -
  obtain now c1 where n: "clock_get_monotonic_ms E c = (now, c1)" by (meson surj_pair)
  obtain ch states where p: "set_path_ping_state (s_path_ping_state (c_slot c1)) k POTR_PING_STATE_ABNORMAL = (ch, states)" by (meson surj_pair)
  note s1 = conn_frame_clock[OF n]
  let ?c2 = "upd_slot c1 CtxSlot (\<lambda>st. st\<lparr>s_path_ping_state := states\<rparr>)"
  have "conn_frame c1 ?c2" by (rule conn_frame_upd) (simp add: view_of_def)
  from conn_frame_trans[OF s1 this] have s2: "conn_frame c ?c2" .
  then have "is_tcp_type (sd_type (c_service ?c2))" using assms unfolding conn_frame_def by metis
  from conn_frame_trans[OF s2 conn_frame_trans[OF conn_frame_sync[OF this] conn_frame_wake_tcp]]
  show ?thesis unfolding tcp_poll_timeout_def n prod.case Let_def p using s1 by (simp only: snd_conv split: if_split) blast
qed

lemma conn_frame_step:
  assumes "is_tcp_type (sd_type (c_service c))" "tcp_step E c x = Some c'"
  shows "conn_frame c c'"
proof (cases x)
  case (Tcp_timeout k)
  then show ?thesis using assms conn_frame_timeout by auto
next
  case (Tcp_packet k buf)
  have "conn_frame c (snd (tcp_handle_packet E c buf k))"
    unfolding tcp_handle_packet_def
    using conn_frame_fin_ack conn_frame_fin conn_frame_ping[OF assms(1)] conn_frame_data by (simp split: sum.split)
  then show ?thesis using assms(2) Tcp_packet by simp
qed

section \<open>Steps of other threads\<close>

definition tcp_ctx :: "potr_context \<Rightarrow> bool" where
  "tcp_ctx c \<longleftrightarrow> ctx_inv c \<and> \<not> c_is_multi_peer c \<and> is_tcp_type (sd_type (c_service c))"

definition conn_ok :: "potr_context \<Rightarrow> potr_context \<Rightarrow> bool" where
  "conn_ok c c' \<longleftrightarrow> (tcp_ctx c \<longrightarrow> ctx_step c c' \<and> conn_frame c c')"

lemma conn_okD: "conn_ok c c' \<Longrightarrow> tcp_ctx c \<Longrightarrow> tcp_ctx c' \<and> ctx_step c c' \<and> conn_frame c c'"
  by (auto simp: conn_ok_def tcp_ctx_def ctx_step_def conn_frame_def)

lemma conn_ok_refl [simp]: "conn_ok c c"
  by (simp add: conn_ok_def tcp_ctx_def ctx_step_refl)

lemma conn_ok_trans: "conn_ok a b \<Longrightarrow> conn_ok b c \<Longrightarrow> conn_ok a c"
  unfolding conn_ok_def using conn_okD[unfolded conn_ok_def] ctx_step_trans conn_frame_trans by meson

lemma conn_ok_local: "local_step CtxSlot c c' \<Longrightarrow> (is_tcp_type (sd_type (c_service c)) \<Longrightarrow> conn_frame c c') \<Longrightarrow> conn_ok c c'"
  using ctx_step_local[of c CtxSlot c'] by (simp add: conn_ok_def tcp_ctx_def)

lemma conn_ok_silent:
  assumes "ctx_frame c c'" "c_slot c' = c_slot c" "c_peers c' = c_peers c" "c_trace c' = c_trace c"
    "t_conn_fd (c_tcp c') = t_conn_fd (c_tcp c)" "t_active_paths (c_tcp c') = t_active_paths (c_tcp c)"
  shows "conn_ok c c'"
  by (rule conn_ok_local[OF local_step_silent[OF assms(1-4)]]) (use assms in \<open>simp add: conn_frame_def ctx_frame_def\<close>)

lemma conn_ok_start:
  "conn_ok c (snd (send_thread_start E c))" "conn_ok c (snd (tcp_recv_thread_start E c i))" "conn_ok c (snd (tcp_health_thread_start E c i))"
  by (auto simp: send_thread_start_def tcp_recv_thread_start_def tcp_health_thread_start_def plat_call_def Let_def ctx_frame_def
      intro!: conn_ok_silent)

lemma conn_ok_wake_all: "conn_ok c (tcp_health_thread_wake_all c)"
  by (rule conn_ok_local[OF local_step_wake_all conn_frame_wake_all])

lemma conn_ok_set_ping: "conn_ok c (set_tcp_path_ping_state i x c)"
proof -
  have "conn_ok c (upd_slot c CtxSlot (\<lambda>st. st\<lparr>s_path_ping_state := (s_path_ping_state st)[i := x]\<rparr>))"
    by (rule conn_ok_local[OF local_step_upd conn_frame_upd]) (auto simp: slot_inv_lengths view_of_def intro!: slot_inv_lists)
  from conn_ok_trans[OF this conn_ok_wake_all] show ?thesis by (simp add: set_tcp_path_ping_state_def)
qed

lemma conn_ok_ping_now: "conn_ok c (snd (tcp_send_ping_now E c i))"
  by (rule conn_ok_local[OF local_step_ping_now conn_frame_ping_now])

lemma conn_ok_step:
  assumes "decrypt_shortens E" "tcp_input_ok (c_global c) x" "tcp_step E c x = Some c'"
  shows "conn_ok c c'"
  unfolding conn_ok_def
proof (intro impI conjI)
  assume c: "tcp_ctx c"
  then have live: "ctx_inv c" "slot_live c CtxSlot" by (simp_all add: tcp_ctx_def)
  show "conn_frame c c'" using conn_frame_step[OF _ assms(3)] c by (simp add: tcp_ctx_def)
  show "ctx_step c c'"
  proof (cases x)
    case (Tcp_timeout k)
    then show ?thesis using ctx_step_local[OF live local_step_tcp_timeout, of E k] assms(3) by simp
  next
    case (Tcp_packet k buf)
    then show ?thesis using ctx_step_run[OF live slot_run_tcp_packet[OF assms(1)], of buf k] assms(2,3) by simp
  qed
qed

lemma conn_ok_rx:
  assumes "decrypt_shortens E" "list_all (tcp_input_ok (c_global c)) xs"
  shows "conn_ok c (rx_run E xs c)"
proof -
  have "conn_ok c (case react_all (tcp_step E) c xs of Some c' \<Rightarrow> c' | None \<Rightarrow> c)" if "tcp_ctx c" "list_all (tcp_input_ok (c_global c)) xs" for c
    using that
  proof (induction xs arbitrary: c)
    case (Cons x xs)
    obtain c1 where c1: "tcp_step E c x = Some c1" by (cases x) auto
    have ok: "conn_ok c c1" by (rule conn_ok_step[OF assms(1) _ c1]) (use Cons.prems in simp)
    have g: "tcp_ctx c1" "c_global c1 = c_global c" using conn_okD[OF ok Cons.prems(1)] by (simp_all add: ctx_step_def)
    have r: "\<exists>c2. react_all (tcp_step E) c1 xs = Some c2" 
      using tcp_rx.run_total[of c1 "c_callback c1" E xs] g Cons.prems(2) assms(1) by (auto simp: tcp_ctx_def)
    show ?case using conn_ok_trans[OF ok Cons.IH[OF g(1)]] g(2) Cons.prems(2) c1 r by auto
  qed simp
  then show ?thesis using assms(2) unfolding rx_run_def by (metis conn_ok_def)
qed

text \<open>
  What a thread still does until a join returns: a receive thread treats some more input, a health
  thread sends some more PING packets.
\<close>

definition steady :: "cplat \<Rightarrow> runtime \<Rightarrow> bool" where
  "steady E R \<longleftrightarrow> (\<forall>i c. (\<exists>xs. list_all (tcp_input_ok (c_global c)) xs \<and> rt_rest R (Recv_thread i) c = rx_run E xs c) \<and>
     (\<exists>n. rt_rest R (Health_thread i) c = ((\<lambda>c. snd (tcp_send_ping_now E c i)) ^^ n) c))"

lemma conn_ok_rest:
  assumes "decrypt_shortens E" "steady E R"
  shows "conn_ok c (rt_rest R (Recv_thread i) c)" "conn_ok c (rt_rest R (Health_thread i) c)"
proof -
  obtain xs n where r: "list_all (tcp_input_ok (c_global c)) xs" "rt_rest R (Recv_thread i) c = rx_run E xs c"
    and h: "rt_rest R (Health_thread i) c = ((\<lambda>c. snd (tcp_send_ping_now E c i)) ^^ n) c"
    using assms(2) unfolding steady_def by meson
  show "conn_ok c (rt_rest R (Recv_thread i) c)" unfolding r(2) by (rule conn_ok_rx[OF assms(1) r(1)])
  have "conn_ok c (((\<lambda>c. snd (tcp_send_ping_now E c i)) ^^ m) c)" for m
    by (induction m) (auto intro: conn_ok_trans conn_ok_ping_now)
  then show "conn_ok c (rt_rest R (Health_thread i) c)" unfolding h .
qed

lemma conn_ok_join:
  assumes "decrypt_shortens E" "steady E R" "thread_join E R t c = (b, c')" "t = Recv_thread i \<or> t = Health_thread i"
  shows "conn_ok c c'"
proof -
  have 1: "conn_ok c (c\<lparr>c_tick := Suc (c_tick c)\<rparr>)" by (rule conn_ok_silent) (simp_all add: ctx_frame_def)
  show ?thesis using assms(3,4) 1 conn_ok_trans[OF 1] conn_ok_rest[OF assms(1,2)]
    by (auto simp: thread_join_def plat_call_def split: if_splits)
qed

lemma conn_ok_join_recv:
  assumes "decrypt_shortens E" "steady E R"
  shows "conn_ok c (join_recv_thread E R i c)"
proof -
  obtain b c1 where j: "thread_join E R (Recv_thread i) c = (b, c1)" by (meson surj_pair)
  have "conn_ok c1 (c1\<lparr>c_recv_thread := l\<rparr>)" for l by (rule conn_ok_silent) (simp_all add: ctx_frame_def)
  moreover have "conn_ok c c1" by (rule conn_ok_join[OF assms j]) simp
  ultimately show ?thesis using conn_ok_trans by (auto simp: join_recv_thread_def j)
qed

lemma conn_ok_health_stop:
  assumes "decrypt_shortens E" "steady E R"
  shows "conn_ok c (snd (tcp_health_thread_stop E R c i))"
proof -
  let ?d = "emit (c\<lparr>c_health_running := (c_health_running c)[i := False]\<rparr>) (Io_wake_health i)"
  have "conn_ok c (c\<lparr>c_health_running := (c_health_running c)[i := False]\<rparr>)" by (rule conn_ok_silent) (simp_all add: ctx_frame_def)
  moreover have "conn_ok d (emit d (Io_wake_health i))" for d
    by (rule conn_ok_local[OF local_step_emit conn_frame_emit]) simp
  ultimately have d: "conn_ok c ?d" using conn_ok_trans by blast
  obtain b c1 where j: "thread_join E R (Health_thread i) ?d = (b, c1)" by (meson surj_pair)
  have 1: "conn_ok c c1" by (rule conn_ok_trans[OF d conn_ok_join[OF assms j]]) simp
  have 2: "conn_ok c1 (c1\<lparr>c_health_thread := l\<rparr>)" for l by (rule conn_ok_silent) (simp_all add: ctx_frame_def)
  show ?thesis using 1 conn_ok_trans[OF 1 2] by (simp add: tcp_health_thread_stop_def Let_def j)
qed

text \<open>The threads of a connection are started.\<close>

lemma conn_ok_started:
  assumes "decrypt_shortens E" "\<And>k. list_all (tcp_input_ok (c_global c)) (inputs k)"
    and "start_connected_threads E R (\<lambda>k. rx_run E (inputs k)) c i = (POTR_OK, c')"
  shows "conn_ok c c'"
  unfolding conn_ok_def
proof (rule impI)
  assume t: "tcp_ctx c"
  obtain s r2 c2 r3 c3 where s: "conn_ok c s"
    and r: "tcp_recv_thread_start E (set_tcp_path_ping_state i POTR_PING_STATE_UNDEFINED s) i = (r2, c2)"
    and p: "tcp_send_ping_now E (rx_run E (inputs 0) c2) i = (r3, c3)"
    and h: "tcp_health_thread_start E (rx_run E (inputs 1) c3) i = (POTR_OK, c')"
  proof -
    let ?b = "((c_role c = POTR_ROLE_SENDER \<or> sd_type (c_service c) = POTR_TYPE_TCP_BIDIR) \<and> i = 0 \<and> \<not> c_send_thread_running c)"
    obtain r1 s where s: "(if ?b then send_thread_start E c else (POTR_OK, c)) = (r1, s)" by (meson surj_pair)
    obtain r2 c2 where r: "tcp_recv_thread_start E (set_tcp_path_ping_state i POTR_PING_STATE_UNDEFINED s) i = (r2, c2)" by (meson surj_pair)
    obtain r3 c3 where p: "tcp_send_ping_now E (rx_run E (inputs 0) c2) i = (r3, c3)" by (meson surj_pair)
    obtain r4 c4 where h: "tcp_health_thread_start E (rx_run E (inputs 1) c3) i = (r4, c4)" by (meson surj_pair)
    have "r4 = POTR_OK \<and> c4 = c'"
      using assms(3) unfolding start_connected_threads_def Let_def s r p h prod.case by (simp split: if_splits)
    moreover have "conn_ok c s" using s conn_ok_start(1)[of c E] by (metis snd_conv conn_ok_refl)
    ultimately show ?thesis using that r p h by blast
  qed
  have "conn_ok c c2" using conn_ok_trans[OF s conn_ok_trans[OF conn_ok_set_ping conn_ok_start(2)]] r by (metis snd_conv)
  note c2 = conn_okD[OF this t]
  have "conn_ok c2 c3"
    using conn_ok_trans[OF conn_ok_rx[OF assms(1)] conn_ok_ping_now] assms(2) c2 p unfolding ctx_step_def by (metis snd_conv)
  note c3 = conn_okD[OF this conjunct1[OF c2]]
  have "conn_ok c3 c'"
    using conn_ok_trans[OF conn_ok_rx[OF assms(1)] conn_ok_start(3)] assms(2) c2 c3 h unfolding ctx_step_def by (metis snd_conv)
  from conn_okD[OF this conjunct1[OF c3]] c2 c3 show "ctx_step c c' \<and> conn_frame c c'"
    using ctx_step_trans conn_frame_trans by blast
qed

section \<open>The invariant of the connections\<close>

fun pc_counted :: "conn_pc \<Rightarrow> bool" where
  "pc_counted Starting = True"
| "pc_counted Joining = True"
| "pc_counted Stopping = True"
| "pc_counted Syncing = True"
| "pc_counted Releasing = True"
| "pc_counted _ = False"

fun pc_live :: "conn_pc \<Rightarrow> bool" where
  "pc_live Starting = True"
| "pc_live Joining = True"
| "pc_live Stopping = True"
| "pc_live Syncing = True"
| "pc_live _ = False"

fun pc_open :: "conn_pc \<Rightarrow> bool" where
  "pc_open Starting = True"
| "pc_open Joining = True"
| "pc_open Stopping = True"
| "pc_open _ = False"

definition active_count :: "conn_pc list \<Rightarrow> int" where
  "active_count pc = int (length (filter pc_counted pc))"

lemma filter_update_length:
  "i < length xs \<Longrightarrow> int (length (filter P (xs[i := y]))) = int (length (filter P xs)) + of_bool (P y) - of_bool (P (xs ! i))"
proof (induction xs arbitrary: i)
  case (Cons x xs)
  then show ?case by (cases i) auto
qed simp

lemma active_count_update:
  "i < length pc \<Longrightarrow> active_count (pc[i := q]) = active_count pc + of_bool (pc_counted q) - of_bool (pc_counted (pc ! i))"
  unfolding active_count_def by (rule filter_update_length)

text \<open>An open connection is live, and a live one is counted.\<close>

lemma pc_open_live: "pc_open p \<Longrightarrow> pc_live p"
  by (cases p) simp_all

lemma pc_live_counted: "pc_live p \<Longrightarrow> pc_counted p"
  by (cases p) simp_all

definition conn_inv :: "potr_context \<Rightarrow> conn_pc list \<Rightarrow> bool" where
  "conn_inv c pc \<longleftrightarrow> tcp_ctx c \<and> c_n_path c \<le> POTR_MAX_PATH \<and> length pc = POTR_MAX_PATH \<and> length (t_conn_fd (c_tcp c)) = POTR_MAX_PATH \<and>
     t_active_paths (c_tcp c) = active_count pc \<and>
     s_health_alive (c_slot c) = any_path_alive (s_path_logical_alive (c_slot c)) \<and>
     (\<forall>k<POTR_MAX_PATH. (t_conn_fd (c_tcp c) ! k \<longrightarrow> pc_open (pc ! k)) \<and> (s_path_logical_alive (c_slot c) ! k \<longrightarrow> pc_live (pc ! k)))"

text \<open>A step of one path: what has to be shown for the next program counter.\<close>

lemma conn_inv_move:
  assumes "conn_inv c pc" "i < POTR_MAX_PATH" "tcp_ctx c'" "c_n_path c' = c_n_path c"
    and "length (t_conn_fd (c_tcp c')) = POTR_MAX_PATH"
    and "t_active_paths (c_tcp c') = t_active_paths (c_tcp c) + of_bool (pc_counted q) - of_bool (pc_counted (pc ! i))"
    and "\<And>k. k < POTR_MAX_PATH \<Longrightarrow> t_conn_fd (c_tcp c') ! k \<Longrightarrow> k \<noteq> i \<and> t_conn_fd (c_tcp c) ! k \<or> k = i \<and> pc_open q"
    and "view_of (c_slot c') = view_of (c_slot c) \<or> path_synced c'"
    and "s_path_logical_alive (c_slot c') ! i \<Longrightarrow> pc_live q"
  shows "conn_inv c' (pc[i := q])"
proof -
  have l: "length pc = POTR_MAX_PATH" using assms(1) by (simp add: conn_inv_def)
  have alive: "pc_live (pc[i := q] ! k)" if "k < POTR_MAX_PATH" "s_path_logical_alive (c_slot c') ! k" for k
  proof (cases "k = i")
    case False
    have "pc_live (pc ! k)"
      using assms(8)
    proof
      assume "view_of (c_slot c') = view_of (c_slot c)"
      then show ?thesis using assms(1) that by (simp add: conn_inv_def view_of_def)
    next
      assume "path_synced c'"
      then have "t_conn_fd (c_tcp c) ! k" using that assms(7)[of k] False by (auto simp: path_synced_def)
      then show ?thesis using assms(1) that(1) pc_open_live by (simp add: conn_inv_def)
    qed
    then show ?thesis using False by simp
  qed (use assms(9) that l in simp)
  have op: "pc_open (pc[i := q] ! k)" if "k < POTR_MAX_PATH" "t_conn_fd (c_tcp c') ! k" for k
    using assms(1) assms(7)[OF that] that(1) l by (cases "k = i") (simp_all add: conn_inv_def)
  have h: "s_health_alive (c_slot c') = any_path_alive (s_path_logical_alive (c_slot c'))"
    using assms(1,8) by (auto simp: conn_inv_def view_of_def path_synced_def)
  show ?thesis unfolding conn_inv_def
    using assms(1,3-6) l h op alive active_count_update[of i pc q] assms(2) by (simp add: conn_inv_def)
qed

lemma conn_inv_stay:
  assumes "conn_inv c pc" "conn_ok c c'"
  shows "conn_inv c' pc"
proof -
  have t: "tcp_ctx c" using assms(1) by (simp add: conn_inv_def)
  note d = conn_okD[OF assms(2) t]
  have f: "t_conn_fd (c_tcp c') = t_conn_fd (c_tcp c)" "t_active_paths (c_tcp c') = t_active_paths (c_tcp c)" "c_n_path c' = c_n_path c"
    and v: "view_of (c_slot c') = view_of (c_slot c) \<or> path_synced c'" using d by (simp_all add: conn_frame_def)
  have alive: "s_path_logical_alive (c_slot c') ! k \<Longrightarrow> pc_live (pc ! k)" if "k < POTR_MAX_PATH" for k
    using v assms(1) that pc_open_live by (auto simp: conn_inv_def view_of_def path_synced_def f)
  have h: "s_health_alive (c_slot c') = any_path_alive (s_path_logical_alive (c_slot c'))"
    using v assms(1) by (auto simp: conn_inv_def view_of_def path_synced_def)
  show ?thesis using assms(1) d f alive h by (simp add: conn_inv_def)
qed

text \<open>Updates of the connection state alone.\<close>

lemma tcp_ctx_silent:
  assumes "tcp_ctx c" "ctx_frame c c'" "c_slot c' = c_slot c" "c_peers c' = c_peers c" "c_trace c' = c_trace c"
  shows "tcp_ctx c'"
  using ctx_step_local[OF _ _ local_step_silent[OF assms(2-5)], of CtxSlot] assms(1,2)
  by (auto simp: tcp_ctx_def ctx_step_def ctx_frame_def)

lemma tcp_ctx_upd:
  assumes "tcp_ctx c"
  shows "tcp_ctx (upd_tcp f c)"
  by (rule tcp_ctx_silent[OF assms]) (simp_all add: upd_tcp_def ctx_frame_def)

lemma conn_inv_close:
  assumes "conn_inv c pc"
  shows "conn_inv (close_tcp_conn k c) pc" "k < POTR_MAX_PATH \<Longrightarrow> \<not> t_conn_fd (c_tcp (close_tcp_conn k c)) ! k"
proof -
  have l: "length (t_conn_fd (c_tcp c)) = POTR_MAX_PATH" using assms by (simp add: conn_inv_def)
  have fd: "t_conn_fd (c_tcp (close_tcp_conn k c)) = (t_conn_fd (c_tcp c))[k := False]"
    by (simp add: close_tcp_conn_def upd_tcp_def) (metis list_update_id)
  have sub: "(t_conn_fd (c_tcp c))[k := False] ! j \<Longrightarrow> j < POTR_MAX_PATH \<Longrightarrow> t_conn_fd (c_tcp c) ! j" for j
    using l by (cases "j = k") simp_all
  have t: "tcp_ctx (close_tcp_conn k c)" using assms by (simp add: close_tcp_conn_def tcp_ctx_upd conn_inv_def)
  show "conn_inv (close_tcp_conn k c) pc"
    using assms t sub fd l unfolding conn_inv_def by (auto simp: close_tcp_conn_def upd_tcp_def)
  show "k < POTR_MAX_PATH \<Longrightarrow> \<not> t_conn_fd (c_tcp (close_tcp_conn k c)) ! k" using fd l by simp
qed

lemma conn_inv_n: "conn_inv c pc \<Longrightarrow> i < c_n_path c \<Longrightarrow> i < POTR_MAX_PATH"
  by (simp add: conn_inv_def)

text \<open>An attempt to connect touches nothing but the trace.\<close>

lemma tick_eq: "(c' :: potr_context) = c\<lparr>c_tick := n\<rparr> \<Longrightarrow> c' = c\<lparr>c_tick := c_tick c'\<rparr>"
  by simp

lemma await_tick:
  assumes "await_connect E run c i = (b, c')"
  shows "c' = c\<lparr>c_tick := c_tick c'\<rparr>"
proof -
  let ?t = "sd_connect_timeout_ms (c_service c)" and ?c1 = "c\<lparr>c_tick := Suc (c_tick c)\<rparr>"
  obtain ready e c2 where p: "connect_poll E run ?t 0 ?c1 = (ready, e, c2)" by (metis surj_pair)
  have c2: "c2 = ?c1\<lparr>c_tick := c_tick c2\<rparr>" using poll_bounds[OF p] by simp
  have "c' = ?c1 \<or> c' = c2 \<or> c' = c2\<lparr>c_tick := Suc (c_tick c2)\<rparr>"
    using assms p by (auto simp: await_connect_def plat_call_def Let_def split: if_splits connect_outcome.splits)
  moreover have "c2 = c\<lparr>c_tick := c_tick c2\<rparr>" by (subst c2) simp
  then have "c2\<lparr>c_tick := m\<rparr> = c\<lparr>c_tick := c_tick c2\<rparr>\<lparr>c_tick := m\<rparr>" for m by (rule arg_cong)
  then have "c2\<lparr>c_tick := m\<rparr> = c\<lparr>c_tick := m\<rparr>" for m by simp
  ultimately obtain n where "c' = c\<lparr>c_tick := n\<rparr>" using \<open>c2 = c\<lparr>c_tick := c_tick c2\<rparr>\<close> by metis
  then show ?thesis by (rule tick_eq)
qed

lemma conn_ok_attempt:
  assumes "thread_connect_with_timeout E run c i = (b, c')"
  shows "conn_ok c c'"
proof -
  let ?c1 = "c\<lparr>c_tick := Suc (c_tick c)\<rparr>" and ?c2 = "c\<lparr>c_tick := Suc (Suc (c_tick c))\<rparr>"
  have tick: "conn_ok d (d\<lparr>c_tick := n\<rparr>)" for d n by (rule conn_ok_silent) (simp_all add: ctx_frame_def)
  have bind: "conn_ok d (emit d (Io_bind i a))" for d a by (rule conn_ok_local[OF local_step_emit conn_frame_emit]) simp
  have await: "conn_ok d c'" if "await_connect E run d i = (b, c')" for d using await_tick[OF that] tick by metis
  have "c' = ?c1 \<or> c' = ?c2 \<or> await_connect E run ?c1 i = (b, c') \<or> (\<exists>a. await_connect E run (emit ?c2 (Io_bind i a)) i = (b, c'))"
    using assms by (auto simp: thread_connect_with_timeout_def plat_call_def Let_def split: if_splits)
  then show ?thesis using tick await conn_ok_trans bind by metis
qed

text \<open>A connection becomes visible.\<close>

lemma view_clear [simp]: "view_of (clear_connection st) = view_of st"
  by (simp add: clear_connection_def view_of_def)

lemma clear_ok: "conn_ok c (reset_connection_state c)"
  unfolding reset_connection_state_def
  by (rule conn_ok_local[OF local_step_upd conn_frame_upd]) (auto simp: clear_connection_def slot_inv_def)

lemma conn_inv_publish:
  assumes "conn_inv c pc" "i < POTR_MAX_PATH" "\<not> pc_counted (pc ! i)" "conn_ok c d"
    and "c' = publish_connection E i e" "e = add_active_paths 1 d \<or> e = reset_connection_state (add_active_paths 1 d)"
  shows "conn_inv c' (pc[i := Starting])"
proof -
  have d: "conn_inv d pc" by (rule conn_inv_stay[OF assms(1,4)])
  then have t: "tcp_ctx (add_active_paths 1 d)" by (simp add: add_active_paths_def tcp_ctx_upd conn_inv_def)
  have e: "tcp_ctx e" using assms(6) t conn_okD[OF clear_ok t] by auto
  obtain now e1 where n: "clock_get_monotonic_ms E e = (now, e1)" by (meson surj_pair)
  have "tcp_ctx e1" using conn_okD[OF conn_ok_local[OF local_step_clock(2)[OF n] conn_frame_clock[OF n]] e] by simp
  then have c': "tcp_ctx c'" unfolding assms(5) publish_connection_def n prod.case Let_def by (rule tcp_ctx_upd)
  have f: "c_n_path c' = c_n_path d" "t_conn_fd (c_tcp c') = (t_conn_fd (c_tcp d))[i := True]"
    "t_active_paths (c_tcp c') = t_active_paths (c_tcp d) + 1" "view_of (c_slot c') = view_of (c_slot d)"
    using assms(5,6) n by (auto simp: publish_connection_def clock_get_monotonic_ms_def reset_connection_state_def
        add_active_paths_def upd_tcp_def upd_slot_def)
  have fd: "length (t_conn_fd (c_tcp d)) = POTR_MAX_PATH" using d by (simp add: conn_inv_def)
  show ?thesis
    by (rule conn_inv_move[OF d assms(2) c' f(1)]) (use f fd assms(3) in \<open>auto simp: nth_list_update split: if_splits\<close>)
qed

lemma conn_inv_sender_publish:
  assumes "conn_inv c pc" "i < POTR_MAX_PATH" "pc ! i = Connecting" "conn_ok c d"
  shows "conn_inv (sender_publish E i d) (pc[i := Starting])"
  by (rule conn_inv_publish[OF assms(1,2) _ assms(4), of _ E]) (use assms(3) in \<open>auto simp: sender_publish_def Let_def\<close>)

text \<open>A new session closes the connections of the other paths.\<close>

lemma conn_inv_kick:
  assumes "conn_inv c pc"
  shows "conn_inv (kick_path k c) pc"
proof -
  have "conn_ok c (c\<lparr>c_running := (c_running c)[k := False]\<rparr>)" by (rule conn_ok_silent) (simp_all add: ctx_frame_def)
  from conn_inv_close(1)[OF conn_inv_stay[OF assms this]] assms show ?thesis by (simp add: kick_path_def)
qed

lemma conn_inv_accept:
  assumes "conn_inv c pc" "i < POTR_MAX_PATH" "pc ! i = Connecting" "accept_session E i buf c = Some c'"
  shows "conn_inv c' (pc[i := Starting])"
proof -
  let ?k = "fold (\<lambda>k c. if k = i then c else kick_path k c) [0..<c_n_path c] c"
  have kick: "conn_inv (fold (\<lambda>k c. if k = i then c else kick_path k c) ks d) pc" if "conn_inv d pc" for ks d
    using that by (induction ks arbitrary: d) (simp_all add: conn_inv_kick)
  have tcp: "conn_ok d (upd_tcp f d)" if "\<And>t. t_conn_fd (f t) = t_conn_fd t" "\<And>t. t_active_paths (f t) = t_active_paths t" for d f
    by (rule conn_ok_silent) (simp_all add: that upd_tcp_def ctx_frame_def)
  obtain c1 where c1: "conn_inv c1 pc"
    and c': "c' = upd_tcp (\<lambda>t. t\<lparr>t_first_pkt_buf := (t_first_pkt_buf t)[i := buf]\<rparr>) (publish_connection E i (add_active_paths 1 c1))"
  proof -
    have new: "conn_inv (upd_tcp (\<lambda>t. t\<lparr>t_accepted_session_id := a, t_accepted_session_ts := b, t_accepted_session_known := True\<rparr>)
        (reset_connection_state ?k)) pc" for a b
      by (rule conn_inv_stay[OF conn_inv_stay[OF kick[OF assms(1)] clear_ok] tcp]) simp_all
    show ?thesis using assms(4) that[OF assms(1)] that[OF new]
      by (auto simp: accept_session_def Let_def split: sum.splits if_splits tcp_session.splits)
  qed
  have "conn_inv (publish_connection E i (add_active_paths 1 c1)) (pc[i := Starting])"
    by (rule conn_inv_publish[OF c1 assms(2) _ conn_ok_refl refl]) (use assms(3) in simp_all)
  then show ?thesis unfolding c' by (rule conn_inv_stay[OF _ tcp]) simp_all
qed

text \<open>The end of a connection is reported before the path is counted down.\<close>

lemma sync_synced:
  assumes "tcp_ctx c"
  shows "conn_ok c (sync_tcp_service_path_state_locked c)" "path_synced (sync_tcp_service_path_state_locked c)"
proof -
  have tcp: "is_tcp_type (sd_type (c_service c))" using assms by (simp add: tcp_ctx_def)
  have eq: "sync_tcp_service_path_state_locked c = recv_sync_path_state c CtxSlot"
    using tcp by (simp add: sync_tcp_service_path_state_locked_def)
  show "conn_ok c (sync_tcp_service_path_state_locked c)"
    unfolding eq by (rule conn_ok_local[OF local_step_sync conn_frame_sync])
  obtain st prep where b: "sync_path_state_body (get_slot c CtxSlot) (next_path_states c CtxSlot) = (st, prep)" by fastforce
  have n: "next_path_states c CtxSlot = copy_tcp_path_states c" using tcp by simp
  show "path_synced (sync_tcp_service_path_state_locked c)"
    unfolding eq recv_sync_eq[OF b] using sync_body_eq(1,2)[OF b] unfolding n
    by (simp add: emit_path_events_eq path_synced_def copy_tcp_path_states_def)
qed

lemma conn_inv_end:
  assumes "conn_inv c pc" "i < POTR_MAX_PATH" "pc ! i = Syncing"
  shows "conn_inv (end_connection i c) (pc[i := Releasing])"
proof -
  let ?d = "set_tcp_path_ping_state i POTR_PING_STATE_UNDEFINED c"
  let ?e = "sync_tcp_service_path_state_locked ?d"
  have d: "conn_inv ?d pc" by (rule conn_inv_stay[OF assms(1) conn_ok_set_ping])
  then have t: "tcp_ctx ?d" by (simp add: conn_inv_def)
  have e: "conn_inv ?e pc" by (rule conn_inv_stay[OF d sync_synced(1)[OF t]])
  have fd: "\<not> t_conn_fd (c_tcp ?e) ! i" using e assms(2,3) by (auto simp: conn_inv_def)
  have al: "\<not> s_path_logical_alive (c_slot ?e) ! i" using sync_synced(2)[OF t] fd assms(2) by (auto simp: path_synced_def)
  have m: "conn_inv ?e (pc[i := Releasing])"
    by (rule conn_inv_move[OF e assms(2)]) (use e fd al assms(3) in \<open>auto simp: conn_inv_def\<close>)
  have "conn_ok ?e (drop_first_pkt i ?e)"
    unfolding drop_first_pkt_def by (rule conn_ok_silent) (simp_all add: upd_tcp_def ctx_frame_def)
  from conn_inv_stay[OF m this] m show ?thesis by (simp add: end_connection_def Let_def)
qed

lemma conn_inv_stop:
  assumes "decrypt_shortens E" "steady E R" "conn_inv c pc" "i < POTR_MAX_PATH" "pc ! i = Stopping"
  shows "conn_inv (stop_connected_threads E R i c) (pc[i := Syncing])"
proof -
  note k = conn_inv_close[OF assms(3), of i]
  let ?d = "stop_connected_threads E R i c"
  have ok: "conn_ok (close_tcp_conn i c) ?d" unfolding stop_connected_threads_def by (rule conn_ok_health_stop[OF assms(1,2)])
  have d: "conn_inv ?d pc" by (rule conn_inv_stay[OF k(1) ok])
  have "tcp_ctx (close_tcp_conn i c)" using k(1) by (simp add: conn_inv_def)
  then have fd: "\<not> t_conn_fd (c_tcp ?d) ! i" using conn_okD[OF ok] k(2)[OF assms(4)] by (simp add: conn_frame_def)
  show ?thesis by (rule conn_inv_move[OF d assms(4)]) (use d fd assms(5) in \<open>auto simp: conn_inv_def\<close>)
qed

lemma after_not_counted: "\<not> pc_counted (after_connection c i)" "\<not> pc_live (after_connection c i)" "\<not> pc_open (after_connection c i)"
  by (simp_all add: after_connection_def)

lemma not_counted:
  assumes "conn_inv c pc" "i < POTR_MAX_PATH" "\<not> pc_counted (pc ! i)"
  shows "\<not> t_conn_fd (c_tcp c) ! i" "\<not> s_path_logical_alive (c_slot c) ! i"
  using assms pc_open_live pc_live_counted by (simp_all add: conn_inv_def) blast+

text \<open>From one idle position of a loop to another.\<close>

lemma conn_inv_idle:
  assumes "conn_inv c pc" "i < POTR_MAX_PATH" "\<not> pc_counted (pc ! i)" "\<not> pc_counted q"
  shows "conn_inv c (pc[i := q])"
proof -
  show ?thesis
    by (rule conn_inv_move[OF assms(1,2)]) (use assms not_counted[OF assms(1,2,3)] in \<open>auto simp: conn_inv_def\<close>)
qed

lemma conn_inv_release:
  assumes "conn_inv c pc" "i < POTR_MAX_PATH" "pc ! i = Releasing" "\<not> pc_counted q"
  shows "conn_inv (add_active_paths (- 1) c) (pc[i := q])"
proof -
  have t: "tcp_ctx (add_active_paths (- 1) c)" using assms(1) by (simp add: add_active_paths_def tcp_ctx_upd conn_inv_def)
  have "\<not> t_conn_fd (c_tcp c) ! i" "\<not> s_path_logical_alive (c_slot c) ! i" using assms(1,2,3) by (auto simp: conn_inv_def)
  then show ?thesis
    by (intro conn_inv_move[OF assms(1,2) t]) (use assms in \<open>auto simp: conn_inv_def add_active_paths_def upd_tcp_def\<close>)
qed

text \<open>With no path counted, the application has been told that every path is down.\<close>

lemma none_active:
  assumes "conn_inv c pc" "t_active_paths (c_tcp c) = 0"
  shows "view_of (c_slot c) = view_start" "\<forall>k<POTR_MAX_PATH. \<not> t_conn_fd (c_tcp c) ! k"
proof -
  have "active_count pc = 0" using assms by (simp add: conn_inv_def)
  then have "filter pc_counted pc = []" by (simp add: active_count_def)
  then have none: "\<not> pc_counted (pc ! k)" if "k < POTR_MAX_PATH" for k
    using that assms(1) by (auto simp: conn_inv_def filter_empty_conv simp del: pc_counted.simps)
  show "\<forall>k<POTR_MAX_PATH. \<not> t_conn_fd (c_tcp c) ! k" using not_counted(1)[OF assms(1) _ none] by blast
  have dead: "\<forall>k<POTR_MAX_PATH. \<not> s_path_logical_alive (c_slot c) ! k" using not_counted(2)[OF assms(1) _ none] by blast
  have len: "length (s_path_logical_alive (c_slot c)) = POTR_MAX_PATH" using assms(1) by (simp add: conn_inv_def tcp_ctx_def ctx_inv_def slot_inv_def)
  have z: "s_path_logical_alive (c_slot c) = zero_path_states"
    by (rule nth_equalityI) (use dead len in \<open>simp_all add: zero_path_states_def\<close>)
  have "any_path_alive zero_path_states = False" by code_simp
  then show "view_of (c_slot c) = view_start" using z assms(1) by (simp add: conn_inv_def view_of_def view_start_def zero_path_states_def)
qed

lemma conn_inv_reset:
  assumes "conn_inv c pc"
  shows "conn_inv (reset_all_paths_disconnected c) pc"
proof (cases "t_active_paths (c_tcp c) = 0")
  case True
  let ?f = "\<lambda>st. (clear_connection st)
          \<lparr>s_send_window := restart_send_window (s_send_window st), s_send_has_data := False,
           s_remote_path_ping_state := replicate POTR_MAX_PATH 0,
           s_path_logical_alive := zero_path_states, s_health_alive := False\<rparr>"
  let ?d = "upd_slot c CtxSlot ?f"
  have v: "view_of (?f (c_slot c)) = view_of (c_slot c)"
    using none_active(1)[OF assms True] by (simp add: view_of_def view_start_def zero_path_states_def)
  have "conn_ok c ?d"
    by (rule conn_ok_local[OF local_step_upd conn_frame_upd])
      (use v in \<open>auto simp: clear_connection_def slot_inv_def zero_path_states_def\<close>)
  moreover have "conn_ok ?d (upd_tcp (\<lambda>t. t\<lparr>t_accepted_session_known := False\<rparr>) ?d)"
    by (rule conn_ok_silent) (simp_all add: upd_tcp_def ctx_frame_def)
  ultimately show ?thesis using True conn_inv_stay[OF assms conn_ok_trans] by (simp add: reset_all_paths_disconnected_def)
qed (use assms in \<open>simp add: reset_all_paths_disconnected_def\<close>)

text \<open>
  The reset itself reports nothing.  The invariant makes this right for the steps above; after a
  start that failed, which skips the synchronisation, a path that was up is taken down in silence.
\<close>

lemma reset_silent:
  assumes "t_active_paths (c_tcp c) = 0"
  shows "view_of (c_slot (reset_all_paths_disconnected c)) = view_start" "c_trace (reset_all_paths_disconnected c) = c_trace c"
  using assms by (simp_all add: reset_all_paths_disconnected_def upd_tcp_def upd_slot_def view_of_def view_start_def zero_path_states_def)

section \<open>Every interleaving\<close>

lemma conn_inv_step:
  assumes "decrypt_shortens E" "steady E R" "conn_step E R s s'" "conn_inv (fst s) (snd s)"
  shows "conn_inv (fst s') (snd s')"
  using assms(3,4)
proof (induction rule: conn_step.induct)
  case (connected i c pc run c')
  then show ?case using conn_inv_sender_publish[OF _ conn_inv_n _ conn_ok_attempt] by simp
next
  case (not_connected i c pc run c')
  have "conn_inv c' pc" by (rule conn_inv_stay[OF _ conn_ok_attempt]) (use not_connected in simp_all)
  then show ?case using conn_inv_idle[of c' pc i] not_connected conn_inv_n[of c pc i] after_not_counted by simp
next
  case (accepted i c pc peer_addr readable recv_all c')
  then show ?case using conn_inv_accept[of c pc i E _ c'] conn_inv_n[of c pc i]
    by (auto simp: accept_connection_def Let_def split: if_splits prod.splits)
next
  case (loop_ends i c pc)
  then show ?case using conn_inv_idle[of c pc i Ended] conn_inv_n[of c pc i] by simp
next
  case (started i c pc inputs c')
  have "conn_inv c' pc" by (rule conn_inv_stay[OF _ conn_ok_started[OF assms(1)]]) (use started in simp_all)
  then show ?case using conn_inv_move[of c' pc i c' Joining] started conn_inv_n[of c pc i] by (auto simp: conn_inv_def)
next
  case (joined i c pc)
  have "conn_inv (join_recv_thread E R i c) pc" by (rule conn_inv_stay[OF _ conn_ok_join_recv[OF assms(1,2)]]) (use joined in simp)
  then show ?case using conn_inv_move[of "join_recv_thread E R i c" pc i "join_recv_thread E R i c" Stopping] joined conn_inv_n[of c pc i]
    by (auto simp: conn_inv_def)
next
  case (stopped i c pc)
  then show ?case using conn_inv_stop[OF assms(1,2)] conn_inv_n[of c pc i] by simp
next
  case (synced i c pc)
  then show ?case using conn_inv_end conn_inv_n[of c pc i] by simp
next
  case (released i c pc c')
  have "\<not> pc_counted (if t_active_paths (c_tcp c') = 0 then Resetting else after_connection c' i)" using after_not_counted by simp
  from conn_inv_release[OF _ _ _ this] show ?case using released conn_inv_n[of c pc i] by simp
next
  case (reset i c pc)
  then show ?case using conn_inv_idle[OF conn_inv_reset] conn_inv_n[of c pc i] after_not_counted by simp
next
  case (pause_over i c pc)
  then show ?case using conn_inv_idle[of c pc i Connecting] conn_inv_n[of c pc i] by simp
next
  case (receives i c pc input c')
  then show ?case using conn_inv_stay[OF _ conn_ok_step[OF assms(1)]] by simp
next
  case (pings i c pc)
  then show ?case using conn_inv_stay[OF _ conn_ok_ping_now] by simp
next
  case (told_to_stop i c pc)
  have "conn_ok c (upd_tcp (\<lambda>t. t\<lparr>t_connect_thread_running := (t_connect_thread_running t)[i := False]\<rparr>) c)"
    by (rule conn_ok_silent) (simp_all add: upd_tcp_def ctx_frame_def)
  then show ?case using told_to_stop conn_inv_stay by simp
next
  case (shut_down i c pc)
  then show ?case using conn_inv_close(1) by simp
qed

text \<open>The start of a service with no connection.\<close>

definition conn_fresh :: "potr_context \<Rightarrow> bool" where
  "conn_fresh c \<longleftrightarrow> \<not> c_is_multi_peer c \<and> is_tcp_type (sd_type (c_service c)) \<and> c_n_path c \<le> POTR_MAX_PATH \<and>
     t_conn_fd (c_tcp c) = replicate POTR_MAX_PATH False \<and> t_active_paths (c_tcp c) = 0 \<and> view_of (c_slot c) = view_start"

lemma conn_inv_fresh:
  assumes "ctx_inv c" "conn_fresh c"
  shows "conn_inv c (replicate POTR_MAX_PATH Connecting)"
proof -
  have "any_path_alive (replicate 4 False) = False" by code_simp
  then show ?thesis using assms by (simp add: conn_inv_def conn_fresh_def tcp_ctx_def active_count_def view_of_def view_start_def)
qed

lemma conn_inv_steps:
  assumes "decrypt_shortens E" "steady E R" "(conn_step E R)\<^sup>*\<^sup>* s s'" "conn_inv (fst s) (snd s)"
  shows "conn_inv (fst s') (snd s')"
  using assms(3,4)
proof (induction rule: rtranclp_induct)
  case (step t u)
  show ?case by (rule conn_inv_step[OF assms(1,2) step.hyps(2) step.IH[OF step.prems]])
qed


section \<open>Witness\<close>

definition demo_client :: potr_context where
  "demo_client = demo_ctx\<lparr>c_role := POTR_ROLE_SENDER, c_service := demo_service\<lparr>sd_type := POTR_TYPE_TCP\<rparr>,
     c_tcp := (c_tcp demo_ctx)\<lparr>t_connect_thread_running := [True, True, False, False]\<rparr>\<rparr>"

definition idle_runtime :: runtime where
  "idle_runtime = \<lparr>rt_rest = (\<lambda>_ c. c), rt_malloc_ok = (\<lambda>_ _. True), rt_shutdown_keeps = (\<lambda>_. False), rt_peer_size = 1,
     rt_context_size = 1, rt_compress_header_size = 4\<rparr>"

definition demo_reachable :: cplat where
  "demo_reachable = demo_cplat\<lparr>sock_connect := (\<lambda>_ _. Connected)\<rparr>"

lemma demo_client_ok: "ctx_inv demo_client" "conn_fresh demo_client" "steady demo_reachable idle_runtime" "decrypt_shortens demo_reachable"
proof -
  have v: "view_at demo_client pid = view_start" for pid
    by (simp add: view_at_def peer_find_by_id_def find_peer_def demo_client_def demo_ctx_def slot_zero_def view_of_def view_start_def)
  show "ctx_inv demo_client" using demo_ctx_slot(2) v
    by (simp add: ctx_inv_def) (simp add: demo_client_def demo_ctx_def table_inv_def active_ids_def demo_global_def)
  show "conn_fresh demo_client"
    by (simp add: conn_fresh_def demo_client_def demo_ctx_def slot_zero_def view_of_def view_start_def demo_service_def)
  have "rx_run E [] c = c" for E c by (simp add: rx_run_def)
  then show "steady demo_reachable idle_runtime" unfolding steady_def idle_runtime_def
    by (auto intro!: exI[of _ "[]"] exI[of _ 0])
  show "decrypt_shortens demo_reachable" using demo_decrypt by (simp add: decrypt_shortens_def demo_reachable_def)
qed


end
