(* ===== verification/Config.thy ===== *)
theory Config
  imports Service_Open
begin

text \<open>
  The configuration file (\<^verbatim>\<open>protocol/config_load_global.c\<close>, \<^verbatim>\<open>config_load_service.c\<close>,
  \<^verbatim>\<open>config_list_service_ids.c\<close>, \<^verbatim>\<open>config_parse_common.h\<close>) and the two calls of the interface that read
  it (\<^verbatim>\<open>api/potr_service_open_from_config.c\<close>, \<^verbatim>\<open>potr_service_get_type.c\<close>).

  The JSON library, the number parsers, the key derivation and the allocator are not part of the
  program: they are the fields of \<^verbatim>\<open>cjson\<close> and \<^verbatim>\<open>config_env\<close>.  A result None stands for an
  execution that has no result: a write beyond a buffer, or a loop that does not end.
\<close>

section \<open>The code that is called\<close>

text \<open>
  A value of the JSON library: whether it is an object, the named members of an object in their
  order, the first member of a name, the text of a string, and the number of an exact integer.
\<close>

record 'j cjson =
  parse_jsonc :: "bytes \<Rightarrow> 'j option"
  is_object :: "'j \<Rightarrow> bool"
  members :: "'j \<Rightarrow> (string \<times> 'j) list"
  object_item :: "'j \<Rightarrow> string \<Rightarrow> 'j option"
  is_string :: "'j \<Rightarrow> bool"
  string_value :: "'j \<Rightarrow> string option"
  exact_int :: "'j \<Rightarrow> int option"

text \<open>
  A number parser is given the text, the base and what the result variable holds; it gives
  whether it succeeded and what the variable holds afterwards.
\<close>

record config_env =
  parse_uint8 :: "string \<Rightarrow> nat \<Rightarrow> u8 \<Rightarrow> bool \<times> u8"
  parse_uint16 :: "string \<Rightarrow> nat \<Rightarrow> u16 \<Rightarrow> bool \<times> u16"
  parse_uint32 :: "string \<Rightarrow> nat \<Rightarrow> u32 \<Rightarrow> bool \<times> u32"
  parse_int64 :: "string \<Rightarrow> nat \<Rightarrow> int option"
  passphrase_to_key :: "string \<Rightarrow> bytes option"
  text_malloc_ok :: bool
  text_realloc_ok :: "u64 \<Rightarrow> bool"
  ids_alloc_ok :: "int \<Rightarrow> bool"

text \<open>The files of the system: the strings that successive calls of fgets give.\<close>

type_synonym files = "string \<Rightarrow> bytes list option"

section \<open>Reading the file\<close>

abbreviation (input) SIZE_MAX :: u64 where "SIZE_MAX \<equiv> - 1"

abbreviation (input) CHUNK_SIZE :: nat where "CHUNK_SIZE \<equiv> 1024"

fun grow_capacity :: "nat \<Rightarrow> u64 \<Rightarrow> u64 \<Rightarrow> (potr_result + u64) option" where
  "grow_capacity 0 need capacity = None"
| "grow_capacity (Suc fuel) need capacity =
    (if \<not> capacity < need then Some (Inr capacity)
     else if capacity > SIZE_MAX div 2 then Some (Inl POTR_ERR_OUT_OF_MEMORY)
     else grow_capacity fuel need (capacity * 2))"

definition copy_text :: "bytes \<Rightarrow> bytes \<Rightarrow> u64 \<Rightarrow> (potr_result + bytes \<times> u64) option" where
  "copy_text text chunk capacity =
    (if length text + length chunk \<le> unat capacity then Some (Inr (text @ chunk, capacity)) else None)"

definition read_chunk :: "config_env \<Rightarrow> bytes \<Rightarrow> bytes \<times> u64 \<Rightarrow> (potr_result + bytes \<times> u64) option" where
  "read_chunk C chunk = (\<lambda>(text, capacity).
    (let size = of_nat (length chunk); len = of_nat (length text)
     in if size > SIZE_MAX - len - 1 then Some (Inl POTR_ERR_OUT_OF_MEMORY)
        else if len + size + 1 > capacity then
          (case grow_capacity 64 (len + size + 1) capacity of
             None \<Rightarrow> None
           | Some (Inl e) \<Rightarrow> Some (Inl e)
           | Some (Inr new_capacity) \<Rightarrow>
               if text_realloc_ok C new_capacity then copy_text text chunk new_capacity else Some (Inl POTR_ERR_OUT_OF_MEMORY))
        else copy_text text chunk capacity))"

fun read_chunks :: "config_env \<Rightarrow> bytes list \<Rightarrow> bytes \<times> u64 \<Rightarrow> (potr_result + bytes \<times> u64) option" where
  "read_chunks C [] s = Some (Inr s)"
| "read_chunks C (chunk # chunks) s =
    (case read_chunk C chunk s of
       Some (Inr s') \<Rightarrow> read_chunks C chunks s'
     | r \<Rightarrow> r)"

text \<open>The terminator is written at the end of the text.\<close>

definition config_read_jsonc :: "config_env \<Rightarrow> 'j cjson \<Rightarrow> files \<Rightarrow> string \<Rightarrow> (potr_result + 'j) option" where
  "config_read_jsonc C J fs path =
    (case fs path of
       None \<Rightarrow> Some (Inl POTR_ERR_IO)
     | Some chunks \<Rightarrow>
         if \<not> text_malloc_ok C then Some (Inl POTR_ERR_OUT_OF_MEMORY)
         else case read_chunks C chunks ([], of_nat CHUNK_SIZE) of
           None \<Rightarrow> None
         | Some (Inl e) \<Rightarrow> Some (Inl e)
         | Some (Inr (text, capacity)) \<Rightarrow>
             if \<not> length text < unat capacity then None
             else case parse_jsonc J text of
               None \<Rightarrow> Some (Inl POTR_ERR_INVALID_ARGUMENT)
             | Some root \<Rightarrow> if is_object J root then Some (Inr root) else Some (Inl POTR_ERR_INVALID_ARGUMENT))"

text \<open>A number as decimal text.\<close>

fun nat_text :: "nat \<Rightarrow> string" where
  "nat_text n = (if n < 10 then [char_of (48 + n)] else nat_text (n div 10) @ [char_of (48 + n mod 10)])"

definition int_text :: "int \<Rightarrow> string" where
  "int_text k = (if k < 0 then ''-'' @ nat_text (nat (- k)) else nat_text (nat k))"

definition config_value_text :: "'j cjson \<Rightarrow> 'j \<Rightarrow> string option" where
  "config_value_text J item = (if is_string J item then string_value J item else map_option int_text (exact_int J item))"

section \<open>The global settings\<close>

definition config_set_global_defaults :: potr_global_config where
  "config_set_global_defaults =
    \<lparr>gc_window_size = 16, gc_max_payload = 1400, gc_reorder_timeout_ms = 0, gc_max_message_size = 65535,
     gc_send_queue_depth = 1024, gc_udp_health_interval_ms = 3000, gc_udp_health_timeout_ms = 10000,
     gc_tcp_health_interval_ms = 10000, gc_tcp_health_timeout_ms = 31000, gc_tcp_close_timeout_ms = 5000\<rparr>"

definition apply_global_kv :: "config_env \<Rightarrow> string \<Rightarrow> string \<Rightarrow> potr_global_config \<Rightarrow> potr_global_config" where
  "apply_global_kv C key val g =
    (if key = ''window_size'' then g\<lparr>gc_window_size := snd (parse_uint16 C val 10 (gc_window_size g))\<rparr>
     else if key = ''max_payload'' then g\<lparr>gc_max_payload := snd (parse_uint16 C val 10 (gc_max_payload g))\<rparr>
     else if key = ''udp_health_interval_ms'' then g\<lparr>gc_udp_health_interval_ms := snd (parse_uint32 C val 10 (gc_udp_health_interval_ms g))\<rparr>
     else if key = ''udp_health_timeout_ms'' then g\<lparr>gc_udp_health_timeout_ms := snd (parse_uint32 C val 10 (gc_udp_health_timeout_ms g))\<rparr>
     else if key = ''tcp_health_interval_ms'' then g\<lparr>gc_tcp_health_interval_ms := snd (parse_uint32 C val 10 (gc_tcp_health_interval_ms g))\<rparr>
     else if key = ''tcp_health_timeout_ms'' then g\<lparr>gc_tcp_health_timeout_ms := snd (parse_uint32 C val 10 (gc_tcp_health_timeout_ms g))\<rparr>
     else if key = ''tcp_close_timeout_ms'' then g\<lparr>gc_tcp_close_timeout_ms := snd (parse_uint32 C val 10 (gc_tcp_close_timeout_ms g))\<rparr>
     else if key = ''reorder_timeout_ms'' then g\<lparr>gc_reorder_timeout_ms := snd (parse_uint32 C val 10 (gc_reorder_timeout_ms g))\<rparr>
     else if key = ''max_message_size'' then g\<lparr>gc_max_message_size := snd (parse_uint32 C val 10 (gc_max_message_size g))\<rparr>
     else if key = ''send_queue_depth'' then g\<lparr>gc_send_queue_depth := snd (parse_uint32 C val 10 (gc_send_queue_depth g))\<rparr>
     else g)"

text \<open>The members of an object in turn; a missing object has none.\<close>

definition apply_members :: "'j cjson \<Rightarrow> (string \<Rightarrow> string \<Rightarrow> 'a \<Rightarrow> 'a) \<Rightarrow> 'j option \<Rightarrow> 'a \<Rightarrow> 'a" where
  "apply_members J f obj x =
    fold (\<lambda>(key, item) x. case config_value_text J item of None \<Rightarrow> x | Some val \<Rightarrow> f key val x)
      (case obj of None \<Rightarrow> [] | Some ob \<Rightarrow> members J ob) x"

definition potr_internal_config_load_global ::
  "config_env \<Rightarrow> 'j cjson \<Rightarrow> files \<Rightarrow> string option \<Rightarrow> bool \<Rightarrow> (potr_result + potr_global_config) option" where
  "potr_internal_config_load_global C J fs config_path out =
    (case config_path of
       None \<Rightarrow> Some (Inl POTR_ERR_INVALID_ARGUMENT)
     | Some path \<Rightarrow>
         if \<not> out then Some (Inl POTR_ERR_INVALID_ARGUMENT)
         else case config_read_jsonc C J fs path of
           None \<Rightarrow> None
         | Some (Inl e) \<Rightarrow> Some (Inl e)
         | Some (Inr root) \<Rightarrow>
             (let global_object = object_item J root ''global''
              in if (case global_object of None \<Rightarrow> False | Some ob \<Rightarrow> \<not> is_object J ob) then Some (Inl POTR_ERR_INVALID_ARGUMENT)
                 else Some (Inr (apply_members J (apply_global_kv C) global_object config_set_global_defaults))))"

section \<open>A service\<close>

text \<open>
  A service as it is loaded: the type is zero, which is no communication type, until the file
  gives one.
\<close>

record loaded_service = potr_service_def +
  sd_type_set :: bool

abbreviation (input) POTR_MAX_ADDR_LEN :: nat where "POTR_MAX_ADDR_LEN \<equiv> 64"

definition copy_cstr_trunc :: "nat \<Rightarrow> string \<Rightarrow> string" where
  "copy_cstr_trunc dst_size src = take (if length src \<ge> dst_size then dst_size - 1 else length src) src"

definition type_names :: "(string \<times> potr_type) list" where
  "type_names =
    [(''unicast_raw'', POTR_TYPE_UNICAST_RAW), (''multicast_raw'', POTR_TYPE_MULTICAST_RAW),
     (''broadcast_raw'', POTR_TYPE_BROADCAST_RAW), (''unicast'', POTR_TYPE_UNICAST), (''multicast'', POTR_TYPE_MULTICAST),
     (''broadcast'', POTR_TYPE_BROADCAST), (''unicast_bidir'', POTR_TYPE_UNICAST_BIDIR),
     (''unicast_bidir_n1'', POTR_TYPE_UNICAST_BIDIR_N1), (''tcp'', POTR_TYPE_TCP), (''tcp_bidir'', POTR_TYPE_TCP_BIDIR)]"

definition isxdigit :: "char \<Rightarrow> bool" where
  "isxdigit ch = (let n = of_char ch :: nat in 48 \<le> n \<and> n \<le> 57 \<or> 65 \<le> n \<and> n \<le> 70 \<or> 97 \<le> n \<and> n \<le> 102)"

definition hex_byte :: "config_env \<Rightarrow> string \<Rightarrow> nat \<Rightarrow> bytes \<Rightarrow> bytes" where
  "hex_byte C val i key =
    (case parse_int64 C [val ! (i * 2), val ! (i * 2 + 1)] 16 of Some byte_val \<Rightarrow> key[i := of_int byte_val] | None \<Rightarrow> key)"

definition load_encrypt_key :: "config_env \<Rightarrow> string \<Rightarrow> loaded_service \<Rightarrow> loaded_service" where
  "load_encrypt_key C val current =
    (let hex_len = length val; is_hex = (hex_len = POTR_CRYPTO_KEY_SIZE * 2 \<and> list_all isxdigit val);
         erased = current\<lparr>sd_encrypt_key := replicate POTR_CRYPTO_KEY_SIZE 0, sd_encrypt_enabled := False\<rparr>
     in if is_hex then
          current\<lparr>sd_encrypt_key := fold (hex_byte C val) [0..<POTR_CRYPTO_KEY_SIZE] (sd_encrypt_key current), sd_encrypt_enabled := True\<rparr>
        else if hex_len > 0 then
          (case passphrase_to_key C val of
             Some key \<Rightarrow> current\<lparr>sd_encrypt_key := key, sd_encrypt_enabled := True\<rparr>
           | None \<Rightarrow> erased)
        else erased)"

text \<open>The path of a key that ends in one digit from 1 to 4.\<close>

definition addr_index :: "string \<Rightarrow> nat option" where
  "addr_index key = (case drop 8 key of [ch] \<Rightarrow> if 49 \<le> (of_char ch :: nat) \<and> (of_char ch :: nat) \<le> 52 then Some (of_char ch - 49) else None | _ \<Rightarrow> None)"

definition apply_service_kv :: "config_env \<Rightarrow> string \<Rightarrow> string \<Rightarrow> loaded_service \<Rightarrow> loaded_service" where
  "apply_service_kv C key val s =
    (if key = ''type'' then (case map_of type_names val of Some t \<Rightarrow> s\<lparr>sd_type := t, sd_type_set := True\<rparr> | None \<Rightarrow> s)
     else if key = ''dst_port'' then s\<lparr>sd_dst_port := snd (parse_uint16 C val 10 (sd_dst_port s))\<rparr>
     else if key = ''src_port'' then s\<lparr>sd_src_port := snd (parse_uint16 C val 10 (sd_src_port s))\<rparr>
     else if key = ''multicast_group'' then s\<lparr>sd_multicast_group := copy_cstr_trunc POTR_MAX_ADDR_LEN val\<rparr>
     else if key = ''ttl'' then s\<lparr>sd_ttl := snd (parse_uint8 C val 10 (sd_ttl s))\<rparr>
     else if key = ''broadcast_addr'' then s\<lparr>sd_broadcast_addr := copy_cstr_trunc POTR_MAX_ADDR_LEN val\<rparr>
     else if take 8 key = ''src_addr'' then
       (case addr_index key of None \<Rightarrow> s
        | Some idx \<Rightarrow> s\<lparr>sd_src_addr := (sd_src_addr s)[idx := copy_cstr_trunc POTR_MAX_ADDR_LEN val]\<rparr>)
     else if take 8 key = ''dst_addr'' then
       (case addr_index key of None \<Rightarrow> s
        | Some idx \<Rightarrow> s\<lparr>sd_dst_addr := (sd_dst_addr s)[idx := copy_cstr_trunc POTR_MAX_ADDR_LEN val]\<rparr>)
     else if key = ''pack_wait_ms'' then s\<lparr>sd_pack_wait_ms := snd (parse_uint32 C val 10 (sd_pack_wait_ms s))\<rparr>
     else if key = ''max_peers'' then
       (let (ok, parsed) = parse_uint32 C val 10 0 in if ok \<and> parsed > 0 then s\<lparr>sd_max_peers := parsed\<rparr> else s)
     else if key = ''health_interval_ms'' then s\<lparr>sd_health_interval_ms := snd (parse_uint32 C val 10 (sd_health_interval_ms s))\<rparr>
     else if key = ''health_timeout_ms'' then s\<lparr>sd_health_timeout_ms := snd (parse_uint32 C val 10 (sd_health_timeout_ms s))\<rparr>
     else if key = ''reconnect_interval_ms'' then s\<lparr>sd_reconnect_interval_ms := snd (parse_uint32 C val 10 (sd_reconnect_interval_ms s))\<rparr>
     else if key = ''connect_timeout_ms'' then
       (let (ok, parsed) = parse_uint32 C val 10 0 in if ok then s\<lparr>sd_connect_timeout_ms := parsed\<rparr> else s)
     else if key = ''encrypt_key'' then load_encrypt_key C val s
     else s)"

definition service_defaults :: "u64 \<Rightarrow> loaded_service" where
  "service_defaults sid =
    \<lparr>sd_service_id = sid, sd_type = POTR_TYPE_UNICAST_RAW, sd_dst_port = 0, sd_src_port = 0, sd_ttl = 1, sd_pack_wait_ms = 0,
     sd_multicast_group = [], sd_broadcast_addr = [], sd_src_addr = replicate POTR_MAX_PATH [], sd_dst_addr = replicate POTR_MAX_PATH [],
     sd_encrypt_key = replicate POTR_CRYPTO_KEY_SIZE 0, sd_encrypt_enabled = False, sd_max_peers = 1024, sd_health_interval_ms = 0,
     sd_health_timeout_ms = 0, sd_reconnect_interval_ms = 5000, sd_connect_timeout_ms = 10000, sd_type_set = False\<rparr>"

definition potr_internal_config_load_service ::
  "config_env \<Rightarrow> 'j cjson \<Rightarrow> files \<Rightarrow> string option \<Rightarrow> u64 \<Rightarrow> bool \<Rightarrow> (potr_result + loaded_service) option" where
  "potr_internal_config_load_service C J fs config_path sid out =
    (case config_path of
       None \<Rightarrow> Some (Inl POTR_ERR_INVALID_ARGUMENT)
     | Some path \<Rightarrow>
         if \<not> out then Some (Inl POTR_ERR_INVALID_ARGUMENT)
         else case config_read_jsonc C J fs path of
           None \<Rightarrow> None
         | Some (Inl e) \<Rightarrow> Some (Inl e)
         | Some (Inr root) \<Rightarrow>
             (let services = object_item J root ''services''
              in if (case services of None \<Rightarrow> False | Some ob \<Rightarrow> \<not> is_object J ob) then Some (Inl POTR_ERR_INVALID_ARGUMENT)
                 else case Option.bind services (\<lambda>ob. object_item J ob (int_text (sint sid))) of
                   None \<Rightarrow> Some (Inl POTR_ERR_NOT_FOUND)
                 | Some service \<Rightarrow>
                     if \<not> is_object J service then Some (Inl POTR_ERR_INVALID_ARGUMENT)
                     else Some (Inr (apply_members J (apply_service_kv C) (Some service) (service_defaults sid)))))"

section \<open>The identifiers\<close>

abbreviation (input) POTR_MAX_SERVICES :: int where "POTR_MAX_SERVICES \<equiv> 64"

fun list_ids :: "config_env \<Rightarrow> 'j cjson \<Rightarrow> (string \<times> 'j) list \<Rightarrow> u64 list \<Rightarrow> int \<Rightarrow> potr_result + u64 list" where
  "list_ids C J [] ids capacity = Inr ids"
| "list_ids C J ((name, service) # rest) ids capacity =
    (case parse_int64 C name 10 of
       None \<Rightarrow> list_ids C J rest ids capacity
     | Some parsed_id \<Rightarrow>
         if \<not> is_object J service then list_ids C J rest ids capacity
         else if int (length ids) \<ge> capacity then
           (if ids_alloc_ok C (capacity * 2) then list_ids C J rest (ids @ [of_int parsed_id]) (capacity * 2)
            else Inl POTR_ERR_OUT_OF_MEMORY)
         else list_ids C J rest (ids @ [of_int parsed_id]) capacity)"

definition potr_internal_config_list_service_ids ::
  "config_env \<Rightarrow> 'j cjson \<Rightarrow> files \<Rightarrow> string option \<Rightarrow> bool \<Rightarrow> bool \<Rightarrow> (potr_result + u64 list) option" where
  "potr_internal_config_list_service_ids C J fs config_path ids_out count_out =
    (case config_path of
       None \<Rightarrow> Some (Inl POTR_ERR_INVALID_ARGUMENT)
     | Some path \<Rightarrow>
         if \<not> ids_out \<or> \<not> count_out then Some (Inl POTR_ERR_INVALID_ARGUMENT)
         else case config_read_jsonc C J fs path of
           None \<Rightarrow> None
         | Some (Inl e) \<Rightarrow> Some (Inl e)
         | Some (Inr root) \<Rightarrow>
             (let services = object_item J root ''services''
              in if (case services of None \<Rightarrow> False | Some ob \<Rightarrow> \<not> is_object J ob) then Some (Inl POTR_ERR_INVALID_ARGUMENT)
                 else if \<not> ids_alloc_ok C POTR_MAX_SERVICES then Some (Inl POTR_ERR_OUT_OF_MEMORY)
                 else Some (list_ids C J (case services of None \<Rightarrow> [] | Some ob \<Rightarrow> members J ob) [] POTR_MAX_SERVICES)))"

section \<open>The calls of the interface\<close>

text \<open>The type; None is the zero of a service without one.\<close>

definition potr_service_get_type ::
  "config_env \<Rightarrow> 'j cjson \<Rightarrow> files \<Rightarrow> string option \<Rightarrow> u64 \<Rightarrow> bool \<Rightarrow> (potr_result + potr_type option) option" where
  "potr_service_get_type C J fs config_path sid out =
    (if config_path = None \<or> \<not> out then Some (Inl POTR_ERR_INVALID_ARGUMENT)
     else case potr_internal_config_load_service C J fs config_path sid True of
       None \<Rightarrow> None
     | Some (Inl r) \<Rightarrow> Some (Inl r)
     | Some (Inr def) \<Rightarrow> Some (Inr (if sd_type_set def then Some (sd_type def) else None)))"

text \<open>
  The file is read twice, so its two readings are two arguments.  A service without a type is
  handed on as it is: \<^verbatim>\<open>potr_service_open\<close> is modelled for the communication types only.
\<close>

datatype config_outcome =
    Not_loaded potr_result
  | No_type loaded_service
  | Loaded open_outcome

definition potr_service_open_from_config ::
  "config_env \<Rightarrow> 'j cjson \<Rightarrow> files \<Rightarrow> files \<Rightarrow> cplat \<Rightarrow> runtime \<Rightarrow> nat \<Rightarrow> string option \<Rightarrow> u64 \<Rightarrow> potr_role \<Rightarrow> bool \<Rightarrow> bool \<Rightarrow> config_outcome option" where
  "potr_service_open_from_config C J fs fs' E R tick config_path sid role callback handle =
    (if config_path = None \<or> \<not> handle then Some (Not_loaded POTR_ERR_INVALID_ARGUMENT)
     else case potr_internal_config_load_global C J fs config_path True of
       None \<Rightarrow> None
     | Some (Inl r) \<Rightarrow> Some (Not_loaded r)
     | Some (Inr global) \<Rightarrow>
         case potr_internal_config_load_service C J fs' config_path sid True of
           None \<Rightarrow> None
         | Some (Inl r) \<Rightarrow> Some (Not_loaded r)
         | Some (Inr service) \<Rightarrow>
             if \<not> sd_type_set service then Some (No_type service)
             else Some (Loaded (potr_service_open E R tick (Some global) (Some (potr_service_def.truncate service)) role callback handle)))"

section \<open>The text of the file\<close>

definition fgets_ok :: "files \<Rightarrow> bool" where
  "fgets_ok fs \<longleftrightarrow> (\<forall>path chunks. fs path = Some chunks \<longrightarrow> list_all (\<lambda>chunk. length chunk < CHUNK_SIZE) chunks)"

lemma half_max: "(SIZE_MAX :: u64) div 2 = 0x7FFFFFFFFFFFFFFF"
  by code_simp

lemma double_capacity:
  assumes "\<not> (capacity :: u64) > SIZE_MAX div 2"
  shows "unat (capacity * 2) = 2 * unat capacity"
proof -
  have "unat capacity < 2 ^ 63" using assms unfolding half_max by (simp add: word_less_nat_alt)
  then show ?thesis by (simp add: unat_word_ariths(2))
qed

text \<open>The capacity doubles at most 53 times before it is large enough or the memory ends.\<close>

lemma grow_capacity_ends:
  assumes "2 ^ 63 \<le> unat capacity * 2 ^ n"
  shows "(\<exists>e. e \<noteq> POTR_OK \<and> grow_capacity (Suc n) need capacity = Some (Inl e)) \<or>
    (\<exists>c. grow_capacity (Suc n) need capacity = Some (Inr c) \<and> need \<le> c \<and> capacity \<le> c)"
  using assms
proof (induction n arbitrary: capacity)
  case 0
  then have "capacity > SIZE_MAX div 2" unfolding half_max by (simp add: word_less_nat_alt)
  then show ?case by (simp add: not_less)
next
  case (Suc n)
  show ?case
  proof (cases "\<not> capacity < need \<or> capacity > SIZE_MAX div 2")
    case True
    then show ?thesis by (auto simp: not_less)
  next
    case False
    then have d: "unat (capacity * 2) = 2 * unat capacity" using double_capacity by blast
    then have "capacity \<le> capacity * 2" by (simp add: word_le_nat_alt)
    moreover have "2 ^ 63 \<le> unat (capacity * 2) * 2 ^ n" using Suc.prems d by simp
    ultimately show ?thesis using Suc.IH[of "capacity * 2"] False order_trans by (auto simp del: grow_capacity.simps(2) simp: grow_capacity.simps(2)[of "Suc n"])
  qed
qed

lemma grow_64:
  assumes "of_nat CHUNK_SIZE \<le> capacity"
  shows "(\<exists>e. e \<noteq> POTR_OK \<and> grow_capacity 64 need capacity = Some (Inl e)) \<or>
    (\<exists>c. grow_capacity 64 need capacity = Some (Inr c) \<and> need \<le> c \<and> of_nat CHUNK_SIZE \<le> c)"
proof -
  have "1024 \<le> unat capacity" using assms by (simp add: word_le_nat_alt)
  then have "2 ^ 63 \<le> unat capacity * 2 ^ 63" by simp
  from grow_capacity_ends[OF this, of need] assms show ?thesis using order_trans by (fastforce simp del: grow_capacity.simps)
qed

text \<open>The text has room for its terminator after every part.\<close>

definition text_ok :: "bytes \<times> u64 \<Rightarrow> bool" where
  "text_ok s \<longleftrightarrow> length (fst s) < unat (snd s) \<and> of_nat CHUNK_SIZE \<le> snd s"

lemma read_chunk_ok:
  assumes "text_ok (text, capacity)" "length chunk < CHUNK_SIZE"
  shows "(\<exists>e. e \<noteq> POTR_OK \<and> read_chunk C chunk (text, capacity) = Some (Inl e)) \<or>
    (\<exists>c. read_chunk C chunk (text, capacity) = Some (Inr (text @ chunk, c)) \<and> text_ok (text @ chunk, c))"
proof -
  let ?size = "of_nat (length chunk) :: u64" and ?len = "of_nat (length text) :: u64"
  have tl: "length text < 2 ^ 64" using assms(1) unsigned_less[of capacity, where 'a = nat] by (simp add: text_ok_def)
  have l: "unat ?len = length text" "unat ?size = length chunk" using tl assms(2) by (simp_all add: unat_of_nat)
  have max: "unat (SIZE_MAX :: u64) = 2 ^ 64 - 1" by code_simp
  have len_max: "unat ?len < unat (SIZE_MAX :: u64)"
    using assms(1) l(1) word_le_nat_alt[of capacity SIZE_MAX] by (simp add: text_ok_def)
  show ?thesis
  proof (cases "?size > SIZE_MAX - ?len - 1")
    case True
    then show ?thesis by (auto simp: read_chunk_def Let_def)
  next
    case False
    have "unat (SIZE_MAX - ?len - 1) = 2 ^ 64 - 2 - length text"
      using len_max l(1) by (simp add: unat_sub_if' max)
    then have sum: "length text + length chunk + 1 < 2 ^ 64" using False l(2) len_max l(1) by (simp add: word_less_nat_alt max)
    then have need: "unat (?len + ?size + 1) = length text + length chunk + 1"
      by (simp add: unat_word_ariths(1) l)
    have copy: "copy_text text chunk c = Some (Inr (text @ chunk, c)) \<and> text_ok (text @ chunk, c)"
      if "?len + ?size + 1 \<le> c" "of_nat CHUNK_SIZE \<le> c" for c
      using that need by (simp add: copy_text_def text_ok_def word_le_nat_alt)
    show ?thesis
    proof (cases "?len + ?size + 1 > capacity")
      case True
      then show ?thesis using grow_64[of capacity "?len + ?size + 1"] copy False assms(1)
        by (auto simp: read_chunk_def Let_def text_ok_def[of "(text, capacity)"])
    next
      case F: False
      then show ?thesis using copy[of capacity] False assms(1) by (auto simp: read_chunk_def Let_def text_ok_def[of "(text, capacity)"])
    qed
  qed
qed

lemma read_chunks_ok:
  assumes "text_ok (text, capacity)" "list_all (\<lambda>chunk. length chunk < CHUNK_SIZE) chunks"
  shows "(\<exists>e. e \<noteq> POTR_OK \<and> read_chunks C chunks (text, capacity) = Some (Inl e)) \<or>
    (\<exists>c. read_chunks C chunks (text, capacity) = Some (Inr (text @ concat chunks, c)) \<and> text_ok (text @ concat chunks, c))"
  using assms
proof (induction chunks arbitrary: "text" capacity)
  case (Cons chunk chunks)
  have l: "length chunk < CHUNK_SIZE" "list_all (\<lambda>chunk. length chunk < CHUNK_SIZE) chunks" using Cons.prems(2) by simp_all
  from read_chunk_ok[OF Cons.prems(1) l(1), of C] show ?case
  proof
    assume "\<exists>c. read_chunk C chunk (text, capacity) = Some (Inr (text @ chunk, c)) \<and> text_ok (text @ chunk, c)"
    then obtain c where "read_chunk C chunk (text, capacity) = Some (Inr (text @ chunk, c))" "text_ok (text @ chunk, c)" by blast
    then show ?thesis using Cons.IH[OF _ l(2), of "text @ chunk" c] by simp
  qed auto
qed simp

lemma config_read_ok:
  assumes "fgets_ok fs"
  shows "(\<exists>e. e \<noteq> POTR_OK \<and> config_read_jsonc C J fs path = Some (Inl e)) \<or>
    (\<exists>root chunks. config_read_jsonc C J fs path = Some (Inr root) \<and> fs path = Some chunks \<and>
       parse_jsonc J (concat chunks) = Some root \<and> is_object J root)"
proof (cases "fs path")
  case (Some chunks)
  then have l: "list_all (\<lambda>chunk. length chunk < CHUNK_SIZE) chunks" using assms by (simp add: fgets_ok_def)
  have "text_ok ([], of_nat CHUNK_SIZE)" by (simp add: text_ok_def)
  from read_chunks_ok[OF this l, of C] show ?thesis using Some
    by (auto simp: config_read_jsonc_def text_ok_def split: option.split)
qed (simp add: config_read_jsonc_def)

section \<open>The fields of a service\<close>

definition key_size_ok :: "config_env \<Rightarrow> bool" where
  "key_size_ok C \<longleftrightarrow> (\<forall>val key. passphrase_to_key C val = Some key \<longrightarrow> length key = POTR_CRYPTO_KEY_SIZE)"

text \<open>What the fields of a loaded service hold, whatever the file says.\<close>

definition service_ok :: "loaded_service \<Rightarrow> bool" where
  "service_ok s \<longleftrightarrow> length (sd_multicast_group s) < POTR_MAX_ADDR_LEN \<and> length (sd_broadcast_addr s) < POTR_MAX_ADDR_LEN \<and>
     length (sd_src_addr s) = POTR_MAX_PATH \<and> length (sd_dst_addr s) = POTR_MAX_PATH \<and>
     list_all (\<lambda>addr. length addr < POTR_MAX_ADDR_LEN) (sd_src_addr s) \<and> list_all (\<lambda>addr. length addr < POTR_MAX_ADDR_LEN) (sd_dst_addr s) \<and>
     length (sd_encrypt_key s) = POTR_CRYPTO_KEY_SIZE \<and> (\<not> sd_encrypt_enabled s \<longrightarrow> sd_encrypt_key s = replicate POTR_CRYPTO_KEY_SIZE 0) \<and>
     0 < sd_max_peers s"

lemma copy_cstr_fits: "length (copy_cstr_trunc POTR_MAX_ADDR_LEN src) < POTR_MAX_ADDR_LEN"
  by (simp add: copy_cstr_trunc_def)

lemma list_all_update: "list_all P xs \<Longrightarrow> P y \<Longrightarrow> list_all P (xs[i := y])"
  by (auto simp: list_all_iff dest: set_update_subset_insert[THEN subsetD])

lemma load_key_ok:
  assumes "key_size_ok C" "service_ok s"
  shows "service_ok (load_encrypt_key C val s) \<and> sd_service_id (load_encrypt_key C val s) = sd_service_id s"
proof -
  have "length (fold (hex_byte C val) is key) = length key" for "is" key
    by (induction "is" arbitrary: key) (simp_all add: hex_byte_def split: option.split)
  then show ?thesis using assms by (auto simp: load_encrypt_key_def Let_def service_ok_def key_size_ok_def split: option.split)
qed

lemma service_kv_ok:
  assumes "key_size_ok C" "service_ok s"
  shows "service_ok (apply_service_kv C key val s) \<and> sd_service_id (apply_service_kv C key val s) = sd_service_id s"
proof -
  note k = load_key_ok[OF assms, of val]
  have a: "list_all (\<lambda>addr. length addr < POTR_MAX_ADDR_LEN) (xs[i := copy_cstr_trunc POTR_MAX_ADDR_LEN val])"
    if "list_all (\<lambda>addr. length addr < POTR_MAX_ADDR_LEN) xs" for xs i
    by (rule list_all_update[OF that copy_cstr_fits])
  show ?thesis unfolding apply_service_kv_def
    using k assms(2) by (simp split: if_split option.split prod.split add: Let_def) (auto simp: service_ok_def copy_cstr_fits a)
qed

lemma members_ok:
  assumes "key_size_ok C" "service_ok s"
  shows "service_ok (apply_members J (apply_service_kv C) obj s) \<and> sd_service_id (apply_members J (apply_service_kv C) obj s) = sd_service_id s"
proof -
  have "service_ok (fold (\<lambda>(key, item) x. case config_value_text J item of None \<Rightarrow> x | Some val \<Rightarrow> apply_service_kv C key val x) ms s) \<and>
      sd_service_id (fold (\<lambda>(key, item) x. case config_value_text J item of None \<Rightarrow> x | Some val \<Rightarrow> apply_service_kv C key val x) ms s) =
      sd_service_id s" if "service_ok s" for ms s
    using that
  proof (induction ms arbitrary: s)
    case (Cons m ms)
    obtain key item where m: "m = (key, item)" by fastforce
    show ?case using Cons service_kv_ok[OF assms(1)] by (cases "config_value_text J item") (simp_all add: m)
  qed simp
  then show ?thesis using assms(2) by (simp add: apply_members_def)
qed

lemma defaults_ok: "service_ok (service_defaults sid)" "sd_service_id (service_defaults sid) = sid"
  by (simp_all add: service_ok_def service_defaults_def list_all_iff)

text \<open>
  C39: Loading a service from a configuration file, whatever the file holds.  The call always ends,
  within its buffers: the text that is parsed is the whole file, in a buffer with room for the
  terminator.  It gives an error, or a service of the requested identifier whose addresses fit their
  fields with a terminator, whose key has the size of the cipher, is all zero unless encryption is
  on, and whose table of peers is not empty; the query of the type gives the same error, or the type
  of this service.
\<close>

theorem config_service_loaded:
  assumes "fgets_ok fs" "key_size_ok C"
  shows "case potr_internal_config_load_service C J fs (Some path) sid True of
      None \<Rightarrow> False
    | Some (Inl e) \<Rightarrow> e \<noteq> POTR_OK \<and> potr_service_get_type C J fs (Some path) sid True = Some (Inl e)
    | Some (Inr s) \<Rightarrow> service_ok s \<and> sd_service_id s = sid \<and>
        (\<exists>chunks root. fs path = Some chunks \<and> parse_jsonc J (concat chunks) = Some root \<and> is_object J root) \<and>
        potr_service_get_type C J fs (Some path) sid True = Some (Inr (if sd_type_set s then Some (sd_type s) else None))"
  using config_read_ok[OF assms(1), of C J path]
proof
  assume "\<exists>e. e \<noteq> POTR_OK \<and> config_read_jsonc C J fs path = Some (Inl e)"
  then show ?thesis by (auto simp: potr_internal_config_load_service_def potr_service_get_type_def)
next
  assume "\<exists>root chunks. config_read_jsonc C J fs path = Some (Inr root) \<and> fs path = Some chunks \<and>
       parse_jsonc J (concat chunks) = Some root \<and> is_object J root"
  then obtain root chunks where r: "config_read_jsonc C J fs path = Some (Inr root)"
    "fs path = Some chunks" "parse_jsonc J (concat chunks) = Some root" "is_object J root" by blast
  have m: "service_ok (apply_members J (apply_service_kv C) ob (service_defaults sid))"
    "sd_service_id (apply_members J (apply_service_kv C) ob (service_defaults sid)) = sid" for ob
    using members_ok[OF assms(2) defaults_ok(1), of J ob sid] defaults_ok(2) by simp_all
  show ?thesis unfolding potr_service_get_type_def potr_internal_config_load_service_def
    using m r by (simp add: Let_def split: option.split)
qed

section \<open>Witness\<close>

datatype demo_json = DStr string | DObj "(string \<times> demo_json) list"

definition demo_file :: demo_json where
  "demo_file = DObj [(''services'', DObj [(''7'', DObj [(''type'', DStr ''tcp''), (''src_addr2'', DStr (replicate 70 CHR ''a''))])])]"

definition demo_cjson :: "demo_json cjson" where
  "demo_cjson =
    \<lparr>parse_jsonc = (\<lambda>text. if text = [1, 2, 3] then Some demo_file else None),
     is_object = (\<lambda>j. case j of DObj _ \<Rightarrow> True | _ \<Rightarrow> False),
     members = (\<lambda>j. case j of DObj ms \<Rightarrow> ms | _ \<Rightarrow> []),
     object_item = (\<lambda>j name. case j of DObj ms \<Rightarrow> map_of ms name | _ \<Rightarrow> None),
     is_string = (\<lambda>j. case j of DStr _ \<Rightarrow> True | _ \<Rightarrow> False),
     string_value = (\<lambda>j. case j of DStr s \<Rightarrow> Some s | _ \<Rightarrow> None), exact_int = (\<lambda>_. None)\<rparr>"

definition demo_config_env :: config_env where
  "demo_config_env =
    \<lparr>parse_uint8 = (\<lambda>_ _ x. (False, x)), parse_uint16 = (\<lambda>_ _ x. (False, x)), parse_uint32 = (\<lambda>_ _ x. (False, x)),
     parse_int64 = (\<lambda>_ _. None), passphrase_to_key = (\<lambda>_. None), text_malloc_ok = True, text_realloc_ok = (\<lambda>_. True),
     ids_alloc_ok = (\<lambda>_. True)\<rparr>"

definition demo_files :: files where
  "demo_files = (\<lambda>path. if path = ''f'' then Some [[1, 2], [3]] else None)"

theorem config_service_loaded_witness:
  "\<exists>s. potr_internal_config_load_service demo_config_env demo_cjson demo_files (Some ''f'') 7 True = Some (Inr s) \<and> service_ok s \<and>
     sd_type s = POTR_TYPE_TCP \<and> length (sd_src_addr s ! 1) = 63 \<and>
     potr_service_get_type demo_config_env demo_cjson demo_files (Some ''f'') 7 True = Some (Inr (Some POTR_TYPE_TCP))"
proof -
  have f: "fgets_ok demo_files" "key_size_ok demo_config_env"
    by (simp_all add: fgets_ok_def demo_files_def key_size_ok_def demo_config_env_def)
  have r: "config_read_jsonc demo_config_env demo_cjson demo_files ''f'' = Some (Inr demo_file)"
    by (simp add: config_read_jsonc_def demo_files_def demo_config_env_def read_chunk_def Let_def copy_text_def demo_cjson_def demo_file_def
        word_less_nat_alt)
  have idt: "int_text 7 = ''7''" by code_simp
  define s where "s = (service_defaults 7)\<lparr>sd_type := POTR_TYPE_TCP, sd_type_set := True,
    sd_src_addr := (replicate POTR_MAX_PATH [])[1 := replicate 63 CHR ''a'']\<rparr>"
  have "potr_internal_config_load_service demo_config_env demo_cjson demo_files (Some ''f'') 7 True = Some (Inr s)"
    unfolding potr_internal_config_load_service_def
    by (simp add: r, simp add: idt demo_cjson_def demo_file_def apply_members_def config_value_text_def apply_service_kv_def type_names_def
        addr_index_def copy_cstr_trunc_def s_def service_defaults_def)
  then show ?thesis using config_service_loaded[OF f, of demo_cjson "''f''" 7] by (simp add: s_def)
qed

end
