(* ===== verification/Spec2Isabelle.thy ===== *)
theory Spec2Isabelle
  imports Window_Protocol Message_Flow Connect_Inv Config
begin

text \<open>
  Verification of porter, a C library for messages over UDP and TCP.  All paths below are relative
  to \<^verbatim>\<open>src/prod/libsrc/porter\<close>, headers to \<^verbatim>\<open>src/prod/include\<close> and \<^verbatim>\<open>include_internal\<close>.

  \<^bold>\<open>The program.\<close>  An application opens a service (\<^verbatim>\<open>api/potr_service_open.c\<close>, or from a configuration
  file), sends messages (\<^verbatim>\<open>api/potr_service_send.c\<close>), is called back with the messages and the
  connection events of its peers, and closes the service (\<^verbatim>\<open>api/potr_service_close.c\<close>).  A send call
  compresses and fragments a message into a bounded queue (\<^verbatim>\<open>infra/potr_send_queue.c\<close>).  The send thread
  packs queued elements into packets, encrypts them, stores them in a sliding window and sends them on
  up to four paths.  The receive thread validates packets, follows the session of the sender, orders
  packets in a window, asks for missing ones by NACK, reassembles messages and delivers them.  The
  health thread sends PING packets, whose absence makes a path and finally the connection go down.  An
  N:1 service keeps a table of peers with a slot of state each.  A TCP service has a connection thread
  for each path that connects or accepts and runs the other threads for as long as a connection lasts.

  \<^bold>\<open>Conventions.\<close>  A struct is a record, a machine integer a word of its width, a result code a value
  of \<^typ>\<open>potr_result\<close>.  Stateful code passes the context \<^typ>\<open>potr_context\<close>.  A critical section is one
  step, so locks have no counterpart.  What the program does to the outside is appended to
  \<^const>\<open>c_trace\<close>: datagrams, bytes on a connection, callbacks, bindings, wake-ups.  Code that is not
  part of the repository (the platform library cplat, the JSON parser) is a record of functions that
  the definitions take as an argument; a call that may answer differently each time is given the
  number \<^const>\<open>c_tick\<close> of the call.  What is relied on is a named hypothesis, such as
  \<^const>\<open>byteorder_ok\<close>, \<^const>\<open>crypto_ok\<close>, \<^const>\<open>decrypt_shortens\<close> or \<^const>\<open>key_size_ok\<close>, and each
  theorem with one has a witness on concrete functions.

  \<^bold>\<open>Theories.\<close>
  \<^item> \<^verbatim>\<open>Porter_Prelude\<close>: lemmas on lists, folds and words, and the collections of simplification rules.
  \<^item> \<^verbatim>\<open>Porter_Types\<close>: \<^verbatim>\<open>porter_type.h\<close>, \<^verbatim>\<open>porter_const.h\<close>, \<^verbatim>\<open>porter_result.h\<close>, \<^verbatim>\<open>infra/potr_result.c\<close>; the
    platform as a record.
  \<^item> \<^verbatim>\<open>Window\<close>, \<^verbatim>\<open>Recv_Buffer\<close>, \<^verbatim>\<open>Send_Buffer\<close>: \<^verbatim>\<open>protocol/window.c\<close> and \<^verbatim>\<open>seqnum.c\<close>.  The window as a locale
    with its laws and its interpretation; accesses stay inside the allocated blocks; packets leave the
    receive window in order and once, and the send window returns the last packets, across the wrap of
    the sequence numbers.
  \<^item> \<^verbatim>\<open>Packet\<close>: \<^verbatim>\<open>protocol/packet.c\<close>.  Round trips of every packet kind and of packed containers; the
    parser stays inside the buffer.
  \<^item> \<^verbatim>\<open>Send_Queue\<close>: \<^verbatim>\<open>infra/potr_send_queue.c\<close>.  A bounded queue in order, with no lost wake-up.
  \<^item> \<^verbatim>\<open>Context\<close>: \<^verbatim>\<open>potr_context.h\<close>, \<^verbatim>\<open>thread/thread_recv_slot.h\<close>.  The context, the peers, and the slot that is
    either the context's own or that of a peer.
  \<^item> \<^verbatim>\<open>Path_Event\<close>: \<^verbatim>\<open>potr_path_event.c\<close>.  The events are those that lead the view of the application from
    the old path states to the new ones.
  \<^item> \<^verbatim>\<open>Slot_Step\<close>, \<^verbatim>\<open>Context_Inv\<close>: the steps of one slot, the invariant \<^const>\<open>ctx_inv\<close> of a whole context, and
    that every such step keeps it.
  \<^item> \<^verbatim>\<open>Peer_Table\<close>: \<^verbatim>\<open>potr_peer_table.c\<close>.  Identifiers, slots and counter agree after every operation.
  \<^item> \<^verbatim>\<open>Recv_Session\<close>, \<^verbatim>\<open>Recv_Slot\<close>, \<^verbatim>\<open>Recv_Fin\<close>, \<^verbatim>\<open>Recv_Window\<close>, \<^verbatim>\<open>Recv_Validate\<close>, \<^verbatim>\<open>Recv_Dispatch\<close>, \<^verbatim>\<open>Recv_Health\<close>: the
    parts \<^verbatim>\<open>thread/thread_recv_*.c\<close> of the receive thread; sessions, reassembly, FIN, NACK and REJECT,
    authentication, dispatch and timeouts.  \<^verbatim>\<open>Window_Protocol\<close> holds the properties of NACK and drain.
  \<^item> \<^verbatim>\<open>Recv_Thread\<close>: \<^verbatim>\<open>thread/potr_recv_thread.c\<close>.  Both receive loops as a step for each input; the locale of
    reactive programs is interpreted on both; every run keeps the invariant and the legal history.
  \<^item> \<^verbatim>\<open>Health_Thread\<close>, \<^verbatim>\<open>Tcp_Control\<close>: \<^verbatim>\<open>thread/potr_health_thread.c\<close>, \<^verbatim>\<open>infra/potr_tcp_control.c\<close>.
  \<^item> \<^verbatim>\<open>Send_Thread\<close>, \<^verbatim>\<open>Send_Turn\<close>: \<^verbatim>\<open>thread/potr_send_thread.c\<close>.  What a turn sends is what a receiver unpacks.
  \<^item> \<^verbatim>\<open>Service_Send\<close>, \<^verbatim>\<open>Message_Flow\<close>: \<^verbatim>\<open>api/potr_service_send.c\<close>.  A call queues the slices of the message;
    messages arrive once, in order and unchanged.
  \<^item> \<^verbatim>\<open>Platform\<close>, \<^verbatim>\<open>Thread_Control\<close>: threads, memory, start and stop of every thread, and
    \<^verbatim>\<open>api/api_context_cleanup.c\<close>.  What a thread still does until it is joined is an argument.
  \<^item> \<^verbatim>\<open>Open_Paths\<close>, \<^verbatim>\<open>Service_Open\<close>, \<^verbatim>\<open>Open_Failure\<close>: \<^verbatim>\<open>api/api_open_paths*.c\<close>, \<^verbatim>\<open>api/potr_service_open.c\<close>.  Sockets are
    bound as documented; an opened service satisfies the invariants of its threads; a failed open
    releases everything or keeps the context for a thread that did not end.
  \<^item> \<^verbatim>\<open>Service_Close\<close>, \<^verbatim>\<open>Peer_Disconnect\<close>: \<^verbatim>\<open>api/potr_service_close.c\<close>, \<^verbatim>\<open>api/potr_peer_disconnect.c\<close>.  The peer is
    told the end of the session after the last packet, and everything is released.
  \<^item> \<^verbatim>\<open>Connect_Prepare\<close>, \<^verbatim>\<open>Connect_Thread\<close>, \<^verbatim>\<open>Connect_Inv\<close>: \<^verbatim>\<open>thread/thread_connect_prepare.c\<close>,
    \<^verbatim>\<open>potr_connect_thread.c\<close>, \<^verbatim>\<open>potr_connected_threads.c\<close>.  The loops are the relation \<^const>\<open>conn_step\<close> on the
    context and a program counter for each path; its invariant holds in every interleaving.
  \<^item> \<^verbatim>\<open>Config\<close>: \<^verbatim>\<open>protocol/config_*.c\<close>, \<^verbatim>\<open>config_parse_common.h\<close>, \<^verbatim>\<open>api/potr_service_open_from_config.c\<close>,
    \<^verbatim>\<open>api/potr_service_get_type.c\<close>.

  \<^bold>\<open>Loops and fuel.\<close>  The drain of the receive window has one unit of fuel more than the window has
  packets, and each turn of it removes one.  The search for a peer identifier has one unit for each
  slot of the table, whose identifiers may be in use, one for each of the two reserved values, and
  one more.  The growth of the text buffer has 64 units; 54 are
  enough, since a capacity of at least 1024 reaches half of the address range after 53 doublings.  The
  loops over a message, over the polls of a connection attempt and over lists end by their measure or
  structure.  Waits for another thread take what the other thread does as an argument.

  \<^bold>\<open>Not modelled.\<close>
  \<^item> Trace output (\<^verbatim>\<open>infra/potr_trace.c\<close>): it does not change the state.
  \<^item> The commands \<^verbatim>\<open>src/prod/src/cmd\<close>: console and process input and output around the interface.
  \<^item> Blocking socket calls and timed sleeps: their results are the inputs of the steps.
  \<^item> The memory model and the locks: a critical section is atomic, and races outside of one are
    recorded as findings only.
  \<^item> Erasing of memory that is not read again, and the freeing of single buffers: the context records
    sizes and whether its blocks exist.
  \<^item> A start of connection threads that fails is the relation \<^const>\<open>conn_failure\<close>, which is not part of
    the steps of the invariant, because it takes paths down without an event
    (\<^verbatim>\<open>Connect_Inv.reset_silent\<close>).
\<close>

end
